(* ===== verification/Prelude.thy ===== *)
theory Prelude
  imports Main "HOL-Library.Word"
begin

text \<open>
  What every component of the development shares: the machine types of the Go code, the
  big-endian codecs of \<^verbatim>\<open>encoding/binary\<close>, the byte-stream connection that stands for
  a \<^verbatim>\<open>net.Conn\<close>, and the generic invariant argument for step relations.

  A Go \<^verbatim>\<open>byte\<close> is an 8-bit word and a \<^verbatim>\<open>[]byte\<close> a list of them. The atomic counters
  of the code (\<^verbatim>\<open>atomic.Int64\<close>) are 64-bit words, so that \<^verbatim>\<open>Add\<close> wraps as it does in
  Go, and are compared as signed values. A Go string is a list of characters, one per byte.
\<close>

unbundle bit_operations_syntax

type_synonym byte = "8 word"
type_synonym bytes = "byte list"
type_synonym i64 = "64 word"

named_theorems io_simps \<open>what the reads and writes of a connection return\<close>
named_theorems codec_simps \<open>the byte codecs, read back\<close>

section \<open>Lists and maps\<close>

lemma take_append_exact [simp]: "length xs = n \<Longrightarrow> take n (xs @ ys) = xs"
  by simp

lemma drop_append_exact [simp]: "length xs = n \<Longrightarrow> drop n (xs @ ys) = ys"
  by simp

lemma length_2_iff: "length xs = 2 \<longleftrightarrow> (\<exists>a b. xs = [a, b])"
  by (auto simp: length_Suc_conv numeral_2_eq_2)

lemma length_4_iff: "length xs = 4 \<longleftrightarrow> (\<exists>a b c d. xs = [a, b, c, d])"
  by (auto simp: length_Suc_conv eval_nat_numeral)

lemma take_2_nth: "2 \<le> length xs \<Longrightarrow> take 2 xs = [xs ! 0, xs ! 1]"
  by (cases xs; cases "tl xs") auto

lemma list_update_two:
  "Suc k < length xs \<Longrightarrow> xs[k := a, Suc k := b] = take k xs @ [a, b] @ drop (k + 2) xs"
  by (simp add: upd_conv_take_nth_drop)

lemma card_dom_upd:
  "finite (dom m) \<Longrightarrow> card (dom (m(k \<mapsto> v))) = (if k \<in> dom m then card (dom m) else Suc (card (dom m)))"
  by (simp add: card_insert_if)

lemma sum_list_map_le:
  "(\<And>x. x \<in> set xs \<Longrightarrow> f x \<le> (c::nat)) \<Longrightarrow> sum_list (map f xs) \<le> c * length xs"
  by (induction xs) fastforce+

lemma mod_add_inj:
  fixes i j m v :: nat
  assumes eq: "(v + i) mod m = (v + j) mod m" and less: "i < m" "j < m"
  shows "i = j"
proof -
  have le: "a = b" if "(v + a) mod m = (v + b) mod m" "a \<le> b" "b < m" for a b
  proof -
    have "m dvd (v + b) - (v + a)"
      using that mod_eq_dvd_iff_nat[of "v + a" "v + b" m] by simp
    then show ?thesis
      using that nat_dvd_not_less[of "b - a" m] by force
  qed
  show ?thesis
    using le[of i j] le[of j i] eq less by (cases "i \<le> j") auto
qed

section \<open>Machine integers\<close>

lemma unat_byte: "unat (b::byte) < 256"
  using unsigned_less[of b] by simp

lemma bit_byte: "bit (b::byte) n \<Longrightarrow> n < 8"
  using bit_imp_le_length by fastforce

text \<open>Or-ing two values with no common bit adds them.\<close>

lemma or_shift_nat:
  fixes a b n :: nat
  assumes "b < 2 ^ n"
  shows "push_bit n a OR b = a * 2 ^ n + b"
proof -
  have "push_bit n a AND b = 0"
    using assms
    by (auto simp: bit_eq_iff bit_and_iff bit_push_bit_iff)
      (metis bit_take_bit_iff take_bit_nat_eq_self not_le)
  then show ?thesis
    by (simp add: disjunctive_add_eq_or[symmetric] push_bit_eq_mult)
qed

section \<open>Big-endian codecs\<close>

text \<open>\<^verbatim>\<open>binary.BigEndian.Uint16\<close> and \<^verbatim>\<open>PutUint16\<close>.\<close>

definition be16 :: "byte \<Rightarrow> byte \<Rightarrow> 16 word" where
  "be16 h l = push_bit 8 (ucast h) OR ucast l"

definition put16 :: "16 word \<Rightarrow> bytes" where
  "put16 w = [ucast (drop_bit 8 w), ucast w]"

text \<open>
  The length of a packet: \<^verbatim>\<open>int(b[0])<<24 | int(b[1])<<16 | int(b[2])<<8 | int(b[3])\<close> on
  Go's 64-bit \<^verbatim>\<open>int\<close>, and the four bytes \<^verbatim>\<open>byte(n>>24), byte(n>>16), byte(n>>8), byte(n)\<close>.
\<close>

definition be32 :: "byte \<Rightarrow> byte \<Rightarrow> byte \<Rightarrow> byte \<Rightarrow> 64 word" where
  "be32 a b c d =
     push_bit 24 (ucast a) OR push_bit 16 (ucast b) OR push_bit 8 (ucast c) OR ucast d"

definition put32 :: "64 word \<Rightarrow> bytes" where
  "put32 n = [ucast (drop_bit 24 n), ucast (drop_bit 16 n), ucast (drop_bit 8 n), ucast n]"

lemma length_put16 [simp]: "length (put16 w) = 2"
  by (simp add: put16_def)

lemma length_put32 [simp]: "length (put32 w) = 4"
  by (simp add: put32_def)

lemma put16_be16 [codec_simps]: "be16 (ucast (drop_bit 8 w)) (ucast w) = w"
  unfolding be16_def by (rule bit_eqI) (auto simp: bit_simps)

lemma be16_high [codec_simps]: "(ucast (drop_bit 8 (be16 h l)) :: byte) = h"
  unfolding be16_def by (rule bit_eqI) (auto simp: bit_simps dest: bit_byte)

lemma be16_low [codec_simps]: "(ucast (be16 h l) :: byte) = l"
  unfolding be16_def by (rule bit_eqI) (auto simp: bit_simps dest: bit_byte)

lemma be16_put16 [codec_simps]: "put16 (be16 h l) = [h, l]"
  by (simp add: put16_def codec_simps)

lemma put16_inj: "put16 v = put16 w \<longleftrightarrow> v = w"
  by (metis put16_be16 put16_def list.inject)

lemma unat_be16: "unat (be16 h l) = 256 * unat h + unat l"
proof -
  have b: "unat h < 256" "unat l < 256"
    by (rule unat_byte)+
  then have "unat (push_bit 8 (ucast h :: 16 word)) = push_bit 8 (unat h)"
    by (simp only: unsigned_push_bit_eq unsigned_ucast_eq)
      (simp add: take_bit_eq_mod push_bit_eq_mult)
  then show ?thesis
    using b or_shift_nat[of "unat l" 8 "unat h"]
    by (simp only: be16_def unsigned_or_eq) (simp add: unsigned_ucast_eq take_bit_eq_mod)
qed

lemma unat_shift_byte:
  assumes n: "n \<le> 24"
  shows "unat (push_bit n (ucast (b::byte) :: 64 word)) = push_bit n (unat b)"
proof -
  have p: "(2::nat) ^ n \<le> 2 ^ 24"
    using n by (rule power_increasing) simp
  have "unat b * 2 ^ n \<le> 255 * 2 ^ 24"
    using unat_byte[of b] p by (intro mult_le_mono) auto
  with unat_byte[of b] show ?thesis
    by (simp only: unsigned_push_bit_eq unsigned_ucast_eq)
      (simp add: take_bit_eq_mod push_bit_eq_mult)
qed

lemma unat_be32:
  "unat (be32 a b c d) = 2^24 * unat a + 2^16 * unat b + 2^8 * unat c + unat d"
proof -
  have b: "unat a < 256" "unat b < 256" "unat c < 256" "unat d < 256"
    by (rule unat_byte)+
  have d: "unat (ucast d :: 64 word) = unat d"
    using b by (simp add: unsigned_ucast_eq take_bit_eq_mod)
  have "unat (be32 a b c d)
      = push_bit 24 (unat a) OR (push_bit 16 (unat b) OR (push_bit 8 (unat c) OR unat d))"
    by (simp add: be32_def unsigned_or_eq unat_shift_byte d or.assoc del: push_bit_of_nat)
  also have "push_bit 8 (unat c) OR unat d = unat c * 2^8 + unat d"
    using b by (intro or_shift_nat) simp
  also have "push_bit 16 (unat b) OR \<dots> = unat b * 2^16 + \<dots>"
    using b by (intro or_shift_nat) simp
  also have "push_bit 24 (unat a) OR \<dots> = unat a * 2^24 + \<dots>"
    using b by (intro or_shift_nat) simp
  finally show ?thesis by simp
qed

lemma unat_ucast_byte: "unat (ucast (w :: 'a::len word) :: byte) = unat w mod 256"
  by (simp add: unsigned_ucast_eq take_bit_eq_mod)

text \<open>The four bytes carry the low 32 bits of the length, no more.\<close>

lemma be32_put32:
  "be32 (ucast (drop_bit 24 n)) (ucast (drop_bit 16 n)) (ucast (drop_bit 8 n)) (ucast n)
     = take_bit 32 n"
proof (rule bit_eqI)
  fix k :: nat
  consider "k < 8" | "8 \<le> k" "k < 16" | "16 \<le> k" "k < 24" | "24 \<le> k"
    by linarith
  then show "bit (be32 (ucast (drop_bit 24 n)) (ucast (drop_bit 16 n))
      (ucast (drop_bit 8 n)) (ucast n)) k = bit (take_bit 32 n) k"
    by cases (auto simp: be32_def bit_simps)
qed

lemma unat_be16_put16_of_nat:
  "unat (be16 (ucast (drop_bit 8 (of_nat n :: 16 word))) (ucast (of_nat n :: 16 word))) = n mod 65536"
  by (simp only: put16_be16) (simp add: unsigned_of_nat take_bit_eq_mod)

lemma unat_be32_put32_of_nat:
  "n < 2 ^ 32 \<Longrightarrow>
   unat (be32 (ucast (drop_bit 24 (of_nat n :: 64 word))) (ucast (drop_bit 16 (of_nat n :: 64 word)))
     (ucast (drop_bit 8 (of_nat n :: 64 word))) (ucast (of_nat n :: 64 word))) = n"
  by (simp only: be32_put32 unsigned_take_bit_eq)
    (simp add: unsigned_of_nat take_bit_nat_eq_self)

section \<open>Connections\<close>

text \<open>
  A \<^verbatim>\<open>net.Conn\<close>: the bytes the peer sends before it closes (or fails), the bytes the
  transport has accepted from us, and how many more it will accept. A wr past that
  capacity is the failing write of the code: the part that fitted is on the wire, the call
  returns its length and an error, and every later write of a non-empty slice fails.
\<close>

datatype io_err = ErrEOF | ErrUnexpectedEOF | ErrWrite

record conn =
  inp :: bytes
  outp :: bytes
  wcap :: nat

text \<open>\<^verbatim>\<open>io.ReadFull\<close> into a fresh buffer of \<open>n\<close> bytes; reading no byte succeeds.\<close>

definition read_full :: "nat \<Rightarrow> conn \<Rightarrow> (io_err + bytes) \<times> conn" where
  "read_full n c =
     (if length (inp c) < n
      then (Inl (if inp c = [] then ErrEOF else ErrUnexpectedEOF), c\<lparr>inp := []\<rparr>)
      else (Inr (take n (inp c)), c\<lparr>inp := drop n (inp c)\<rparr>))"

text \<open>\<^verbatim>\<open>Conn.Write\<close>: the count and the error, as Go returns them.\<close>

definition conn_write :: "bytes \<Rightarrow> conn \<Rightarrow> (nat \<times> io_err option) \<times> conn" where
  "conn_write p c =
     (if length p \<le> wcap c
      then ((length p, None), c\<lparr>outp := outp c @ p, wcap := wcap c - length p\<rparr>)
      else ((wcap c, Some ErrWrite), c\<lparr>outp := outp c @ take (wcap c) p, wcap := 0\<rparr>))"

lemma read_full_ok [io_simps]:
  "length xs = n \<Longrightarrow> inp c = xs @ ys \<Longrightarrow> read_full n c = (Inr xs, c\<lparr>inp := ys\<rparr>)"
  by (simp add: read_full_def)

lemma read_full_InrD:
  "read_full n c = (Inr xs, c') \<Longrightarrow>
   length xs = n \<and> inp c = xs @ inp c' \<and> outp c' = outp c \<and> wcap c' = wcap c"
  by (auto simp: read_full_def split: if_splits)

lemma read_full_frame:
  "read_full n c = (r, c') \<Longrightarrow> outp c' = outp c \<and> wcap c' = wcap c"
  by (auto simp: read_full_def split: if_splits)

lemma conn_write_ok [io_simps]:
  "length p \<le> wcap c \<Longrightarrow>
   conn_write p c = ((length p, None), c\<lparr>outp := outp c @ p, wcap := wcap c - length p\<rparr>)"
  by (simp add: conn_write_def)

lemma conn_write_frame: "conn_write p c = (r, c') \<Longrightarrow> inp c' = inp c"
  by (auto simp: conn_write_def split: if_splits)

lemma conn_write_outp: "conn_write p c = ((n, e), c') \<Longrightarrow>
    outp c' = outp c @ take n p \<and> n \<le> length p \<and> (e = None \<longleftrightarrow> n = length p)"
  by (auto simp: conn_write_def split: if_splits)

section \<open>Writers\<close>

text \<open>
  The contract of \<^verbatim>\<open>io.Writer\<close>: a call returns how many bytes of its argument it has
  passed on, those are the next bytes of the output, and it reports an error when they are
  not all of them; an error leaves the writer broken. The wrapping writers of the code (fragmentation, rate limiting) are
  proved against this interface, and the connection model provides it.
\<close>

type_synonym 'w writer = "bytes \<Rightarrow> 'w \<Rightarrow> (nat \<times> io_err option) \<times> 'w"

locale io_writer =
  fixes wr :: "'w writer"
    and sink :: "'w \<Rightarrow> bytes"
    and usable :: "'w \<Rightarrow> bool"
    and broken :: "'w \<Rightarrow> bool"
  assumes write_sink: "usable w \<Longrightarrow> wr p w = ((n, e), w') \<Longrightarrow> sink w' = sink w @ take n p"
    and write_count: "usable w \<Longrightarrow> wr p w = ((n, e), w') \<Longrightarrow> n \<le> length p"
    and write_short: "usable w \<Longrightarrow> wr p w = ((n, None), w') \<Longrightarrow> n = length p"
    and write_usable: "usable w \<Longrightarrow> wr p w = ((n, e), w') \<Longrightarrow> usable w'"
    and write_broken: "usable w \<Longrightarrow> wr p w = ((n, Some x), w') \<Longrightarrow> broken w'"
begin

lemma write_complete: "usable w \<Longrightarrow> wr p w = ((n, None), w') \<Longrightarrow> sink w' = sink w @ p"
  using write_sink write_short by fastforce

end

lemma conn_write_broken: "conn_write p c = ((n, Some x), c') \<Longrightarrow> wcap c' = 0"
  by (auto simp: conn_write_def split: if_splits)

interpretation conn_writer: io_writer conn_write outp "\<lambda>c. True" "\<lambda>c. wcap c = 0"
  by unfold_locales (auto dest: conn_write_outp conn_write_broken)

text \<open>\<^verbatim>\<open>for _, frag := range frags { n, err := w.Write(frag); total += n; ... }\<close>\<close>

fun write_frags :: "'w writer \<Rightarrow> bytes list \<Rightarrow> 'w \<Rightarrow> (nat \<times> io_err option) \<times> 'w" where
  "write_frags wr [] w = ((0, None), w)"
| "write_frags wr (f # fs) w =
     (case wr f w of
        ((n, Some e), w') \<Rightarrow> ((n, Some e), w')
      | ((n, None), w') \<Rightarrow>
          (case write_frags wr fs w' of ((m, e), w'') \<Rightarrow> ((n + m, e), w'')))"

context io_writer
begin

text \<open>Writing the pieces one by one passes on a prefix of their concatenation.\<close>

lemma write_frags_sink:
  "usable w \<Longrightarrow> write_frags wr fs w = ((n, e), w') \<Longrightarrow>
   sink w' = sink w @ take n (concat fs) \<and> n \<le> length (concat fs) \<and>
   (e = None \<longrightarrow> n = length (concat fs)) \<and> usable w' \<and> (e \<noteq> None \<longrightarrow> broken w')"
proof (induction fs arbitrary: w n e w')
  case Nil
  then show ?case by simp
next
  case (Cons f fs)
  obtain m d w1 where 1: "wr f w = ((m, d), w1)"
    by (metis prod.exhaust)
  show ?case
  proof (cases d)
    case None
    obtain k e2 w2 where 2: "write_frags wr fs w1 = ((k, e2), w2)"
      by (metis prod.exhaust)
    have m: "m = length f"
      using 1 None write_short Cons.prems(1) by blast
    have "n = m + k" "e = e2" "w' = w2"
      using Cons.prems 1 2 None by auto
    with Cons.IH[OF _ 2] write_sink[OF _ 1] write_usable[OF _ 1] m Cons.prems(1)
    show ?thesis by simp
  next
    case (Some x)
    with Cons.prems 1 have "n = m" "e = Some x" "w' = w1" by auto
    with write_sink[OF _ 1] write_count[OF _ 1] write_usable[OF _ 1] Cons.prems(1)
      write_broken[of w f m x w1] 1 Some
    show ?thesis by simp
  qed
qed

end

section \<open>Step relations\<close>

text \<open>
  The interface of a component with internal state: where it starts and which steps it
  takes. An invariant that holds at the start and is kept by every step holds in every
  reachable state; the components instantiate this on their own step relations.
\<close>

locale transition_system =
  fixes init :: "'s \<Rightarrow> bool"
    and step :: "'s \<Rightarrow> 's \<Rightarrow> bool"
    and inv :: "'s \<Rightarrow> bool"
  assumes inv_init: "init s \<Longrightarrow> inv s"
    and inv_step: "inv s \<Longrightarrow> step s t \<Longrightarrow> inv t"
begin

lemma inv_steps: "step\<^sup>*\<^sup>* s t \<Longrightarrow> inv s \<Longrightarrow> inv t"
  by (induction rule: rtranclp_induct) (auto intro: inv_step)

lemma inv_reachable: "init s \<Longrightarrow> step\<^sup>*\<^sup>* s t \<Longrightarrow> inv t"
  by (blast intro: inv_init inv_steps)

end

text \<open>
  A component that comes to its end by its own steps: once it is closing, each of them
  leaves it closing and lowers its rank, whatever the rank is counted in. It then takes at most as many
  steps as its rank, and it reaches a state in which it takes none.
\<close>

locale closing_system = transition_system +
  fixes own :: "'s \<Rightarrow> 's \<Rightarrow> bool"
    and closing :: "'s \<Rightarrow> bool"
    and rank :: "'s \<Rightarrow> nat"
  assumes own_step: "own s t \<Longrightarrow> step s t"
    and own_closing: "inv s \<Longrightarrow> closing s \<Longrightarrow> own s t \<Longrightarrow> closing t"
    and own_rank: "inv s \<Longrightarrow> closing s \<Longrightarrow> own s t \<Longrightarrow> rank t < rank s"
begin

lemma own_inv: "inv s \<Longrightarrow> own s t \<Longrightarrow> inv t"
  by (blast intro: inv_step own_step)

lemma own_steps:
  "(own ^^ n) s t \<Longrightarrow> inv s \<Longrightarrow> closing s \<Longrightarrow> inv t \<and> closing t \<and> n + rank t \<le> rank s"
proof (induction n arbitrary: t)
  case (Suc n)
  then obtain u where u: "(own ^^ n) s u" "own u t" by auto
  with Suc have "inv u \<and> closing u \<and> n + rank u \<le> rank s" by blast
  with u(2) own_inv[of u t] own_closing[of u t] own_rank[of u t] show ?case by auto
qed simp

lemma comes_to_rest:
  "inv s \<Longrightarrow> closing s \<Longrightarrow> \<exists>t. own\<^sup>*\<^sup>* s t \<and> inv t \<and> closing t \<and> (\<nexists>u. own t u)"
proof (induction "rank s" arbitrary: s rule: less_induct)
  case less
  show ?case
  proof (cases "\<exists>u. own s u")
    case True
    then obtain u where u: "own s u" by blast
    with less.prems own_inv own_closing own_rank have "inv u" "closing u" "rank u < rank s" by blast+
    with less.hyps[of u] u show ?thesis by (blast intro: converse_rtranclp_into_rtranclp)
  qed (use less.prems in blast)
qed

end

text \<open>
  Infinite runs. A run is fair to a part of the system if that part again and again takes a step of
  its own or has none to take. What such a part lowers by each of its steps, and nobody else raises,
  comes down to nothing, if the part can move as long as anything is left.
\<close>

definition fair_for :: "('s \<Rightarrow> 's \<Rightarrow> bool) \<Rightarrow> (nat \<Rightarrow> 's) \<Rightarrow> bool" where
  "fair_for act r \<longleftrightarrow> (\<forall>i. \<exists>j \<ge> i. act (r j) (r (Suc j)) \<or> \<not> (\<exists>t. act (r j) t))"

lemma run_keeps:
  assumes keep: "\<And>j. i \<le> j \<Longrightarrow> P (r j) \<Longrightarrow> P (r (Suc j))" and "P (r i)" and "i \<le> k"
  shows "P (r k)"
  using assms(3) by (induction k rule: dec_induct) (use assms(2) keep in auto)

lemma run_descends:
  assumes fair: "fair_for act r"
    and keep: "\<And>j. i \<le> j \<Longrightarrow> P (r j) \<Longrightarrow> P (r (Suc j))"
    and lower: "\<And>j. i \<le> j \<Longrightarrow> P (r j) \<Longrightarrow> act (r j) (r (Suc j)) \<Longrightarrow> f (r (Suc j)) < (f (r j) :: nat)"
    and others: "\<And>j. i \<le> j \<Longrightarrow> P (r j) \<Longrightarrow> f (r (Suc j)) \<le> f (r j)"
    and enabled: "\<And>j. i \<le> j \<Longrightarrow> P (r j) \<Longrightarrow> 0 < f (r j) \<Longrightarrow> \<exists>t. act (r j) t"
    and start: "P (r i)"
  shows "\<exists>j \<ge> i. P (r j) \<and> f (r j) = 0"
proof -
  have P: "P (r k)" if "i \<le> k" for k
    using run_keeps[where P = P and r = r and i = i and k = k] keep start that by blast
  have down: "f (r k) \<le> f (r j)" if "i \<le> j" "j \<le> k" for j k
    using that(2)
  proof (induction k rule: dec_induct)
    case (step m)
    then show ?case using others[of m] P[of m] that(1) by simp
  qed simp
  have "\<exists>j \<ge> k. f (r j) = 0" if "i \<le> k" for k
    using that
  proof (induction "f (r k)" arbitrary: k rule: less_induct)
    case less
    obtain j where j: "k \<le> j" "act (r j) (r (Suc j)) \<or> \<not> (\<exists>t. act (r j) t)"
      using fair unfolding fair_for_def by blast
    show ?case
    proof (cases "f (r j) = 0")
      case True
      with j(1) show ?thesis by blast
    next
      case False
      with enabled[of j] P[of j] less.prems j have "act (r j) (r (Suc j))" by auto
      then have "f (r (Suc j)) < f (r k)"
        using lower[of j] P[of j] down[of k j] less.prems j(1) by simp
      with less.hyps[of "Suc j"] less.prems j(1) obtain m where "Suc j \<le> m" "f (r m) = 0" by auto
      with j(1) show ?thesis by (intro exI[of _ m]) simp
    qed
  qed
  with P show ?thesis by blast
qed

section \<open>Engines that can be switched off\<close>

text \<open>
  The contract the daemon relies on when it switches the privacy engines: the switch is what
  was last set, setting it twice is setting it once, and an engine that is off hands its
  input on unchanged and does not touch its own state.
\<close>

locale engine =
  fixes set_on :: "bool \<Rightarrow> 's \<Rightarrow> 's"
    and is_on :: "'s \<Rightarrow> bool"
    and run :: "'s \<Rightarrow> 'x \<Rightarrow> 'x \<times> 's"
  assumes is_on_set: "is_on (set_on b s) = b"
    and set_on_again: "set_on b (set_on c s) = set_on b s"
    and off_run: "\<not> is_on s \<Longrightarrow> run s x = (x, s)"

fun run_list :: "('s \<Rightarrow> 'x \<Rightarrow> 'x \<times> 's) \<Rightarrow> 's \<Rightarrow> 'x list \<Rightarrow> 'x list \<times> 's" where
  "run_list run s [] = ([], s)"
| "run_list run s (x # xs) =
     (let (y, s') = run s x; (ys, s'') = run_list run s' xs in (y # ys, s''))"

context engine
begin

lemma switched_off: "run_list run (set_on False s) xs = (xs, set_on False s)"
  by (induction xs) (simp_all add: off_run is_on_set)

end

end
