(* ===== verification/CryptoUtil.thy ===== *)
theory CryptoUtil
  imports GoStd
begin

text \<open>
  The packages \<^verbatim>\<open>hotpath\<close> (nonce arithmetic, constant-time comparison),
  \<^verbatim>\<open>securecrypto\<close> (construction of the AEAD for a suite) and the key checks of
  \<^verbatim>\<open>security/x25519.go\<close>. The ciphers and the curve are third-party code: an AEAD is
  represented by its algorithm and key, the scalar multiplication is a parameter.
\<close>

section \<open>hotpath: IncrementNonce\<close>

text \<open>
  \<^verbatim>\<open>for i := len(nonce)-1; i >= 0; i-- { nonce[i]++; if nonce[i] != 0 { return } }\<close>:
  the argument is \<open>i + 1\<close>, so that \<open>0\<close> is the end of the loop.
\<close>

fun increment_from :: "nat \<Rightarrow> bytes \<Rightarrow> bytes" where
  "increment_from 0 nonce = nonce"
| "increment_from (Suc i) nonce =
     (let v = nonce ! i + 1; nonce' = nonce[i := v]
      in if v \<noteq> 0 then nonce' else increment_from i nonce')"

definition increment_nonce :: "bytes \<Rightarrow> bytes" where
  "increment_nonce nonce = increment_from (length nonce) nonce"

text \<open>The specification: a nonce is a big-endian counter.\<close>

definition nonce_value :: "bytes \<Rightarrow> nat" where
  "nonce_value bs = foldl (\<lambda>a b. 256 * a + unat b) 0 bs"

lemma nonce_value_snoc [simp]: "nonce_value (bs @ [b]) = 256 * nonce_value bs + unat b"
  by (simp add: nonce_value_def)

lemma nonce_value_Nil [simp]: "nonce_value [] = 0"
  by (simp add: nonce_value_def)

lemma nonce_value_less: "nonce_value bs < 256 ^ length bs"
proof (induction bs rule: rev_induct)
  case Nil
  then show ?case by simp
next
  case (snoc b bs)
  have "256 * nonce_value bs + unat b < 256 * (nonce_value bs + 1)"
    using unat_byte[of b] by simp
  also have "\<dots> \<le> 256 * 256 ^ length bs"
    using snoc.IH by (intro mult_le_mono2) simp
  finally show ?case by simp
qed

lemma nonce_value_inj:
  "length xs = length ys \<Longrightarrow> nonce_value xs = nonce_value ys \<Longrightarrow> xs = ys"
proof (induction xs arbitrary: ys rule: rev_induct)
  case Nil
  then show ?case by simp
next
  case (snoc x xs)
  then obtain y zs where ys: "ys = zs @ [y]" and l: "length zs = length xs"
    by (cases ys rule: rev_cases) auto
  have e: "256 * nonce_value xs + unat x = 256 * nonce_value zs + unat y"
    using snoc.prems ys by simp
  have "unat x = (256 * nonce_value xs + unat x) mod 256"
    using unat_byte[of x] by simp
  also have "\<dots> = unat y"
    using unat_byte[of y] by (simp only: e) simp
  finally have x: "unat x = unat y" .
  with e have "nonce_value xs = nonce_value zs"
    by simp
  with snoc.IH[of zs] l ys x show ?case by (simp add: unsigned_word_eqI)
qed

lemma increment_from_take:
  "i \<le> length xs \<Longrightarrow> increment_from i (xs @ ys) = increment_from i xs @ ys"
  by (induction i arbitrary: xs) (auto simp: Let_def nth_append list_update_append)

lemma length_increment_from [simp]: "length (increment_from i xs) = length xs"
  by (induction i arbitrary: xs) (auto simp: Let_def)

lemma length_increment_nonce [simp]: "length (increment_nonce xs) = length xs"
  by (simp add: increment_nonce_def)

lemma increment_nonce_snoc:
  "increment_nonce (xs @ [b]) =
     (if b + 1 \<noteq> 0 then xs @ [b + 1] else increment_nonce xs @ [0])"
  by (auto simp: increment_nonce_def Let_def increment_from_take)

lemma unat_byte_inc: "unat ((b::byte) + 1) = (if b + 1 = 0 then 0 else unat b + 1)"
  by (metis unat_0 unatSuc add.commute plus_1_eq_Suc)

lemma byte_inc_0: "(b::byte) + 1 = 0 \<Longrightarrow> unat b = 255"
proof -
  assume "b + 1 = 0"
  then have "b = - 1" by (simp add: eq_neg_iff_add_eq_0)
  then show "unat b = 255"
    by (simp add: unsigned_minus_1_eq_mask mask_eq_exp_minus_1)
qed

lemma nonce_value_increment:
  "nonce_value (increment_nonce xs) = (nonce_value xs + 1) mod 256 ^ length xs"
proof (induction xs rule: rev_induct)
  case Nil
  then show ?case by (simp add: increment_nonce_def)
next
  case (snoc b xs)
  let ?v = "nonce_value xs" and ?m = "256 ^ length xs :: nat"
  show ?case
  proof (cases "b + 1 = 0")
    case True
    then have "256 * ?v + unat b + 1 = 256 * (?v + 1)"
      using byte_inc_0 by simp
    then have "(256 * ?v + unat b + 1) mod (256 * ?m) = 256 * ((?v + 1) mod ?m)"
      by (simp only: mod_mult_mult1)
    with True snoc.IH show ?thesis by (simp add: increment_nonce_snoc)
  next
    case False
    have "256 * ?v + unat b + 1 < 256 * ?m"
    proof -
      have "unat b + 1 < 256"
        using False unat_byte_inc[of b] unat_byte[of "b + 1"] by simp
      moreover have "?v + 1 \<le> ?m"
        using nonce_value_less[of xs] by simp
      then have "256 * (?v + 1) \<le> 256 * ?m"
        by (rule mult_le_mono2)
      ultimately show ?thesis by simp
    qed
    with False show ?thesis
      by (simp add: increment_nonce_snoc unat_byte_inc)
  qed
qed

lemma increment_nonce_iterate:
  "length ((increment_nonce ^^ k) xs) = length xs \<and>
   nonce_value ((increment_nonce ^^ k) xs) = (nonce_value xs + k) mod 256 ^ length xs"
  by (induction k) (auto simp: nonce_value_increment mod_Suc_eq nonce_value_less)

section \<open>hotpath: ConstantTimeEqual\<close>

text \<open>\<^verbatim>\<open>subtle.ConstantTimeCompare\<close> ors together the differences of all bytes.\<close>

definition constant_time_compare :: "bytes \<Rightarrow> bytes \<Rightarrow> nat" where
  "constant_time_compare x y =
     (if length x \<noteq> length y then 0
      else if foldl (\<lambda>v (a, b). v OR (a XOR b)) 0 (zip x y) = 0 then 1 else 0)"

definition constant_time_equal :: "bytes \<Rightarrow> bytes \<Rightarrow> bool" where
  "constant_time_equal left right =
     (if length left \<noteq> length right then False
      else constant_time_compare left right = 1)"

lemma or_eq_0_iff: "(a::'a::len word) OR b = 0 \<longleftrightarrow> a = 0 \<and> b = 0"
  by (auto simp: bit_eq_iff bit_or_iff)

lemma xor_eq_0_iff: "(a::'a::len word) XOR b = 0 \<longleftrightarrow> a = b"
  by (auto simp: bit_eq_iff bit_xor_iff)

lemma diff_fold_0_iff:
  "length x = length y \<Longrightarrow>
   foldl (\<lambda>v (a, b). v OR (a XOR b)) (v :: byte) (zip x y) = 0 \<longleftrightarrow> v = 0 \<and> x = y"
  by (induction x y arbitrary: v rule: list_induct2) (auto simp: or_eq_0_iff xor_eq_0_iff)

section \<open>securecrypto: NewAEAD\<close>

datatype aead = AesGcm bytes | ChaCha20Poly1305 bytes

datatype aead_err = BadKeyLength string | UnsupportedSuite string

definition new_aead :: "string \<Rightarrow> bytes \<Rightarrow> aead_err + aead" where
  "new_aead suite key =
     (if length key \<noteq> 32 then Inl (BadKeyLength suite)
      else if suite = ''AES-256-GCM'' then Inr (AesGcm key)
      else if suite = ''ChaCha20-Poly1305'' then Inr (ChaCha20Poly1305 key)
      else Inl (UnsupportedSuite suite))"

text \<open>
  \<^verbatim>\<open>Seal\<close> and \<^verbatim>\<open>Open\<close> call the cipher, which is an argument here; both ciphers panic (None) when
  the nonce is not one of 12 bytes. Opening can fail besides.
\<close>

definition seal :: "(aead \<Rightarrow> bytes \<Rightarrow> bytes \<Rightarrow> bytes \<Rightarrow> bytes) \<Rightarrow> aead \<Rightarrow> bytes \<Rightarrow> bytes \<Rightarrow> bytes \<Rightarrow> bytes option" where
  "seal enc aead nonce plaintext aad =
     (if length nonce \<noteq> 12 then None else Some (enc aead nonce plaintext aad))"

definition open_sealed ::
  "(aead \<Rightarrow> bytes \<Rightarrow> bytes \<Rightarrow> bytes \<Rightarrow> bytes option) \<Rightarrow> aead \<Rightarrow> bytes \<Rightarrow> bytes \<Rightarrow> bytes \<Rightarrow> bytes option option" where
  "open_sealed dec aead nonce ciphertext aad =
     (if length nonce \<noteq> 12 then None else Some (dec aead nonce ciphertext aad))"

text \<open>What the ciphers document: opening what was sealed gives it back, and the tag has 16 bytes.\<close>

definition aead_pair ::
  "(aead \<Rightarrow> bytes \<Rightarrow> bytes \<Rightarrow> bytes \<Rightarrow> bytes) \<Rightarrow> (aead \<Rightarrow> bytes \<Rightarrow> bytes \<Rightarrow> bytes \<Rightarrow> bytes option) \<Rightarrow> bool" where
  "aead_pair enc dec \<longleftrightarrow>
     (\<forall>k n p a. dec k n (enc k n p a) a = Some p \<and> length (enc k n p a) = length p + 16)"

lemma seal_open:
  assumes "aead_pair enc dec" and "seal enc aead nonce plaintext aad = Some c"
  shows "open_sealed dec aead nonce c aad = Some (Some plaintext) \<and> length c = length plaintext + 16"
  using assms by (auto simp: seal_def open_sealed_def aead_pair_def split: if_splits)

section \<open>security: X25519\<close>

datatype x25519_err = BadPrivateKey | BadPublicKey | CurveError

definition x25519 ::
  "(bytes \<Rightarrow> bytes \<Rightarrow> bytes option) \<Rightarrow> bytes \<Rightarrow> bytes \<Rightarrow> x25519_err + bytes" where
  "x25519 scalar_mult private public =
     (if length private \<noteq> 32 then Inl BadPrivateKey
      else if length public \<noteq> 32 then Inl BadPublicKey
      else case scalar_mult private public of None \<Rightarrow> Inl CurveError | Some s \<Rightarrow> Inr s)"

section \<open>Properties\<close>

text \<open>
  C36. Nonces never repeat before the counter wraps. \<open>IncrementNonce\<close> called \<open>k\<close> times on a
  nonce of \<open>n\<close> bytes leaves a nonce of \<open>n\<close> bytes whose big-endian value is the old one plus
  \<open>k\<close> modulo \<open>256 ^ n\<close>; in particular two different numbers of calls below \<open>256 ^ n\<close> give
  two different nonces.
\<close>

theorem increment_nonce_counter:
  "length ((increment_nonce ^^ k) nonce) = length nonce \<and>
   nonce_value ((increment_nonce ^^ k) nonce) = (nonce_value nonce + k) mod 256 ^ length nonce \<and>
   inj_on (\<lambda>j. (increment_nonce ^^ j) nonce) {..<256 ^ length nonce}"
proof (intro conjI)
  show "length ((increment_nonce ^^ k) nonce) = length nonce"
    and "nonce_value ((increment_nonce ^^ k) nonce) = (nonce_value nonce + k) mod 256 ^ length nonce"
    using increment_nonce_iterate by auto
  show "inj_on (\<lambda>j. (increment_nonce ^^ j) nonce) {..<256 ^ length nonce}"
  proof (rule inj_onI)
    fix i j :: nat
    let ?m = "256 ^ length nonce :: nat"
    assume "i \<in> {..<?m}" and "j \<in> {..<?m}"
      and "(increment_nonce ^^ i) nonce = (increment_nonce ^^ j) nonce"
    then have "(nonce_value nonce + i) mod ?m = (nonce_value nonce + j) mod ?m" "i < ?m" "j < ?m"
      using increment_nonce_iterate[of i nonce] increment_nonce_iterate[of j nonce] by auto
    then show "i = j"
      by (rule mod_add_inj)
  qed
qed

text \<open>
  The constant-time comparison is equality: \<open>ConstantTimeEqual\<close> is true exactly on equal
  byte slices, also when the lengths differ or both are empty.
\<close>

theorem constant_time_equal_iff: "constant_time_equal left right \<longleftrightarrow> left = right"
  by (auto simp: constant_time_equal_def constant_time_compare_def diff_fold_0_iff)

end
