(* ===== verification/GoNet.thy ===== *)
theory GoNet
  imports GoStd
begin

text \<open>
  The two functions of Go's \<^verbatim>\<open>net\<close> package on which the addresses of the proxy and the
  mesh depend: \<^verbatim>\<open>IP.String\<close> (dotted decimal for IPv4 and IPv4-mapped addresses, RFC 5952
  text without brackets for the other IPv6 addresses) and \<^verbatim>\<open>SplitHostPort\<close>, by which
  every dialer takes a \<^verbatim>\<open>host:port\<close> string apart.
\<close>

section \<open>IP.String\<close>

definition ip4_string :: "bytes \<Rightarrow> string" where
  "ip4_string a =
     dec_nat (unat (a ! 0)) @ ''.'' @ dec_nat (unat (a ! 1)) @ ''.'' @
     dec_nat (unat (a ! 2)) @ ''.'' @ dec_nat (unat (a ! 3))"

fun str_join :: "string \<Rightarrow> string list \<Rightarrow> string" where
  "str_join sep [] = []"
| "str_join sep [w] = w"
| "str_join sep (w # ws) = w @ sep @ str_join sep ws"

text \<open>The eight 16-bit groups of an IPv6 address.\<close>

fun ip6_groups :: "bytes \<Rightarrow> nat list" where
  "ip6_groups (h # l # rest) = unat (be16 h l) # ip6_groups rest"
| "ip6_groups _ = []"

text \<open>
  The first longest run of at least two zero groups; \<open>(255, 255)\<close> when there is none, as
  the unsigned markers of \<^verbatim>\<open>netip\<close> have it.
\<close>

definition zero_run_len :: "nat list \<Rightarrow> nat \<Rightarrow> nat" where
  "zero_run_len gs i = length (takeWhile (\<lambda>g. g = 0) (drop i gs))"

definition zero_run :: "nat list \<Rightarrow> nat \<times> nat" where
  "zero_run gs =
     foldl (\<lambda>(zs, ze) i. let l = zero_run_len gs i in
              if 2 \<le> l \<and> ze - zs < l then (i, i + l) else (zs, ze))
       (255, 255) [0..<8]"

definition ip6_string :: "bytes \<Rightarrow> string" where
  "ip6_string a =
     (let gs = ip6_groups a; (zs, ze) = zero_run gs
      in if zs = 255 then str_join '':'' (map hex_nat gs)
         else str_join '':'' (map hex_nat (take zs gs)) @ ''::'' @
              str_join '':'' (map hex_nat (drop ze gs)))"

text \<open>\<^verbatim>\<open>IP.To4\<close>: the IPv4 address of a 4-byte or an IPv4-mapped 16-byte slice.\<close>

definition ip_to4 :: "bytes \<Rightarrow> bytes option" where
  "ip_to4 a =
     (if length a = 4 then Some a
      else if length a = 16 \<and> take 10 a = replicate 10 0 \<and> a ! 10 = 255 \<and> a ! 11 = 255
      then Some (drop 12 a)
      else None)"

definition ip_to16 :: "bytes \<Rightarrow> bytes option" where
  "ip_to16 a =
     (if length a = 4 then Some (replicate 10 0 @ [255, 255] @ a)
      else if length a = 16 then Some a
      else None)"

text \<open>\<^verbatim>\<open>IP.String\<close> on the slices the code builds, of 4 or 16 bytes.\<close>

definition ip_string :: "bytes \<Rightarrow> string" where
  "ip_string a = (case ip_to4 a of Some a4 \<Rightarrow> ip4_string a4 | None \<Rightarrow> ip6_string a)"

section \<open>SplitHostPort\<close>

datatype addr_err =
  MissingPort | TooManyColons | MissingBracket | UnexpectedOpen | UnexpectedClose

definition split_tail :: "string \<Rightarrow> string \<Rightarrow> nat \<Rightarrow> nat \<Rightarrow> nat \<Rightarrow> addr_err + string \<times> string" where
  "split_tail s host j k i =
     (if CHR ''['' \<in> set (drop j s) then Inl UnexpectedOpen
      else if CHR '']'' \<in> set (drop k s) then Inl UnexpectedClose
      else Inr (host, drop (i + 1) s))"

definition split_host_port :: "string \<Rightarrow> addr_err + string \<times> string" where
  "split_host_port s =
     (case last_index_byte (CHR '':'') s of
        None \<Rightarrow> Inl MissingPort
      | Some i \<Rightarrow>
          if s ! 0 = CHR ''['' then
            (case index_byte (CHR '']'') s of
               None \<Rightarrow> Inl MissingBracket
             | Some e \<Rightarrow>
                 if e + 1 = length s then Inl MissingPort
                 else if e + 1 = i then split_tail s (take (e - 1) (drop 1 s)) 1 (e + 1) i
                 else if s ! (e + 1) = CHR '':'' then Inl TooManyColons
                 else Inl MissingPort)
          else
            (if CHR '':'' \<in> set (take i s) then Inl TooManyColons
             else split_tail s (take i s) 0 0 i))"

text \<open>\<^verbatim>\<open>fmt.Sprintf("%s:%d", host, port)\<close>.\<close>

definition sprintf_host_port :: "string \<Rightarrow> nat \<Rightarrow> string" where
  "sprintf_host_port h p = h @ '':'' @ dec_nat p"

text \<open>Characters that mean something to \<^verbatim>\<open>SplitHostPort\<close>.\<close>

definition plain_host :: "string \<Rightarrow> bool" where
  "plain_host h \<longleftrightarrow> CHR '':'' \<notin> set h \<and> CHR ''['' \<notin> set h \<and> CHR '']'' \<notin> set h"

lemma dec_nat_plain: "plain_host (dec_nat n)"
  unfolding plain_host_def using dec_nat_digits[of _ n] by (fastforce simp: is_digit_def)

lemma dec_nat_no_colon: "CHR '':'' \<notin> set (dec_nat n)"
  using dec_nat_plain by (simp add: plain_host_def)

lemma split_host_port_sprintf:
  assumes "plain_host h"
  shows "split_host_port (sprintf_host_port h p) = Inr (h, dec_nat p)"
proof -
  have i: "last_index_byte (CHR '':'') (sprintf_host_port h p) = Some (length h)"
    unfolding sprintf_host_port_def by (simp add: last_index_byte_append dec_nat_no_colon)
  have "(h @ CHR '':'' # dec_nat p) ! 0 \<noteq> CHR ''[''"
    using assms by (cases h) (auto simp: plain_host_def)
  with i assms dec_nat_plain[of p] show ?thesis
    by (simp add: split_host_port_def split_tail_def plain_host_def)
      (simp add: sprintf_host_port_def)
qed

text \<open>A host with a colon of its own and no opening bracket never gets through.\<close>

lemma split_host_port_colons:
  assumes "CHR '':'' \<in> set h" and "h \<noteq> [] \<Longrightarrow> hd h \<noteq> CHR ''[''"
  shows "split_host_port (sprintf_host_port h p) = Inl TooManyColons"
proof -
  have i: "last_index_byte (CHR '':'') (sprintf_host_port h p) = Some (length h)"
    unfolding sprintf_host_port_def by (simp add: last_index_byte_append dec_nat_no_colon)
  have "sprintf_host_port h p ! 0 \<noteq> CHR ''[''"
    using assms by (cases h) (auto simp: sprintf_host_port_def)
  with i assms(1) show ?thesis
    by (simp add: split_host_port_def) (simp add: sprintf_host_port_def)
qed

lemma digit_no_special: "is_digit c \<Longrightarrow> c \<noteq> CHR '':'' \<and> c \<noteq> CHR ''['' \<and> c \<noteq> CHR '']''"
  by (auto simp: is_digit_def)

lemma ip4_string_plain: "plain_host (ip4_string a)"
  using dec_nat_plain by (auto simp: ip4_string_def plain_host_def)

lemma str_join_colon: "2 \<le> length ws \<Longrightarrow> CHR '':'' \<in> set (str_join '':'' ws)"
  by (induction "'':''" ws rule: str_join.induct) auto

lemma hd_str_join:
  "ws \<noteq> [] \<Longrightarrow> \<forall>w\<in>set ws. w \<noteq> [] \<Longrightarrow> hd (str_join sep ws) = hd (hd ws) \<and> str_join sep ws \<noteq> []"
  by (induction sep ws rule: str_join.induct) auto

lemma hd_hex_nat: "hd (hex_nat n) \<noteq> CHR ''[''"
  using hex_nat_chars[of "hd (hex_nat n)" n] by simp

lemma length_ip6_groups: "length a = 16 \<Longrightarrow> length (ip6_groups a) = 8"
proof -
  have "length (ip6_groups a) = length a div 2"
    by (induction a rule: ip6_groups.induct) auto
  then show "length a = 16 \<Longrightarrow> ?thesis" by simp
qed

lemma ip6_string_colon:
  assumes "length a = 16"
  shows "CHR '':'' \<in> set (ip6_string a)"
proof -
  obtain zs ze where "zero_run (ip6_groups a) = (zs, ze)" by fastforce
  then show ?thesis
    using length_ip6_groups[OF assms] by (simp add: ip6_string_def Let_def str_join_colon)
qed

lemma ip6_string_hd:
  assumes "length a = 16"
  shows "ip6_string a \<noteq> [] \<and> hd (ip6_string a) \<noteq> CHR ''[''"
proof -
  obtain zs ze where z: "zero_run (ip6_groups a) = (zs, ze)" by fastforce
  have j: "hd (str_join '':'' (map hex_nat gs)) \<noteq> CHR ''['' \<and> str_join '':'' (map hex_nat gs) \<noteq> []"
    if "gs \<noteq> []" for gs
    using that hd_str_join[of "map hex_nat gs" "'':''"] hd_hex_nat by (cases gs) auto
  have ne: "ip6_groups a \<noteq> []"
    using length_ip6_groups[OF assms] by auto
  show ?thesis
  proof (cases "zs = 255")
    case True
    with z j[OF ne] show ?thesis by (simp add: ip6_string_def Let_def)
  next
    case False
    show ?thesis
    proof (cases "take zs (ip6_groups a) = []")
      case True
      with False z show ?thesis by (auto simp: ip6_string_def Let_def)
    next
      case nonempty: False
      with False z j[OF nonempty] show ?thesis by (simp add: ip6_string_def Let_def hd_append)
    qed
  qed
qed

lemma ip_string_v4: "length a = 4 \<Longrightarrow> ip_string a = ip4_string a"
  by (simp add: ip_string_def ip_to4_def)

end
