(* ===== verification/Ttl.thy ===== *)
theory Ttl
  imports Prelude
begin

text \<open>
  \<^verbatim>\<open>privacy/ttl.go\<close>: the TTL normalizer. A packet is rewritten in place, so the
  operations take the bytes and the normalizer and return both, beside the original TTL or
  the error. The checksum loop of the code runs on a 32-bit sum.
\<close>

section \<open>State\<close>

datatype ttl_err = PacketTooShort | NotIPPacket byte

record ttl_stats =
  packets_processed :: i64
  packets_modified :: i64
  ipv4_packets :: i64
  ipv6_packets :: i64
  original_ttls :: "nat \<rightharpoonup> i64"

record ttl_config =
  target_ttl :: byte
  ttl_enabled :: bool

record ttl_normalizer =
  ttl_cfg :: ttl_config
  ttl_st :: ttl_stats

definition default_target_ttl :: byte where
  "default_target_ttl = 64"

definition default_ttl_config :: ttl_config where
  "default_ttl_config = \<lparr>target_ttl = default_target_ttl, ttl_enabled = True\<rparr>"

definition empty_ttl_stats :: ttl_stats where
  "empty_ttl_stats = \<lparr>packets_processed = 0, packets_modified = 0, ipv4_packets = 0,
     ipv6_packets = 0, original_ttls = Map.empty\<rparr>"

definition new_ttl_normalizer :: "ttl_config \<Rightarrow> ttl_normalizer" where
  "new_ttl_normalizer c =
     \<lparr>ttl_cfg = (if target_ttl c = 0 then c\<lparr>target_ttl := default_target_ttl\<rparr> else c),
      ttl_st = empty_ttl_stats\<rparr>"

definition ttl_is_enabled :: "ttl_normalizer \<Rightarrow> bool" where
  "ttl_is_enabled n = ttl_enabled (ttl_cfg n)"

text \<open>\<^verbatim>\<open>GetStats\<close>: a copy of the counters and of the histogram.\<close>

definition ttl_get_stats :: "ttl_normalizer \<Rightarrow> ttl_stats" where
  "ttl_get_stats n = ttl_st n"

definition ttl_set_enabled :: "bool \<Rightarrow> ttl_normalizer \<Rightarrow> ttl_normalizer" where
  "ttl_set_enabled b n = n\<lparr>ttl_cfg := (ttl_cfg n)\<lparr>ttl_enabled := b\<rparr>\<rparr>"

text \<open>\<^verbatim>\<open>LoadOrStore\<close> of a zero counter, then \<^verbatim>\<open>Add(1)\<close>.\<close>

definition record_original_ttl :: "nat \<Rightarrow> ttl_stats \<Rightarrow> ttl_stats" where
  "record_original_ttl ttl s =
     (let v = (case original_ttls s ttl of None \<Rightarrow> 0 | Some c \<Rightarrow> c)
      in s\<lparr>original_ttls := (original_ttls s)(ttl \<mapsto> v + 1)\<rparr>)"

section \<open>The header checksum\<close>

text \<open>
  The one's complement sum of all 16-bit words; a trailing odd byte counts as the high byte
  of a word.
\<close>

fun checksum_add :: "bytes \<Rightarrow> 32 word \<Rightarrow> 32 word" where
  "checksum_add (h # l # rest) acc = checksum_add rest (acc + ucast (be16 h l))"
| "checksum_add [b] acc = acc + push_bit 8 (ucast b)"
| "checksum_add [] acc = acc"

lemma fold_less:
  assumes "65535 < (m::nat)"
  shows "m div 65536 + m mod 65536 < m" and "0 < m div 65536 + m mod 65536"
proof -
  have m: "m = 65536 * (m div 65536) + m mod 65536" by simp
  have q: "1 \<le> m div 65536" using assms by simp
  from m q show "m div 65536 + m mod 65536 < m" by linarith
  from q show "0 < m div 65536 + m mod 65536" by linarith
qed

lemma fold_mod: "((m::nat) div 65536 + m mod 65536) mod 65535 = m mod 65535"
proof -
  have "m = 65535 * (m div 65536) + (m div 65536 + m mod 65536)"
    using mult_div_mod_eq[of 65536 m] by linarith
  then show ?thesis by (metis mod_mult_self4)
qed

lemma fold_step_nat:
  "unat (drop_bit 16 (s :: 32 word) + (s AND 0xFFFF)) = unat s div 65536 + unat s mod 65536"
proof -
  have u: "unat s < 2 ^ 32"
    using unsigned_less[of s] by simp
  then have t: "take_bit 32 (unat s) = unat s"
    by (rule take_bit_nat_eq_self)
  have a: "unat (drop_bit 16 s) = unat s div 65536"
    by (simp only: unsigned_drop_bit_eq) (simp add: drop_bit_eq_div t)
  have b: "unat (s AND 0xFFFF) = unat s mod 65536"
  proof -
    have "s AND 0xFFFF = take_bit 16 s"
      by (simp add: take_bit_eq_mask mask_eq_exp_minus_1)
    then show ?thesis by (simp only: unsigned_take_bit_eq) (simp add: take_bit_eq_mod)
  qed
  have lt: "unat s div 65536 + unat s mod 65536 \<le> unat s"
    using mult_div_mod_eq[of 65536 "unat s"] by linarith
  with u lt a b show ?thesis by (simp add: unat_word_ariths)
qed

text \<open>\<^verbatim>\<open>for sum > 0xFFFF { sum = (sum >> 16) + (sum & 0xFFFF) }\<close>\<close>

function fold16 :: "32 word \<Rightarrow> 32 word" where
  "fold16 acc = (if acc > 0xFFFF then fold16 (drop_bit 16 acc + (acc AND 0xFFFF)) else acc)"
  by pat_completeness auto
termination
proof (relation "measure unat")
  fix s :: "32 word"
  assume "s > 0xFFFF"
  then have "unat s > 65535" by (simp add: word_less_nat_alt)
  then have "unat s div 65536 + unat s mod 65536 < unat s" by (rule fold_less)
  then show "(drop_bit 16 s + (s AND 0xFFFF), s) \<in> measure unat"
    by (simp add: fold_step_nat)
qed simp

declare fold16.simps [simp del]

definition recalc_ipv4_checksum :: "bytes \<Rightarrow> bytes" where
  "recalc_ipv4_checksum header =
     (let h0 = header[10 := 0, 11 := 0];
          acc = fold16 (checksum_add h0 0);
          checksum = NOT (ucast acc :: 16 word)
      in h0[10 := put16 checksum ! 0, 11 := put16 checksum ! 1])"

section \<open>Normalization\<close>

text \<open>\<^verbatim>\<open>ihl := int(packet[0]&0x0F) * 4\<close>, the header length in bytes.\<close>

definition ipv4_ihl :: "bytes \<Rightarrow> nat" where
  "ipv4_ihl packet = unat (packet ! 0 AND 0x0F) * 4"

text \<open>\<^verbatim>\<open>version := (packet[0] >> 4) & 0x0F\<close>.\<close>

definition ip_version :: "bytes \<Rightarrow> byte" where
  "ip_version packet = drop_bit 4 (packet ! 0) AND 0x0F"

definition normalize_ipv4 ::
  "ttl_normalizer \<Rightarrow> bytes \<Rightarrow> (ttl_err + byte) \<times> bytes \<times> ttl_normalizer" where
  "normalize_ipv4 n packet =
     (if length packet < 20 then (Inl PacketTooShort, packet, n)
      else
        let s1 = (ttl_st n)\<lparr>ipv4_packets := ipv4_packets (ttl_st n) + 1\<rparr>;
            ihl = ipv4_ihl packet
        in if ihl < 20 \<or> length packet < ihl
           then (Inl PacketTooShort, packet, n\<lparr>ttl_st := s1\<rparr>)
           else
             let original = packet ! 8;
                 s2 = record_original_ttl (unat original) s1
             in if original = target_ttl (ttl_cfg n)
                then (Inr original, packet, n\<lparr>ttl_st := s2\<rparr>)
                else
                  let p = packet[8 := target_ttl (ttl_cfg n)];
                      s3 = s2\<lparr>packets_modified := packets_modified s2 + 1\<rparr>
                  in (Inr original, recalc_ipv4_checksum (take ihl p) @ drop ihl p,
                      n\<lparr>ttl_st := s3\<rparr>))"

definition normalize_ipv6 ::
  "ttl_normalizer \<Rightarrow> bytes \<Rightarrow> (ttl_err + byte) \<times> bytes \<times> ttl_normalizer" where
  "normalize_ipv6 n packet =
     (if length packet < 40 then (Inl PacketTooShort, packet, n)
      else
        let s1 = (ttl_st n)\<lparr>ipv6_packets := ipv6_packets (ttl_st n) + 1\<rparr>;
            original = packet ! 7;
            s2 = record_original_ttl (unat original) s1
        in if original = target_ttl (ttl_cfg n)
           then (Inr original, packet, n\<lparr>ttl_st := s2\<rparr>)
           else (Inr original, packet[7 := target_ttl (ttl_cfg n)],
                 n\<lparr>ttl_st := s2\<lparr>packets_modified := packets_modified s2 + 1\<rparr>\<rparr>))"

definition normalize_packet ::
  "ttl_normalizer \<Rightarrow> bytes \<Rightarrow> (ttl_err + byte) \<times> bytes \<times> ttl_normalizer" where
  "normalize_packet n packet =
     (if \<not> ttl_enabled (ttl_cfg n) then (Inr 0, packet, n)
      else
        let n1 = n\<lparr>ttl_st := (ttl_st n)\<lparr>packets_processed := packets_processed (ttl_st n) + 1\<rparr>\<rparr>
        in if length packet < 1 then (Inl PacketTooShort, packet, n1)
           else
             let version = ip_version packet
             in if version = 4 then normalize_ipv4 n1 packet
                else if version = 6 then normalize_ipv6 n1 packet
                else (Inl (NotIPPacket version), packet, n1))"

text \<open>Several packets through one normalizer, in order.\<close>

fun normalize_all ::
  "ttl_normalizer \<Rightarrow> bytes list \<Rightarrow> (ttl_err + byte) list \<times> ttl_normalizer" where
  "normalize_all n [] = ([], n)"
| "normalize_all n (p # ps) =
     (let (r, _, n1) = normalize_packet n p; (rs, n2) = normalize_all n1 ps
      in (r # rs, n2))"

definition detect_os :: "byte \<Rightarrow> string" where
  "detect_os ttl =
     (if ttl \<le> 64 \<and> ttl > 32 then ''Linux/macOS/iOS/Android''
      else if ttl \<le> 128 \<and> ttl > 64 then ''Windows''
      else if ttl \<le> 255 \<and> ttl > 128 then ''Solaris/Network Equipment''
      else ''Unknown'')"

section \<open>The checksum verifies\<close>

text \<open>
  The receiver's check (RFC 791): the folded one's complement sum over the whole header,
  checksum field included, is \<open>0xFFFF\<close>.
\<close>

definition checksum_valid :: "bytes \<Rightarrow> bool" where
  "checksum_valid header \<longleftrightarrow> fold16 (checksum_add header 0) = 0xFFFF"

fun pair_sum :: "bytes \<Rightarrow> nat" where
  "pair_sum (h # l # rest) = 256 * unat h + unat l + pair_sum rest"
| "pair_sum [b] = 256 * unat b"
| "pair_sum [] = 0"

lemma pair_sum_bound: "pair_sum bs \<le> 65535 * (length bs + 1)"
proof (induction bs rule: pair_sum.induct)
  case (1 h l rest)
  then show ?case using unat_byte[of h] unat_byte[of l] by simp
next
  case (2 b)
  then show ?case using unat_byte[of b] by simp
qed simp

lemma pair_sum_append: "even (length xs) \<Longrightarrow> pair_sum (xs @ ys) = pair_sum xs + pair_sum ys"
  by (induction xs rule: pair_sum.induct) auto

lemma unat_checksum_add:
  "unat s + pair_sum bs < 2 ^ 32 \<Longrightarrow> unat (checksum_add bs s) = unat s + pair_sum bs"
proof (induction bs s rule: checksum_add.induct)
  case (1 h l rest acc)
  have w: "unat (ucast (be16 h l) :: 32 word) = 256 * unat h + unat l"
    using unat_byte[of h] unat_byte[of l]
    by (simp add: unsigned_ucast_eq unat_be16 take_bit_nat_eq_self)
  have "unat (acc + ucast (be16 h l)) = unat acc + (256 * unat h + unat l)"
    using 1 w by (simp add: unat_word_ariths)
  with 1 show ?case by simp
next
  case (2 b acc)
  have w: "unat (push_bit 8 (ucast b) :: 32 word) = 256 * unat b"
    using unat_byte[of b]
    by (simp only: unsigned_push_bit_eq unsigned_ucast_eq)
      (simp add: take_bit_eq_mod push_bit_eq_mult)
  with 2 show ?case by (simp add: unat_word_ariths)
qed simp

lemma fold16_nat:
  "unat (fold16 s) \<le> 65535 \<and> unat (fold16 s) mod 65535 = unat s mod 65535 \<and>
   (fold16 s = 0 \<longleftrightarrow> s = 0)"
proof (induction s rule: fold16.induct)
  case (1 s)
  show ?case
  proof (cases "s > 0xFFFF")
    case True
    let ?t = "drop_bit 16 s + (s AND 0xFFFF)"
    have s: "unat s > 65535"
      using True by (simp add: word_less_nat_alt)
    have "unat ?t mod 65535 = unat s mod 65535"
      by (simp only: fold_step_nat fold_mod)
    moreover have "?t \<noteq> 0"
      using fold_less(2)[OF s] fold_step_nat[of s] by force
    moreover have "s \<noteq> 0"
      using s by auto
    moreover have "fold16 s = fold16 ?t"
      using True by (simp add: fold16.simps[of s])
    ultimately show ?thesis
      using 1[OF True] by simp
  next
    case False
    then have "fold16 s = s" by (simp add: fold16.simps)
    moreover have "unat s \<le> 65535"
      using False by (simp add: word_less_nat_alt)
    ultimately show ?thesis by simp
  qed
qed

lemma unat_complement16: "unat (NOT (w :: 16 word)) = 65535 - unat w"
proof -
  have "NOT w = - 1 - w"
    by (simp add: not_eq_complement)
  moreover have "w \<le> - 1"
    by (rule word_order.extremum)
  ultimately show ?thesis
    by (simp add: unat_sub unsigned_minus_1_eq_mask mask_eq_exp_minus_1)
qed

lemma update_checksum_field:
  "12 \<le> length h \<Longrightarrow> h[10 := a, 11 := b] = take 10 h @ [a, b] @ drop 12 h"
  using list_update_two[of 10 h a b] by simp

text \<open>
  Whatever the bytes of the header, a recalculated header of even length verifies; the
  sum cannot overflow its 32 bits on headers of up to 65534 bytes (an IPv4 header has at
  most 60).
\<close>

lemma recalc_ipv4_checksum_valid:
  assumes even: "even (length h)" and len: "12 \<le> length h" "length h \<le> 65534"
  shows "checksum_valid (recalc_ipv4_checksum h)"
proof -
  let ?a = "take 10 h" and ?d = "drop 12 h"
  let ?z = "?a @ [0, 0] @ ?d"
  let ?f = "fold16 (checksum_add ?z 0)"
  define c where "c = NOT (ucast ?f :: 16 word)"
  have r: "recalc_ipv4_checksum h = ?a @ put16 c @ ?d"
    using len by (simp add: recalc_ipv4_checksum_def Let_def update_checksum_field c_def put16_def)
  have ea: "even (length ?a)" using len by simp
  have lz: "length ?z = length h" using len by simp
  have bz: "pair_sum ?z + 65535 < 2 ^ 32"
    using pair_sum_bound[of ?z] len unfolding lz by simp
  have sz: "unat (checksum_add ?z 0) = pair_sum ?z"
    using bz by (simp add: unat_checksum_add)
  have f: "unat ?f \<le> 65535" "unat ?f mod 65535 = pair_sum ?z mod 65535"
    "?f = 0 \<longleftrightarrow> pair_sum ?z = 0"
    using fold16_nat[of "checksum_add ?z 0"] sz by (auto simp: unat_eq_0[symmetric])
  have uc: "unat c = 65535 - unat ?f"
    using f(1) by (simp add: c_def unat_complement16 unsigned_ucast_eq take_bit_nat_eq_self)
  have total: "pair_sum (recalc_ipv4_checksum h) = pair_sum ?z + unat c"
    using ea unat_be16[of "ucast (drop_bit 8 c)" "ucast c"]
    by (simp add: r pair_sum_append put16_def codec_simps)
  have sr: "unat (checksum_add (recalc_ipv4_checksum h) 0) = pair_sum ?z + (65535 - unat ?f)"
    using bz total uc by (simp add: unat_checksum_add)
  have m: "(pair_sum ?z + (65535 - unat ?f)) mod 65535 = 0"
  proof -
    have "(pair_sum ?z + (65535 - unat ?f)) mod 65535 = (unat ?f + (65535 - unat ?f)) mod 65535"
      by (rule mod_add_cong[OF f(2)[symmetric] refl])
    with f(1) show ?thesis by simp
  qed
  have nz: "checksum_add (recalc_ipv4_checksum h) 0 \<noteq> 0"
  proof
    assume "checksum_add (recalc_ipv4_checksum h) 0 = 0"
    then have "pair_sum ?z = 0" "unat ?f = 65535"
      using sr f(1) by auto
    with f(3) show False by simp
  qed
  let ?g = "fold16 (checksum_add (recalc_ipv4_checksum h) 0)"
  have g: "unat ?g \<le> 65535" "unat ?g mod 65535 = 0" "?g \<noteq> 0"
    using fold16_nat[of "checksum_add (recalc_ipv4_checksum h) 0"] sr m nz by auto
  then have "65535 dvd unat ?g" "0 < unat ?g"
    by (auto simp: unat_gt_0)
  with g(1) have "unat ?g = 65535"
    using dvd_imp_le by force
  then have "?g = 0xFFFF"
    by (simp add: word_unat_eq_iff)
  then show ?thesis by (simp add: checksum_valid_def)
qed

section \<open>What normalization does\<close>

lemma ipv4_ihl_bounds: "even (ipv4_ihl p)" "ipv4_ihl p \<le> 60"
proof -
  have "unat (p ! 0 AND 0x0F) \<le> unat (0x0F :: byte)"
    by (rule word_and_le1 [THEN word_le_nat_alt [THEN iffD1]])
  then show "even (ipv4_ihl p)" "ipv4_ihl p \<le> 60"
    by (simp_all add: ipv4_ihl_def)
qed

lemma length_recalc [simp]: "length (recalc_ipv4_checksum h) = length h"
  by (simp add: recalc_ipv4_checksum_def Let_def)

lemma nth_recalc: "i \<notin> {10, 11} \<Longrightarrow> recalc_ipv4_checksum h ! i = h ! i"
  by (auto simp: recalc_ipv4_checksum_def Let_def)

lemma normalize_ipv4_Inr:
  assumes "normalize_ipv4 n p = (Inr t, p', n')"
  shows "20 \<le> ipv4_ihl p \<and> ipv4_ihl p \<le> length p \<and> t = p ! 8 \<and>
    (if t = target_ttl (ttl_cfg n) then p' = p
     else p' = recalc_ipv4_checksum (take (ipv4_ihl p) (p[8 := target_ttl (ttl_cfg n)]))
               @ drop (ipv4_ihl p) p)"
  using assms by (auto simp: normalize_ipv4_def Let_def split: if_splits)

lemma normalize_ipv4_cfg: "normalize_ipv4 n p = (r, p', n') \<Longrightarrow> ttl_cfg n' = ttl_cfg n"
  by (auto simp: normalize_ipv4_def Let_def split: if_splits)

lemma normalize_ipv6_cfg: "normalize_ipv6 n p = (r, p', n') \<Longrightarrow> ttl_cfg n' = ttl_cfg n"
  by (auto simp: normalize_ipv6_def Let_def split: if_splits)

lemma normalize_packet_cfg: "normalize_packet n p = (r, p', n') \<Longrightarrow> ttl_cfg n' = ttl_cfg n"
  by (auto simp: normalize_packet_def Let_def dest: normalize_ipv4_cfg normalize_ipv6_cfg split: if_splits)

lemma normalize_ipv4_effect:
  assumes "normalize_ipv4 n p = (Inr t, p', n')"
  shows "length p' = length p \<and> p' ! 8 = target_ttl (ttl_cfg n) \<and>
    (\<forall>i. i \<notin> {8, 10, 11} \<longrightarrow> p' ! i = p ! i) \<and>
    (t \<noteq> target_ttl (ttl_cfg n) \<longrightarrow> checksum_valid (take (ipv4_ihl p) p'))"
proof (cases "t = target_ttl (ttl_cfg n)")
  case True
  with normalize_ipv4_Inr[OF assms] show ?thesis by auto
next
  case False
  let ?k = "ipv4_ihl p"
  let ?q = "take ?k (p[8 := target_ttl (ttl_cfg n)])"
  have k: "20 \<le> ?k" "?k \<le> length p" and p': "p' = recalc_ipv4_checksum ?q @ drop ?k p"
    using normalize_ipv4_Inr[OF assms] False by auto
  have len: "length ?q = ?k" using k by simp
  have "p' ! i = p ! i" if "i \<notin> {8, 10, 11}" for i
  proof (cases "i < ?k")
    case True
    with that len show ?thesis by (simp add: p' nth_append nth_recalc)
  next
    case False
    with len k show ?thesis by (simp add: p' nth_append)
  qed
  moreover have "p' ! 8 = target_ttl (ttl_cfg n)"
    using k len by (simp add: p' nth_append nth_recalc)
  moreover have "checksum_valid (take ?k p')"
    using recalc_ipv4_checksum_valid[of ?q] ipv4_ihl_bounds[of p] k len by (simp add: p')
  ultimately show ?thesis using k len by (simp add: p')
qed

lemma normalize_ipv6_effect:
  assumes "normalize_ipv6 n p = (Inr t, p', n')"
  shows "40 \<le> length p \<and> t = p ! 7 \<and> p' = p[7 := target_ttl (ttl_cfg n)]"
  using assms by (auto simp: normalize_ipv6_def Let_def split: if_splits)

text \<open>
  C9. What a successful normalization of an IPv4 packet does to its bytes. With the
  normalizer enabled, if \<open>NormalizePacket\<close> returns the original TTL of a version 4 packet,
  then that is byte 8 of the packet, the length is unchanged, byte 8 is now the target, no
  byte other than the TTL and the two checksum bytes has changed, a packet whose TTL was the
  target already is untouched, and otherwise the header checksum verifies (the folded one's
  complement sum of the header is 0xFFFF).
\<close>

theorem normalize_ipv4_correct:
  assumes "ttl_enabled (ttl_cfg n)" and "ip_version p = 4"
    and "normalize_packet n p = (Inr t, p', n')"
  shows "t = p ! 8 \<and> length p' = length p \<and> p' ! 8 = target_ttl (ttl_cfg n) \<and>
    (\<forall>i. i \<notin> {8, 10, 11} \<longrightarrow> p' ! i = p ! i) \<and>
    (t = target_ttl (ttl_cfg n) \<longrightarrow> p' = p) \<and>
    (t \<noteq> target_ttl (ttl_cfg n) \<longrightarrow> checksum_valid (take (ipv4_ihl p) p'))"
proof -
  let ?n1 = "n\<lparr>ttl_st := (ttl_st n)\<lparr>packets_processed := packets_processed (ttl_st n) + 1\<rparr>\<rparr>"
  have "normalize_ipv4 ?n1 p = (Inr t, p', n')"
    using assms by (auto simp: normalize_packet_def Let_def split: if_splits)
  from normalize_ipv4_Inr[OF this] normalize_ipv4_effect[OF this] show ?thesis
    by (auto split: if_splits)
qed

definition example_ipv4 :: bytes where
  "example_ipv4 = [0x45, 0, 0, 20, 0, 0, 0, 0, 128, 6, 0xB0, 0x27,
     192, 168, 1, 1, 8, 8, 8, 8]"

theorem normalize_ipv4_correct_witness:
  "checksum_valid (take 20 (fst (snd (normalize_packet (new_ttl_normalizer default_ttl_config) example_ipv4))))"
proof -
  let ?n = "new_ttl_normalizer default_ttl_config"
  have e: "ttl_enabled (ttl_cfg ?n)" "target_ttl (ttl_cfg ?n) = 64"
    by (simp_all add: new_ttl_normalizer_def default_ttl_config_def default_target_ttl_def)
  have v: "ip_version example_ipv4 = 4" "ipv4_ihl example_ipv4 = 20"
    by (simp_all add: ip_version_def ipv4_ihl_def example_ipv4_def)
  obtain p' n' where r: "normalize_packet ?n example_ipv4 = (Inr 128, p', n')"
    using e v by (simp add: normalize_packet_def normalize_ipv4_def Let_def example_ipv4_def)
  from normalize_ipv4_correct [OF e(1) v(1) r] e v r show ?thesis by simp
qed

text \<open>The first byte, hence the version and the header length, survives.\<close>

lemma normalize_ipv4_again:
  assumes "normalize_ipv4 n p = (Inr t, p', n')"
  shows "ip_version p' = ip_version p \<and> ipv4_ihl p' = ipv4_ihl p"
  using normalize_ipv4_effect[OF assms] by (simp add: ip_version_def ipv4_ihl_def)

lemma normalize_ipv4_at_target:
  "20 \<le> ipv4_ihl p \<Longrightarrow> ipv4_ihl p \<le> length p \<Longrightarrow> p ! 8 = target_ttl (ttl_cfg n) \<Longrightarrow>
   \<exists>n'. normalize_ipv4 n p = (Inr (target_ttl (ttl_cfg n)), p, n')"
  by (simp add: normalize_ipv4_def Let_def)

lemma normalize_ipv6_at_target:
  "40 \<le> length p \<Longrightarrow> p ! 7 = target_ttl (ttl_cfg n) \<Longrightarrow>
   \<exists>n'. normalize_ipv6 n p = (Inr (target_ttl (ttl_cfg n)), p, n')"
  by (simp add: normalize_ipv6_def Let_def)

lemma normalize_packet_cases:
  assumes "ttl_enabled (ttl_cfg n)" and "normalize_packet n p = (Inr t, p', n')"
  obtains (v4) m where "ip_version p = 4" "ttl_cfg m = ttl_cfg n" "normalize_ipv4 m p = (Inr t, p', n')"
  | (v6) m where "ip_version p = 6" "ttl_cfg m = ttl_cfg n" "normalize_ipv6 m p = (Inr t, p', n')"
proof -
  let ?m = "n\<lparr>ttl_st := (ttl_st n)\<lparr>packets_processed := packets_processed (ttl_st n) + 1\<rparr>\<rparr>"
  have cfg: "ttl_cfg ?m = ttl_cfg n"
    by simp
  consider "ip_version p = 4 \<and> normalize_ipv4 ?m p = (Inr t, p', n')"
    | "ip_version p = 6 \<and> normalize_ipv6 ?m p = (Inr t, p', n')"
    using assms by (auto simp: normalize_packet_def Let_def split: if_splits)
  then show thesis
    using v4[of ?m] v6[of ?m] cfg by cases blast+
qed

text \<open>
  Normalization is idempotent. Whatever packet (IPv4 or IPv6) an enabled normalizer has
  accepted, running it again on the result returns the target TTL as the original one and
  leaves every byte alone.
\<close>

theorem normalize_idempotent:
  assumes "ttl_enabled (ttl_cfg n)" and "normalize_packet n p = (Inr t, p', n')"
  shows "\<exists>n''. normalize_packet n' p' = (Inr (target_ttl (ttl_cfg n)), p', n'')"
proof -
  have cfg: "ttl_cfg n' = ttl_cfg n"
    using assms(2) by (rule normalize_packet_cfg)
  let ?n1 = "n'\<lparr>ttl_st := (ttl_st n')\<lparr>packets_processed := packets_processed (ttl_st n') + 1\<rparr>\<rparr>"
  from assms show ?thesis
  proof (cases rule: normalize_packet_cases)
    case (v4 m)
    have k: "20 \<le> ipv4_ihl p'" "ipv4_ihl p' \<le> length p'" "ip_version p' = 4"
      using normalize_ipv4_Inr[OF v4(3)] normalize_ipv4_effect[OF v4(3)]
        normalize_ipv4_again[OF v4(3)] v4(1) by (simp_all del: if_split)
    have "p' ! 8 = target_ttl (ttl_cfg ?n1)"
      using normalize_ipv4_effect[OF v4(3)] v4(2) cfg by simp
    from normalize_ipv4_at_target[OF k(1,2) this]
    have "\<exists>n''. normalize_ipv4 ?n1 p' = (Inr (target_ttl (ttl_cfg ?n1)), p', n'')" .
    moreover have "ip_version p' = 4" "p' \<noteq> []"
      using k by auto
    ultimately show ?thesis
      using assms(1) cfg by (auto simp: normalize_packet_def Let_def)
  next
    case (v6 m)
    note e = normalize_ipv6_effect[OF v6(3)]
    have "\<exists>n''. normalize_ipv6 ?n1 p' = (Inr (target_ttl (ttl_cfg ?n1)), p', n'')"
      using e v6(2) cfg by (intro normalize_ipv6_at_target) auto
    moreover have "ip_version p' = 6" "p' \<noteq> []"
      using e v6(1) by (auto simp: ip_version_def)
    ultimately show ?thesis
      using assms(1) cfg by (auto simp: normalize_packet_def Let_def)
  qed
qed

theorem normalize_idempotent_witness:
  "\<exists>n' p' n''. normalize_packet n' p' = (Inr 64, p', n'') \<and> p' ! 8 = 64 \<and> length p' = 20"
proof -
  let ?n = "new_ttl_normalizer default_ttl_config"
  have e: "ttl_enabled (ttl_cfg ?n)" "target_ttl (ttl_cfg ?n) = 64"
    by (simp_all add: new_ttl_normalizer_def default_ttl_config_def default_target_ttl_def)
  have v: "ip_version example_ipv4 = 4" "ipv4_ihl example_ipv4 = 20" "length example_ipv4 = 20"
    by (simp_all add: ip_version_def ipv4_ihl_def example_ipv4_def)
  obtain p' n' where r: "normalize_packet ?n example_ipv4 = (Inr 128, p', n')"
    using e v by (simp add: normalize_packet_def normalize_ipv4_def Let_def example_ipv4_def)
  from e r have "p' ! 8 = 64 \<and> length p' = 20"
    using normalize_ipv4_effect v by (elim normalize_packet_cases) auto
  with normalize_idempotent [OF e(1) r] e(2) show ?thesis by auto
qed

text \<open>
  Failing closed. A disabled normalizer returns \<open>(0, nil)\<close> and touches neither the packet
  nor its statistics. An enabled one reports an error exactly on the packets that are empty,
  whose version is neither 4 nor 6, whose version is 4 and that are shorter than 20 bytes, or
  than the header length they announce, or announce less than 20, and whose version is 6 and
  that are shorter than 40 bytes; and then every byte of the packet is as it was.
\<close>

theorem normalize_error_iff:
  "(\<not> ttl_enabled (ttl_cfg n) \<longrightarrow> normalize_packet n p = (Inr 0, p, n)) \<and>
   (ttl_enabled (ttl_cfg n) \<longrightarrow>
     ((\<exists>e. fst (normalize_packet n p) = Inl e) \<longleftrightarrow>
        p = [] \<or> ip_version p \<notin> {4, 6} \<or>
        (ip_version p = 4 \<and> (length p < 20 \<or> ipv4_ihl p < 20 \<or> length p < ipv4_ihl p)) \<or>
        (ip_version p = 6 \<and> length p < 40))) \<and>
   (\<forall>e p' n'. normalize_packet n p = (Inl e, p', n') \<longrightarrow> p' = p)"
proof (intro conjI impI allI)
  show "normalize_packet n p = (Inr 0, p, n)" if "\<not> ttl_enabled (ttl_cfg n)"
    using that by (simp add: normalize_packet_def)
  show "(\<exists>e. fst (normalize_packet n p) = Inl e) \<longleftrightarrow>
        p = [] \<or> ip_version p \<notin> {4, 6} \<or>
        (ip_version p = 4 \<and> (length p < 20 \<or> ipv4_ihl p < 20 \<or> length p < ipv4_ihl p)) \<or>
        (ip_version p = 6 \<and> length p < 40)" if "ttl_enabled (ttl_cfg n)"
    using that
    by (cases "p = []"; cases "ip_version p = 4"; cases "ip_version p = 6")
      (auto simp: normalize_packet_def normalize_ipv4_def normalize_ipv6_def Let_def not_less)
  show "p' = p" if "normalize_packet n p = (Inl e, p', n')" for e p' n'
    using that
    by (auto simp: normalize_packet_def normalize_ipv4_def normalize_ipv6_def Let_def split: if_splits)
qed

theorem normalize_error_iff_witness:
  "\<exists>e. fst (normalize_packet (new_ttl_normalizer default_ttl_config) [0x30, 0]) = Inl e"
proof -
  have "ttl_enabled (ttl_cfg (new_ttl_normalizer default_ttl_config))"
    by (simp add: new_ttl_normalizer_def default_ttl_config_def)
  moreover have "ip_version [0x30, 0] = 3"
    by (simp add: ip_version_def)
  ultimately show ?thesis
    using normalize_error_iff [of "new_ttl_normalizer default_ttl_config" "[0x30, 0]"] by simp
qed

section \<open>Statistics\<close>

definition ttl_count :: "ttl_normalizer \<Rightarrow> byte \<Rightarrow> i64" where
  "ttl_count n t = (case original_ttls (ttl_st n) (unat t) of None \<Rightarrow> 0 | Some c \<Rightarrow> c)"

definition changed :: "byte \<Rightarrow> ttl_err + byte \<Rightarrow> bool" where
  "changed target r = (case r of Inl _ \<Rightarrow> False | Inr t \<Rightarrow> t \<noteq> target)"

lemma normalize_packet_stats:
  assumes "ttl_enabled (ttl_cfg n)" and "normalize_packet n p = (r, p', n')"
  shows "packets_processed (ttl_st n') = packets_processed (ttl_st n) + 1 \<and>
    packets_modified (ttl_st n') = packets_modified (ttl_st n)
      + (if changed (target_ttl (ttl_cfg n)) r then 1 else 0) \<and>
    ttl_count n' t = ttl_count n t + (if r = Inr t then 1 else 0)"
  using assms
  by (auto simp: normalize_packet_def normalize_ipv4_def normalize_ipv6_def Let_def
      ttl_count_def changed_def record_original_ttl_def word_unat_eq_iff[symmetric] split: if_splits)

lemma normalize_all_stats:
  assumes "ttl_enabled (ttl_cfg n)" and "normalize_all n ps = (rs, n')"
  shows "length rs = length ps \<and>
    packets_processed (ttl_st n') = packets_processed (ttl_st n) + of_nat (length ps) \<and>
    packets_modified (ttl_st n') = packets_modified (ttl_st n)
      + of_nat (length (filter (changed (target_ttl (ttl_cfg n))) rs)) \<and>
    ttl_count n' t = ttl_count n t + of_nat (count_list rs (Inr t))"
  using assms
proof (induction ps arbitrary: n rs)
  case Nil
  then show ?case by simp
next
  case (Cons p ps)
  obtain r p1 n1 where 1: "normalize_packet n p = (r, p1, n1)"
    by (cases "normalize_packet n p") auto
  obtain rs' where 2: "normalize_all n1 ps = (rs', n')" and rs: "rs = r # rs'"
    using Cons.prems(2) 1 by (auto split: prod.splits)
  have cfg: "ttl_cfg n1 = ttl_cfg n"
    using 1 by (rule normalize_packet_cfg)
  then have "ttl_enabled (ttl_cfg n1)"
    using Cons.prems(1) by simp
  from Cons.IH[OF this 2] normalize_packet_stats[OF Cons.prems(1) 1, of t] cfg show ?case
    by (simp add: rs)
qed

text \<open>
  The statistics count what happened. After any sequence of packets through a fresh,
  enabled normalizer, \<open>PacketsProcessed\<close> is the number of packets, \<open>PacketsModified\<close> the number
  of those accepted with an original TTL other than the target, and the histogram holds for
  each TTL how often it was returned as the original one (all modulo 2^64).
\<close>

theorem normalize_stats_exact:
  assumes "ttl_enabled cfg" and "normalize_all (new_ttl_normalizer cfg) ps = (rs, n')"
  shows "packets_processed (ttl_st n') = of_nat (length ps) \<and>
    packets_modified (ttl_st n')
      = of_nat (length (filter (changed (target_ttl (ttl_cfg n'))) rs)) \<and>
    ttl_count n' t = of_nat (count_list rs (Inr t))"
proof -
  let ?n = "new_ttl_normalizer cfg"
  have e: "ttl_enabled (ttl_cfg ?n)"
    using assms(1) by (simp add: new_ttl_normalizer_def)
  have z: "packets_processed (ttl_st ?n) = 0" "packets_modified (ttl_st ?n) = 0" "ttl_count ?n t = 0"
    by (simp_all add: new_ttl_normalizer_def empty_ttl_stats_def ttl_count_def)
  have cfg: "ttl_cfg n'' = ttl_cfg m" if "normalize_all m qs = (r, n'')" for m qs r n''
    using that
    by (induction qs arbitrary: m r) (auto split: prod.splits dest: normalize_packet_cfg)
  show ?thesis
    using normalize_all_stats[OF e assms(2), of t] z cfg[OF assms(2)] by simp
qed

theorem normalize_stats_exact_witness:
  "ttl_count (snd (normalize_all (new_ttl_normalizer default_ttl_config) [example_ipv4, [0x30]])) 128
    = of_nat (count_list (fst (normalize_all (new_ttl_normalizer default_ttl_config)
        [example_ipv4, [0x30]])) (Inr 128))"
proof -
  have "ttl_enabled default_ttl_config"
    by (simp add: default_ttl_config_def)
  from normalize_stats_exact [OF this surjective_pairing, of "[example_ipv4, [0x30]]" 128]
  show ?thesis by simp
qed

section \<open>As an engine\<close>

interpretation ttl_engine: engine ttl_set_enabled ttl_is_enabled
  "\<lambda>n p. let (r, p', n') = normalize_packet n p in (p', n')"
  by unfold_locales (simp_all add: ttl_set_enabled_def ttl_is_enabled_def normalize_packet_def)

end
