(* ===== verification/Fragment.thy ===== *)
theory Fragment
  imports Prelude
begin

text \<open>
  \<^verbatim>\<open>privacy/fragment.go\<close>: splitting a payload into fragments of a fixed or random size, or
  into smaller TLS records, and the writer that does so before it forwards.

  Randomness comes from an entropy source, a function from the number of the draw to the
  value drawn (\<open>None\<close> when the reader fails); \<^verbatim>\<open>rand.Int\<close> returns some number below its
  bound, which is the value modulo the bound. Every result below is for every source.
\<close>

section \<open>State\<close>

datatype strategy = StrategyFixed | StrategyRandom | StrategyTLSSplit | StrategyOther int

datatype frag_err = FragmentTooSmall int int | EmptyPayload

record fragment_stats =
  packets_fragmented :: i64
  fragments_created :: i64
  tls_records_split :: i64
  bytes_processed :: i64

record fragmenter_config =
  frag_strategy :: strategy
  max_fragment_len :: int
  min_fragment_len :: int
  frag_enabled :: bool

record fragmenter =
  frag_cfg :: fragmenter_config
  frag_st :: fragment_stats

definition default_fragmenter_config :: fragmenter_config where
  "default_fragmenter_config = \<lparr>frag_strategy = StrategyRandom, max_fragment_len = 512,
     min_fragment_len = 64, frag_enabled = True\<rparr>"

definition empty_fragment_stats :: fragment_stats where
  "empty_fragment_stats = \<lparr>packets_fragmented = 0, fragments_created = 0,
     tls_records_split = 0, bytes_processed = 0\<rparr>"

definition new_fragmenter :: "fragmenter_config \<Rightarrow> frag_err + fragmenter" where
  "new_fragmenter cfg =
     (if max_fragment_len cfg < 64 then Inl (FragmentTooSmall (max_fragment_len cfg) 64)
      else
        let c1 = (if min_fragment_len cfg \<le> 0 then cfg\<lparr>min_fragment_len := 64\<rparr> else cfg);
            c2 = (if min_fragment_len c1 > max_fragment_len c1
                  then c1\<lparr>min_fragment_len := max_fragment_len c1\<rparr> else c1)
        in Inr \<lparr>frag_cfg = c2, frag_st = empty_fragment_stats\<rparr>)"

definition frag_get_stats :: "fragmenter \<Rightarrow> fragment_stats" where
  "frag_get_stats f = frag_st f"

definition frag_is_enabled :: "fragmenter \<Rightarrow> bool" where
  "frag_is_enabled f = frag_enabled (frag_cfg f)"

definition frag_set_enabled :: "bool \<Rightarrow> fragmenter \<Rightarrow> fragmenter" where
  "frag_set_enabled b f = f\<lparr>frag_cfg := (frag_cfg f)\<lparr>frag_enabled := b\<rparr>\<rparr>"

section \<open>Random sizes\<close>

type_synonym entropy = "nat \<Rightarrow> nat option"

text \<open>
  \<^verbatim>\<open>randomIntRange(min, max)\<close>: the value, \<open>None\<close> when the random source failed, and the
  number of the next draw.
\<close>

definition random_int_range :: "entropy \<Rightarrow> nat \<Rightarrow> int \<Rightarrow> int \<Rightarrow> int option \<times> nat" where
  "random_int_range ent k lo hi =
     (if lo \<ge> hi then (Some lo, k)
      else case ent k of
             None \<Rightarrow> (None, Suc k)
           | Some v \<Rightarrow> (Some (lo + int v mod (hi - lo + 1)), Suc k))"

lemma random_int_range_bounds:
  assumes "lo \<le> hi" and "random_int_range ent k lo hi = (Some x, k')"
  shows "lo \<le> x \<and> x \<le> hi"
proof (cases "lo \<ge> hi")
  case True
  with assms show ?thesis by (simp add: random_int_range_def)
next
  case False
  with assms(2) obtain v where x: "x = lo + int v mod (hi - lo + 1)"
    by (auto simp: random_int_range_def split: option.splits)
  have "0 \<le> int v mod (hi - lo + 1)" "int v mod (hi - lo + 1) < hi - lo + 1"
    using False pos_mod_bound[of "hi - lo + 1"] by simp_all
  with x show ?thesis by simp
qed

section \<open>The loops\<close>

text \<open>
  The argument \<open>rest\<close> is \<^verbatim>\<open>payload[offset:]\<close>; the clamp of \<^verbatim>\<open>end\<close> to the length of the
  payload is what \<open>take\<close> does. A size of zero or less would make the code panic or spin; the
  loops stop there, and \<open>frag_wf\<close> below shows that no constructed fragmenter gets there.
\<close>

function fixed_loop :: "int \<Rightarrow> bytes \<Rightarrow> bytes list" where
  "fixed_loop sz rest =
     (if rest = [] \<or> sz \<le> 0 then []
      else take (nat sz) rest # fixed_loop sz (drop (nat sz) rest))"
  by pat_completeness auto
termination
  by (relation "measure (\<lambda>(sz, rest). length rest)") auto

declare fixed_loop.simps [simp del]

function random_loop :: "entropy \<Rightarrow> nat \<Rightarrow> int \<Rightarrow> int \<Rightarrow> bytes \<Rightarrow> bytes list \<times> nat" where
  "random_loop ent k lo hi rest =
     (if rest = [] then ([], k)
      else
        let (r, k1) = random_int_range ent k lo hi;
            sz = (case r of None \<Rightarrow> hi | Some x \<Rightarrow> x)
        in if sz \<le> 0 then ([], k1)
           else
             let (fs, k2) = random_loop ent k1 lo hi (drop (nat sz) rest)
             in (take (nat sz) rest # fs, k2))"
  by pat_completeness auto
termination
  by (relation "measure (\<lambda>(ent, k, lo, hi, rest). length rest)") auto

declare random_loop.simps [simp del]

text \<open>One TLS record: type, the two version bytes, the length of the body, the body.\<close>

definition tls_record :: "byte \<Rightarrow> byte \<Rightarrow> byte \<Rightarrow> bytes \<Rightarrow> bytes" where
  "tls_record ct v0 v1 body =
     [ct, v0, v1, of_nat (length body div 256), of_nat (length body mod 256)] @ body"

function tls_loop ::
  "entropy \<Rightarrow> nat \<Rightarrow> int \<Rightarrow> byte \<Rightarrow> byte \<Rightarrow> byte \<Rightarrow> bytes \<Rightarrow> bytes list \<times> nat" where
  "tls_loop ent k maxp ct v0 v1 rest =
     (if rest = [] then ([], k)
      else
        let (r, k1) = random_int_range ent k 1 maxp;
            sz = (case r of None \<Rightarrow> maxp | Some x \<Rightarrow> x)
        in if sz \<le> 0 then ([], k1)
           else
             let (fs, k2) = tls_loop ent k1 maxp ct v0 v1 (drop (nat sz) rest)
             in (tls_record ct v0 v1 (take (nat sz) rest) # fs, k2))"
  by pat_completeness auto
termination
  by (relation "measure (\<lambda>(ent, k, maxp, ct, v0, v1, rest). length rest)") auto

declare tls_loop.simps [simp del]

section \<open>Fragment\<close>

definition count_fragments :: "nat \<Rightarrow> fragmenter \<Rightarrow> fragmenter" where
  "count_fragments c f =
     f\<lparr>frag_st := (frag_st f)\<lparr>packets_fragmented := packets_fragmented (frag_st f) + 1,
        fragments_created := fragments_created (frag_st f) + of_nat c\<rparr>\<rparr>"

definition fragment_fixed :: "fragmenter \<Rightarrow> bytes \<Rightarrow> bytes list \<times> fragmenter" where
  "fragment_fixed f payload =
     (let fs = fixed_loop (max_fragment_len (frag_cfg f)) payload
      in (fs, count_fragments (length fs) f))"

definition fragment_random ::
  "entropy \<Rightarrow> nat \<Rightarrow> fragmenter \<Rightarrow> bytes \<Rightarrow> bytes list \<times> nat \<times> fragmenter" where
  "fragment_random ent k f payload =
     (let (fs, k') = random_loop ent k (min_fragment_len (frag_cfg f))
                       (max_fragment_len (frag_cfg f)) payload
      in (fs, k', count_fragments (length fs) f))"

definition fragment_tls_record ::
  "entropy \<Rightarrow> nat \<Rightarrow> fragmenter \<Rightarrow> bytes \<Rightarrow> bytes list \<times> nat \<times> fragmenter" where
  "fragment_tls_record ent k f payload =
     (if length payload < 5 then fragment_random ent k f payload
      else
        let ct = payload ! 0
        in if ct \<noteq> 0x16 \<and> ct \<noteq> 0x17 then fragment_random ent k f payload
           else
             let record_len = unat (be16 (payload ! 3) (payload ! 4))
             in if length payload < 5 + record_len then fragment_random ent k f payload
                else
                  let body = take record_len (drop 5 payload);
                      maxp = max 1 (max_fragment_len (frag_cfg f) - 5);
                      (recs, k1) = tls_loop ent k maxp ct (payload ! 1) (payload ! 2) body;
                      remaining = drop (5 + record_len) payload;
                      (extra, k2, f2) = (if remaining = [] then ([], k1, f)
                                         else fragment_random ent k1 f remaining);
                      frags = recs @ extra;
                      f3 = count_fragments (length frags) f2
                  in (frags, k2,
                      f3\<lparr>frag_st := (frag_st f3)\<lparr>tls_records_split := tls_records_split (frag_st f3) + 1\<rparr>\<rparr>))"

definition fragment ::
  "entropy \<Rightarrow> nat \<Rightarrow> fragmenter \<Rightarrow> bytes \<Rightarrow> (frag_err + bytes list) \<times> nat \<times> fragmenter" where
  "fragment ent k f payload =
     (if \<not> frag_enabled (frag_cfg f) then (Inr [payload], k, f)
      else if payload = [] then (Inl EmptyPayload, k, f)
      else
        let f1 = f\<lparr>frag_st := (frag_st f)\<lparr>bytes_processed :=
                     bytes_processed (frag_st f) + of_nat (length payload)\<rparr>\<rparr>
        in case frag_strategy (frag_cfg f) of
             StrategyFixed \<Rightarrow> (let (fs, f2) = fragment_fixed f1 payload in (Inr fs, k, f2))
           | StrategyRandom \<Rightarrow>
               (let (fs, k2, f2) = fragment_random ent k f1 payload in (Inr fs, k2, f2))
           | StrategyTLSSplit \<Rightarrow>
               (let (fs, k2, f2) = fragment_tls_record ent k f1 payload in (Inr fs, k2, f2))
           | StrategyOther _ \<Rightarrow>
               (let (fs, f2) = fragment_fixed f1 payload in (Inr fs, k, f2)))"

text \<open>\<^verbatim>\<open>FragmentWriter.Write\<close>: on success it reports the length of its argument.\<close>

datatype fw_err = FwFragment frag_err | FwWrite io_err

definition fragment_writer_write ::
  "'w writer \<Rightarrow> entropy \<Rightarrow> nat \<Rightarrow> fragmenter \<Rightarrow> bytes \<Rightarrow> 'w \<Rightarrow>
   (nat \<times> fw_err option) \<times> nat \<times> fragmenter \<times> 'w" where
  "fragment_writer_write wr ent k f p w =
     (case fragment ent k f p of
        (Inl e, k', f') \<Rightarrow> ((0, Some (FwFragment e)), k', f', w)
      | (Inr fs, k', f') \<Rightarrow>
          (case write_frags wr fs w of
             ((n, Some e), w') \<Rightarrow> ((n, Some (FwWrite e)), k', f', w')
           | ((n, None), w') \<Rightarrow> ((length p, None), k', f', w')))"

section \<open>What the loops produce\<close>

definition frag_wf :: "fragmenter \<Rightarrow> bool" where
  "frag_wf f \<longleftrightarrow> 64 \<le> max_fragment_len (frag_cfg f) \<and> 1 \<le> min_fragment_len (frag_cfg f) \<and>
     min_fragment_len (frag_cfg f) \<le> max_fragment_len (frag_cfg f)"

lemma new_fragmenter_wf: "new_fragmenter cfg = Inr f \<Longrightarrow> frag_wf f"
  by (auto simp: new_fragmenter_def frag_wf_def Let_def split: if_splits)

lemma frag_wf_set_enabled [simp]: "frag_wf (frag_set_enabled b f) = frag_wf f"
  by (simp add: frag_wf_def frag_set_enabled_def)

lemma count_fragments_cfg [simp]: "frag_cfg (count_fragments c f) = frag_cfg f"
  by (simp add: count_fragments_def)

text \<open>Pieces of a payload: none empty, none longer than the bound, all of it, in order.\<close>

definition pieces :: "int \<Rightarrow> bytes \<Rightarrow> bytes list \<Rightarrow> bool" where
  "pieces hi payload fs \<longleftrightarrow>
     concat fs = payload \<and> (\<forall>f \<in> set fs. f \<noteq> [] \<and> int (length f) \<le> hi)"

lemma pieces_Nil [simp]: "pieces hi [] []"
  by (simp add: pieces_def)

lemma pieces_Cons:
  assumes "0 < sz" "sz \<le> hi" "rest \<noteq> []" "pieces hi (drop (nat sz) rest) fs"
  shows "pieces hi rest (take (nat sz) rest # fs)"
  using assms by (auto simp: pieces_def)

lemma pieces_not_Nil: "pieces hi payload fs \<Longrightarrow> payload \<noteq> [] \<Longrightarrow> fs \<noteq> []"
  by (auto simp: pieces_def)

lemma fixed_loop_pieces: "0 < sz \<Longrightarrow> pieces sz rest (fixed_loop sz rest)"
proof (induction sz rest rule: fixed_loop.induct)
  case (1 sz rest)
  show ?case
  proof (cases "rest = []")
    case True
    then show ?thesis by (simp add: fixed_loop.simps)
  next
    case False
    with 1 have "pieces sz (drop (nat sz) rest) (fixed_loop sz (drop (nat sz) rest))" by simp
    from pieces_Cons[OF 1(2) order_refl False this] False 1(2) show ?thesis
      by (simp add: fixed_loop.simps[of sz rest])
  qed
qed

lemma fixed_loop_eq_Nil: "0 < sz \<Longrightarrow> fixed_loop sz rest = [] \<longleftrightarrow> rest = []"
  by (subst fixed_loop.simps) simp

lemma fixed_loop_full:
  "0 < sz \<Longrightarrow> f \<in> set (butlast (fixed_loop sz rest)) \<Longrightarrow> int (length f) = sz"
proof (induction sz rest rule: fixed_loop.induct)
  case (1 sz rest)
  have ne: "rest \<noteq> []"
    using 1(3) by (auto simp: fixed_loop.simps)
  with 1(2) have e: "fixed_loop sz rest = take (nat sz) rest # fixed_loop sz (drop (nat sz) rest)"
    by (subst fixed_loop.simps) simp
  have d: "drop (nat sz) rest \<noteq> []"
    using 1(3) fixed_loop_eq_Nil[OF 1(2), of "drop (nat sz) rest"] by (auto simp: e)
  then have b: "butlast (fixed_loop sz rest)
      = take (nat sz) rest # butlast (fixed_loop sz (drop (nat sz) rest))"
    using fixed_loop_eq_Nil[OF 1(2), of "drop (nat sz) rest"] by (simp only: e butlast.simps if_False)
  show ?case
  proof (cases "f = take (nat sz) rest")
    case True
    with d 1(2) show ?thesis by simp
  next
    case False
    with 1(3) b have "f \<in> set (butlast (fixed_loop sz (drop (nat sz) rest)))" by simp
    with 1(1,2) ne show ?thesis by simp
  qed
qed

lemma random_size_bounds:
  assumes "lo \<le> hi" and "random_int_range ent k lo hi = (r, k1)"
    and "sz = (case r of None \<Rightarrow> hi | Some x \<Rightarrow> x)"
  shows "lo \<le> sz \<and> sz \<le> hi"
proof (cases r)
  case None
  with assms show ?thesis by simp
next
  case (Some x)
  with assms(3) random_int_range_bounds[OF assms(1), of ent k x k1] assms(2) show ?thesis by simp
qed

lemma random_loop_pieces:
  "1 \<le> lo \<Longrightarrow> lo \<le> hi \<Longrightarrow> random_loop ent k lo hi rest = (fs, k') \<Longrightarrow>
   pieces hi rest fs \<and> (\<forall>f \<in> set (butlast fs). lo \<le> int (length f))"
proof (induction ent k lo hi rest arbitrary: fs k' rule: random_loop.induct)
  case (1 ent k lo hi rest)
  show ?case
  proof (cases "rest = []")
    case True
    with 1(4) show ?thesis by (simp add: random_loop.simps)
  next
    case False
    obtain r k1 where r: "random_int_range ent k lo hi = (r, k1)"
      by fastforce
    define sz where "sz = (case r of None \<Rightarrow> hi | Some x \<Rightarrow> x)"
    have sz: "lo \<le> sz" "sz \<le> hi" "\<not> sz \<le> 0"
      using random_size_bounds[OF 1(3) r sz_def] 1(2) by auto
    obtain gs k2 where g: "random_loop ent k1 lo hi (drop (nat sz) rest) = (gs, k2)"
      by fastforce
    have fs: "fs = take (nat sz) rest # gs"
      using 1(4) False r sz(3) g
      by (simp add: random_loop.simps[of ent k lo hi rest] Let_def sz_def[symmetric])
    have IH: "pieces hi (drop (nat sz) rest) gs \<and> (\<forall>f \<in> set (butlast gs). lo \<le> int (length f))"
      using 1(1)[OF False r[symmetric] refl sz_def _ 1(2,3) g] sz(3) by simp
    have "lo \<le> int (length (take (nat sz) rest))" if "gs \<noteq> []"
    proof -
      have "drop (nat sz) rest \<noteq> []"
        using that g by (auto simp: random_loop.simps)
      with sz show ?thesis by simp
    qed
    with IH fs pieces_Cons[of sz hi rest gs] sz False show ?thesis by auto
  qed
qed

text \<open>A record read back: type, version and body of the first record, and what follows.\<close>

definition tls_read :: "bytes \<Rightarrow> ((byte \<times> byte \<times> byte) \<times> bytes \<times> bytes) option" where
  "tls_read bs =
     (if length bs < 5 then None
      else let n = unat (be16 (bs ! 3) (bs ! 4))
           in if length bs < 5 + n then None
              else Some ((bs ! 0, bs ! 1, bs ! 2), take n (drop 5 bs), drop (5 + n) bs))"

lemma tls_read_record:
  assumes l: "length body < 65536"
  shows "tls_read (tls_record ct v0 v1 body @ tail) = Some ((ct, v0, v1), body, tail)"
proof -
  have "unat (be16 (of_nat (length body div 256)) (of_nat (length body mod 256))) = length body"
    using l by (simp add: unat_be16 unsigned_of_nat take_bit_nat_eq_self less_mult_imp_div_less)
  moreover have "drop (5 + length body) (tls_record ct v0 v1 body @ tail) = tail"
    by (rule drop_append_exact) (simp add: tls_record_def)
  moreover have "take (length body) (drop 5 (tls_record ct v0 v1 body @ tail)) = body"
    by (simp add: tls_record_def)
  ultimately show ?thesis
    by (simp add: tls_read_def Let_def) (simp add: tls_record_def)
qed

lemma tls_loop_pieces:
  "1 \<le> maxp \<Longrightarrow> tls_loop ent k maxp ct v0 v1 rest = (recs, k') \<Longrightarrow>
   \<exists>bodies. recs = map (tls_record ct v0 v1) bodies \<and> pieces maxp rest bodies"
proof (induction ent k maxp ct v0 v1 rest arbitrary: recs k' rule: tls_loop.induct)
  case (1 ent k maxp ct v0 v1 rest)
  show ?case
  proof (cases "rest = []")
    case True
    with 1(3) show ?thesis by (simp add: tls_loop.simps)
  next
    case False
    obtain r k1 where r: "random_int_range ent k 1 maxp = (r, k1)"
      by fastforce
    define sz where "sz = (case r of None \<Rightarrow> maxp | Some x \<Rightarrow> x)"
    have sz: "1 \<le> sz" "sz \<le> maxp" "\<not> sz \<le> 0"
      using random_size_bounds[OF 1(2) r sz_def] by auto
    obtain gs k2 where g: "tls_loop ent k1 maxp ct v0 v1 (drop (nat sz) rest) = (gs, k2)"
      by fastforce
    have recs: "recs = tls_record ct v0 v1 (take (nat sz) rest) # gs"
      using 1(3) False r sz(3) g
      by (simp add: tls_loop.simps[of ent k maxp ct v0 v1 rest] Let_def sz_def[symmetric])
    obtain bodies where "gs = map (tls_record ct v0 v1) bodies"
      and "pieces maxp (drop (nat sz) rest) bodies"
      using 1(1)[OF False r[symmetric] refl sz_def _ 1(2) g] sz(3) by auto
    with recs pieces_Cons[of sz maxp rest bodies] sz False show ?thesis
      by (intro exI[of _ "take (nat sz) rest # bodies"]) auto
  qed
qed

section \<open>Reassembly\<close>

lemma fragment_fixed_pieces:
  "frag_wf f \<Longrightarrow> fragment_fixed f payload = (fs, f') \<Longrightarrow>
   pieces (max_fragment_len (frag_cfg f)) payload fs"
  by (auto simp: fragment_fixed_def Let_def frag_wf_def intro: fixed_loop_pieces)

lemma fragment_random_pieces:
  assumes "frag_wf f" and "fragment_random ent k f payload = (fs, k', f')"
  shows "pieces (max_fragment_len (frag_cfg f)) payload fs \<and>
    (\<forall>x \<in> set (butlast fs). min_fragment_len (frag_cfg f) \<le> int (length x))"
  using assms
  by (auto simp: fragment_random_def frag_wf_def split: prod.splits dest: random_loop_pieces)

definition plain_strategy :: "fragmenter \<Rightarrow> bool" where
  "plain_strategy f \<longleftrightarrow> frag_strategy (frag_cfg f) \<noteq> StrategyTLSSplit"

lemma frag_wf_stats [simp]: "frag_wf (f\<lparr>frag_st := s\<rparr>) = frag_wf f"
  by (simp add: frag_wf_def)

lemma fragment_plain_pieces:
  assumes "frag_wf f" and "plain_strategy f" and "fragment ent k f payload = (Inr fs, k', f')"
  shows "concat fs = payload"
proof -
  let ?f1 = "f\<lparr>frag_st := (frag_st f)\<lparr>bytes_processed :=
               bytes_processed (frag_st f) + of_nat (length payload)\<rparr>\<rparr>"
  have wf: "frag_wf ?f1" using assms(1) by simp
  consider "fs = [payload]" | "fragment_fixed ?f1 payload = (fs, f')"
    | "\<exists>k2. fragment_random ent k ?f1 payload = (fs, k2, f')"
    using assms(2,3)
    by (auto simp: fragment_def plain_strategy_def Let_def split: if_splits strategy.splits prod.splits)
  then show ?thesis
    using fragment_fixed_pieces[OF wf] fragment_random_pieces[OF wf]
    by cases (auto simp: pieces_def)
qed

text \<open>
  C8. Fragmentation loses nothing. A fragmenter built by \<open>NewFragmenter\<close>, enabled, with the
  fixed or the random strategy, turns every non-empty payload, whatever the random source
  does (failing included), into fragments that are the payload again when concatenated, of
  which none is empty or longer than \<open>MaxFragmentLen\<close>; with the fixed strategy all but the
  last have exactly that length, with the random one at least \<open>MinFragmentLen\<close>.
\<close>

theorem fragment_reassembles:
  assumes "new_fragmenter cfg = Inr f0" and "f = frag_set_enabled True f0"
    and "frag_strategy (frag_cfg f) \<in> {StrategyFixed, StrategyRandom}" and "payload \<noteq> []"
  shows "\<exists>fs k' f'. fragment ent k f payload = (Inr fs, k', f') \<and>
    concat fs = payload \<and>
    (\<forall>x \<in> set fs. x \<noteq> [] \<and> int (length x) \<le> max_fragment_len (frag_cfg f)) \<and>
    (\<forall>x \<in> set (butlast fs).
       if frag_strategy (frag_cfg f) = StrategyFixed
       then int (length x) = max_fragment_len (frag_cfg f)
       else min_fragment_len (frag_cfg f) \<le> int (length x)) \<and>
    bytes_processed (frag_st f') = bytes_processed (frag_st f) + of_nat (length payload) \<and>
    packets_fragmented (frag_st f') = packets_fragmented (frag_st f) + 1 \<and>
    fragments_created (frag_st f') = fragments_created (frag_st f) + of_nat (length fs)"
proof -
  have wf: "frag_wf f" and en: "frag_enabled (frag_cfg f)"
    using new_fragmenter_wf[OF assms(1)] by (simp_all add: assms(2) frag_set_enabled_def frag_wf_def)
  define f1 where "f1 = f\<lparr>frag_st := (frag_st f)\<lparr>bytes_processed :=
      bytes_processed (frag_st f) + of_nat (length payload)\<rparr>\<rparr>"
  have wf1: "frag_wf f1" and c1: "frag_cfg f1 = frag_cfg f"
    using wf by (simp_all add: f1_def)
  show ?thesis
  proof (cases "frag_strategy (frag_cfg f) = StrategyFixed")
    case True
    obtain fs f' where r: "fragment_fixed f1 payload = (fs, f')" by fastforce
    have "fragment ent k f payload = (Inr fs, k, f')"
      using True en assms(4) r by (simp add: fragment_def f1_def[symmetric] Let_def)
    moreover have "\<forall>x \<in> set (butlast fs). int (length x) = max_fragment_len (frag_cfg f)"
      using r wf c1 by (auto simp: fragment_fixed_def Let_def frag_wf_def dest: fixed_loop_full[rotated])
    moreover have "f' = count_fragments (length fs) f1"
      using r by (auto simp: fragment_fixed_def Let_def)
    ultimately show ?thesis
      using fragment_fixed_pieces[OF wf1 r] c1 True
      by (auto simp: pieces_def count_fragments_def f1_def)
  next
    case False
    then have R: "frag_strategy (frag_cfg f) = StrategyRandom" using assms(3) by simp
    obtain fs k' f' where r: "fragment_random ent k f1 payload = (fs, k', f')"
      by (metis prod.exhaust)
    have "fragment ent k f payload = (Inr fs, k', f')"
      using R en assms(4) r by (simp add: fragment_def f1_def[symmetric] Let_def)
    moreover have "f' = count_fragments (length fs) f1"
      using r by (auto simp: fragment_random_def Let_def split: prod.splits)
    ultimately show ?thesis
      using fragment_random_pieces[OF wf1 r] c1 R
      by (auto simp: pieces_def count_fragments_def f1_def)
  qed
qed

theorem fragment_reassembles_witness:
  "\<exists>fs k' f'. fragment (\<lambda>_. None) 0 (frag_set_enabled True
      \<lparr>frag_cfg = default_fragmenter_config, frag_st = empty_fragment_stats\<rparr>) [1, 2, 3]
      = (Inr fs, k', f') \<and> concat fs = [1, 2, 3 :: byte]"
proof -
  have "new_fragmenter default_fragmenter_config
      = Inr \<lparr>frag_cfg = default_fragmenter_config, frag_st = empty_fragment_stats\<rparr>"
    by (simp add: new_fragmenter_def default_fragmenter_config_def)
  from fragment_reassembles [OF this refl, of "[1, 2, 3]" "\<lambda>_. None" 0] show ?thesis
    by (auto simp: default_fragmenter_config_def frag_set_enabled_def)
qed

text \<open>The first \<open>n\<close> records of a stream, and what follows them.\<close>

fun tls_read_n ::
  "nat \<Rightarrow> bytes \<Rightarrow> (((byte \<times> byte \<times> byte) \<times> bytes) list \<times> bytes) option" where
  "tls_read_n 0 bs = Some ([], bs)"
| "tls_read_n (Suc n) bs =
     (case tls_read bs of
        None \<Rightarrow> None
      | Some (h, body, tail) \<Rightarrow>
          (case tls_read_n n tail of
             None \<Rightarrow> None
           | Some (rs, tail') \<Rightarrow> Some ((h, body) # rs, tail')))"

lemma tls_read_n_records:
  "\<forall>b \<in> set bodies. length b < 65536 \<Longrightarrow>
   tls_read_n (length bodies) (concat (map (tls_record ct v0 v1) bodies) @ tail)
     = Some (map (Pair (ct, v0, v1)) bodies, tail)"
  by (induction bodies) (simp_all add: tls_read_record)

lemma fragment_tls_shape:
  assumes "frag_wf f" and "frag_enabled (frag_cfg f)"
    and "frag_strategy (frag_cfg f) = StrategyTLSSplit"
    and "payload ! 0 \<in> {0x16, 0x17}" and "5 \<le> length payload"
    and n: "n = unat (be16 (payload ! 3) (payload ! 4))" and "5 + n \<le> length payload"
  shows "\<exists>k' f' bodies extra. fragment ent k f payload
      = (Inr (map (tls_record (payload ! 0) (payload ! 1) (payload ! 2)) bodies @ extra), k', f') \<and>
    pieces (max_fragment_len (frag_cfg f) - 5) (take n (drop 5 payload)) bodies \<and>
    pieces (max_fragment_len (frag_cfg f)) (drop (5 + n) payload) extra"
proof -
  define f1 where "f1 = f\<lparr>frag_st := (frag_st f)\<lparr>bytes_processed :=
      bytes_processed (frag_st f) + of_nat (length payload)\<rparr>\<rparr>"
  have wf1: "frag_wf f1" and c1: "frag_cfg f1 = frag_cfg f"
    using assms(1) by (simp_all add: f1_def)
  let ?hi = "max_fragment_len (frag_cfg f)"
  have hi: "max 1 (?hi - 5) = ?hi - 5" "1 \<le> ?hi - 5"
    using assms(1) by (simp_all add: frag_wf_def)
  obtain recs k1 where t: "tls_loop ent k (?hi - 5) (payload ! 0) (payload ! 1) (payload ! 2)
      (take n (drop 5 payload)) = (recs, k1)"
    by fastforce
  obtain bodies where recs: "recs = map (tls_record (payload ! 0) (payload ! 1) (payload ! 2)) bodies"
    and b: "pieces (?hi - 5) (take n (drop 5 payload)) bodies"
    using tls_loop_pieces[OF hi(2) t] by blast
  obtain extra k2 f2 where x: "(if drop (5 + n) payload = [] then ([], k1, f1)
      else fragment_random ent k1 f1 (drop (5 + n) payload)) = (extra, k2, f2)"
    by (metis prod.exhaust)
  have e: "pieces ?hi (drop (5 + n) payload) extra"
    using x fragment_random_pieces[OF wf1] c1 by (auto split: if_splits)
  have ne: "payload \<noteq> []"
    using assms(5) by auto
  have g: "\<not> length payload < 5" "\<not> length payload < 5 + unat (be16 (payload ! 3) (payload ! 4))"
      "\<not> (payload ! 0 \<noteq> 0x16 \<and> payload ! 0 \<noteq> 0x17)"
    using assms(4,5,7) n by auto
  have "\<exists>f'. fragment_tls_record ent k f1 payload = (recs @ extra, k2, f')"
    unfolding fragment_tls_record_def Let_def c1 hi(1)
    by (simp only: g if_False t[unfolded n] x[unfolded n] split_conv prod.inject) blast
  then obtain f' where "fragment_tls_record ent k f1 payload = (recs @ extra, k2, f')" ..
  then have r: "fragment ent k f payload = (Inr (recs @ extra), k2, f')"
    using assms(2,3) ne by (simp add: fragment_def f1_def[symmetric] Let_def)
  show ?thesis
    using r b e unfolding recs by blast
qed

lemma length_records: "length (concat (map (tls_record t a b) bodies)) = 5 * length bodies + length (concat bodies)"
  by (induction bodies) (simp_all add: tls_record_def)



section \<open>The fragmenting writer\<close>

context io_writer
begin

lemma fragment_writer_sink:
  assumes "frag_wf f" and "plain_strategy f" and "usable w"
    and "fragment_writer_write wr ent k f p w = ((n, e), k', f', w')"
  shows "sink w' = sink w @ take n p \<and> n \<le> length p \<and> (e = None \<longrightarrow> n = length p)"
proof -
  obtain r k1 f1 where r: "fragment ent k f p = (r, k1, f1)"
    by (metis prod.exhaust)
  show ?thesis
  proof (cases r)
    case (Inl x)
    with assms(4) r show ?thesis by (auto simp: fragment_writer_write_def)
  next
    case (Inr fs)
    have c: "concat fs = p"
      using fragment_plain_pieces[OF assms(1,2)] r Inr by blast
    obtain m d w1 where w: "write_frags wr fs w = ((m, d), w1)"
      by (metis prod.exhaust)
    show ?thesis
      using assms(4) r Inr w write_frags_sink[OF assms(3) w] c
      by (cases d) (auto simp: fragment_writer_write_def)
  qed
qed

end

text \<open>
  \<open>FragmentWriter.Write\<close> is a writer for the fixed and the random strategy: on a
  connection, whatever the random source and however the connection fails, the bytes that
  reached it are the first \<open>n\<close> of the argument, where \<open>n\<close> is the count the call reports, and
  without an error that is all of them.
\<close>

theorem fragment_writer_correct:
  assumes "frag_wf f" and "plain_strategy f"
    and "fragment_writer_write conn_write ent k f p c = ((n, e), k', f', c')"
  shows "outp c' = outp c @ take n p \<and> n \<le> length p \<and> (e = None \<longrightarrow> n = length p)"
  by (rule conn_writer.fragment_writer_sink[OF assms(1,2) TrueI assms(3)])

theorem fragment_writer_correct_witness:
  "\<exists>n e k' f' c'. fragment_writer_write conn_write (\<lambda>_. None) 0
      \<lparr>frag_cfg = default_fragmenter_config, frag_st = empty_fragment_stats\<rparr> [1, 2]
      \<lparr>inp = [], outp = [9], wcap = 1\<rparr> = ((n, e), k', f', c') \<and>
    outp c' = [9] @ take n [1, 2]"
proof -
  let ?f = "\<lparr>frag_cfg = default_fragmenter_config, frag_st = empty_fragment_stats\<rparr>"
  have f: "frag_wf ?f" "plain_strategy ?f"
    by (simp_all add: frag_wf_def plain_strategy_def default_fragmenter_config_def)
  obtain n e k' f' c' where r: "fragment_writer_write conn_write (\<lambda>_. None) 0 ?f [1, 2]
      \<lparr>inp = [], outp = [9], wcap = 1\<rparr> = ((n, e), k', f', c')"
    by (metis prod.exhaust)
  from fragment_writer_correct [OF f r] r show ?thesis
    by auto
qed

text \<open>
  The TLS strategy drops a record without a body: given just the five header bytes of a
  handshake or application data record of length zero, \<open>FragmentWriter.Write\<close> reports five
  bytes written and no error, and nothing reaches the connection.
\<close>

theorem fragment_writer_drops_empty_record:
  assumes "frag_enabled (frag_cfg f)" and "frag_strategy (frag_cfg f) = StrategyTLSSplit"
    and "ct \<in> {0x16, 0x17}"
  shows "\<exists>f'. fragment_writer_write conn_write ent k f [ct, v0, v1, 0, 0] c
    = ((5, None), k, f', c)"
proof -
  have "be16 0 0 = 0"
    by (simp add: be16_def)
  with assms show ?thesis
    by (auto simp: fragment_writer_write_def fragment_def fragment_tls_record_def Let_def
        tls_loop.simps)
qed

theorem fragment_writer_drops_empty_record_witness:
  "\<exists>f'. fragment_writer_write conn_write (\<lambda>_. None) 0
     \<lparr>frag_cfg = default_fragmenter_config\<lparr>frag_strategy := StrategyTLSSplit\<rparr>,
      frag_st = empty_fragment_stats\<rparr> [0x17, 3, 3, 0, 0] \<lparr>inp = [], outp = [], wcap = 9\<rparr>
     = ((5, None), 0, f', \<lparr>inp = [], outp = [], wcap = 9\<rparr>)"
  by (rule fragment_writer_drops_empty_record) (simp_all add: default_fragmenter_config_def)

section \<open>As an engine\<close>

text \<open>What the receiver of the fragments sees: their concatenation.\<close>

interpretation fragment_engine: engine frag_set_enabled frag_is_enabled
  "\<lambda>f p. case fragment ent k f p of (Inl e, k', f') \<Rightarrow> (p, f') | (Inr fs, k', f') \<Rightarrow> (concat fs, f')"
  for ent k
  by unfold_locales (simp_all add: frag_set_enabled_def frag_is_enabled_def fragment_def)

end
