(* ===== verification/Framing.thy ===== *)
theory Framing
  imports Prelude
begin

text \<open>
  The contract of a message channel over a byte stream, shared by the Noise frames, the
  encrypted connection and the packet streams of the two transports: what one writer call
  appends to the wire is what one reader call takes off it, and the message is the same.
  A channel may have state on either side (statistics, cipher nonces); \<open>linked\<close> says that the
  two sides are in step.
\<close>

locale framing =
  fixes send_msg :: "bytes \<Rightarrow> 's \<Rightarrow> ('e + 'n) \<times> 's"
    and recv_msg :: "'r \<Rightarrow> ('f + bytes) \<times> 'r"
    and sent :: "'s \<Rightarrow> bytes"
    and avail :: "'r \<Rightarrow> bytes"
    and linked :: "'s \<Rightarrow> 'r \<Rightarrow> bool"
    and sendable :: "bytes \<Rightarrow> bool"
  assumes delivery:
    "send_msg m s = (Inr x, s') \<Longrightarrow> sendable m \<Longrightarrow>
     \<exists>f. f \<noteq> [] \<and> sent s' = sent s @ f \<and>
       (\<forall>r rest. linked s r \<longrightarrow> avail r = f @ rest \<longrightarrow>
          (\<exists>r'. recv_msg r = (Inr m, r') \<and> avail r' = rest \<and> linked s' r'))"
    and no_data: "avail r = [] \<Longrightarrow> \<exists>e r'. recv_msg r = (Inl e, r')"

text \<open>A run of writes that stops at the first error, and a fixed number of reads.\<close>

fun send_list :: "(bytes \<Rightarrow> 's \<Rightarrow> ('e + 'n) \<times> 's) \<Rightarrow> bytes list \<Rightarrow> 's \<Rightarrow> ('e + unit) \<times> 's" where
  "send_list snd_op [] s = (Inr (), s)"
| "send_list snd_op (m # ms) s =
     (case snd_op m s of
        (Inl e, s') \<Rightarrow> (Inl e, s')
      | (Inr _, s') \<Rightarrow> send_list snd_op ms s')"

fun recv_list :: "('r \<Rightarrow> ('f + bytes) \<times> 'r) \<Rightarrow> nat \<Rightarrow> 'r \<Rightarrow> ('f + bytes list) \<times> 'r" where
  "recv_list rcv 0 r = (Inr [], r)"
| "recv_list rcv (Suc n) r =
     (case rcv r of
        (Inl e, r') \<Rightarrow> (Inl e, r')
      | (Inr m, r') \<Rightarrow>
          (case recv_list rcv n r' of
             (Inl e, r'') \<Rightarrow> (Inl e, r'')
           | (Inr ms, r'') \<Rightarrow> (Inr (m # ms), r'')))"

context framing
begin

text \<open>Messages arrive in order, unchanged, and nothing else is taken off the wire.\<close>

lemma roundtrip:
  "send_list send_msg ms s = (Inr (), s') \<Longrightarrow> \<forall>m \<in> set ms. sendable m \<Longrightarrow>
   \<exists>f. sent s' = sent s @ f \<and>
     (\<forall>r rest. linked s r \<longrightarrow> avail r = f @ rest \<longrightarrow>
        (\<exists>r'. recv_list recv_msg (length ms) r = (Inr ms, r') \<and> avail r' = rest \<and> linked s' r'))"
proof (induction ms arbitrary: s)
  case Nil
  then show ?case by auto
next
  case (Cons m ms)
  obtain x s1 where m: "send_msg m s = (x, s1)"
    by fastforce
  with Cons.prems(1) obtain u where x: "x = Inr u" and ms: "send_list send_msg ms s1 = (Inr (), s')"
    by (cases x) auto
  obtain f where f: "sent s1 = sent s @ f"
    "\<And>r rest. linked s r \<Longrightarrow> avail r = f @ rest \<Longrightarrow>
       \<exists>r'. recv_msg r = (Inr m, r') \<and> avail r' = rest \<and> linked s1 r'"
    using delivery[of m s u s1] m x Cons.prems(2) by auto
  obtain g where g: "sent s' = sent s1 @ g"
    "\<And>r rest. linked s1 r \<Longrightarrow> avail r = g @ rest \<Longrightarrow>
       \<exists>r'. recv_list recv_msg (length ms) r = (Inr ms, r') \<and> avail r' = rest \<and> linked s' r'"
    using Cons.IH[OF ms] Cons.prems(2) by auto
  have "\<exists>r'. recv_list recv_msg (length (m # ms)) r = (Inr (m # ms), r') \<and> avail r' = rest \<and> linked s' r'"
    if r: "linked s r" "avail r = (f @ g) @ rest" for r rest
  proof -
    obtain r1 where 1: "recv_msg r = (Inr m, r1)" "avail r1 = g @ rest" "linked s1 r1"
      using f(2)[OF r(1), of "g @ rest"] r(2) by auto
    with g(2)[OF 1(3,2)] show ?thesis by auto
  qed
  with f(1) g(1) show ?case by (intro exI[of _ "f @ g"]) auto
qed

text \<open>And reading once more reports an error, at the end of the wire.\<close>

lemma roundtrip_end:
  assumes "send_list send_msg ms s = (Inr (), s')" and "\<forall>m \<in> set ms. sendable m"
  shows "\<exists>f. sent s' = sent s @ f \<and>
     (\<forall>r. linked s r \<longrightarrow> avail r = f \<longrightarrow>
        (\<exists>r' e r''. recv_list recv_msg (length ms) r = (Inr ms, r') \<and> recv_msg r' = (Inl e, r'')))"
proof -
  obtain f where f: "sent s' = sent s @ f"
    "\<And>r rest. linked s r \<Longrightarrow> avail r = f @ rest \<Longrightarrow>
       \<exists>r'. recv_list recv_msg (length ms) r = (Inr ms, r') \<and> avail r' = rest \<and> linked s' r'"
    using roundtrip[OF assms] by blast
  have "\<exists>r' e r''. recv_list recv_msg (length ms) r = (Inr ms, r') \<and> recv_msg r' = (Inl e, r'')"
    if "linked s r" "avail r = f" for r
    using f(2)[of r "[]"] that no_data by force
  with f(1) show ?thesis by blast
qed

end

end
