(* ===== verification/Negotiation.thy ===== *)
theory Negotiation
  imports CryptoUtil
begin

text \<open>
  \<^verbatim>\<open>protocol/negotiation.go\<close> (the capabilities of a node and their negotiation) and
  \<^verbatim>\<open>config/config.go\<close> (the configuration read from the environment). Suites, transports
  and patterns are strings in the code and here. The environment is a function from names
  to values, empty for an unset variable; the parser of floating point numbers is a
  parameter, floats stay abstract.
\<close>

section \<open>Capabilities\<close>

type_synonym aead_suite = string
type_synonym transport_name = string
type_synonym pattern_name = string

record capabilities =
  aead_suites :: "aead_suite list"
  transports :: "transport_name list"
  handshake_modes :: "pattern_name list"
  protocol_version :: string

record session_profile =
  prof_aead :: aead_suite
  prof_transport :: transport_name
  prof_pattern :: pattern_name
  prof_version :: string

definition default_capabilities :: capabilities where
  "default_capabilities =
     \<lparr>aead_suites = [''ChaCha20-Poly1305'', ''AES-256-GCM''],
      transports = [''QUIC'', ''SOCKS5-TLS''],
      handshake_modes = [''Noise_IK'', ''Noise_XX''],
      protocol_version = ''securemesh/1''\<rparr>"

datatype negotiation_err =
  ProtocolMismatch string string | NoMutualAEAD | NoMutualTransport | NoMutualPattern

text \<open>
  The three negotiation functions have the same body: a set of what the remote offers, and
  the first local entry in it.
\<close>

fun remote_set :: "string list \<Rightarrow> string set" where
  "remote_set [] = {}"
| "remote_set (s # ss) = insert s (remote_set ss)"

fun first_supported :: "string list \<Rightarrow> string set \<Rightarrow> string option" where
  "first_supported [] remote = None"
| "first_supported (s # ss) remote =
     (if s \<in> remote then Some s else first_supported ss remote)"

definition negotiate_aead :: "aead_suite list \<Rightarrow> aead_suite list \<Rightarrow> negotiation_err + aead_suite" where
  "negotiate_aead local remote =
     (case first_supported local (remote_set remote) of
        Some s \<Rightarrow> Inr s | None \<Rightarrow> Inl NoMutualAEAD)"

definition negotiate_transport ::
  "transport_name list \<Rightarrow> transport_name list \<Rightarrow> negotiation_err + transport_name" where
  "negotiate_transport local remote =
     (case first_supported local (remote_set remote) of
        Some s \<Rightarrow> Inr s | None \<Rightarrow> Inl NoMutualTransport)"

definition negotiate_noise_pattern ::
  "pattern_name list \<Rightarrow> pattern_name list \<Rightarrow> negotiation_err + pattern_name" where
  "negotiate_noise_pattern local remote =
     (case first_supported local (remote_set remote) of
        Some s \<Rightarrow> Inr s | None \<Rightarrow> Inl NoMutualPattern)"

definition negotiate_capabilities ::
  "capabilities \<Rightarrow> capabilities \<Rightarrow> negotiation_err + session_profile" where
  "negotiate_capabilities local remote =
     (if protocol_version local \<noteq> protocol_version remote
      then Inl (ProtocolMismatch (protocol_version local) (protocol_version remote))
      else case negotiate_aead (aead_suites local) (aead_suites remote) of
        Inl e \<Rightarrow> Inl e
      | Inr a \<Rightarrow>
         (case negotiate_transport (transports local) (transports remote) of
            Inl e \<Rightarrow> Inl e
          | Inr t \<Rightarrow>
             (case negotiate_noise_pattern (handshake_modes local) (handshake_modes remote) of
                Inl e \<Rightarrow> Inl e
              | Inr p \<Rightarrow> Inr \<lparr>prof_aead = a, prof_transport = t, prof_pattern = p,
                              prof_version = protocol_version local\<rparr>)))"

section \<open>Configuration\<close>

record storage_config =
  driver :: string
  path :: string

record 'f tracing_config =
  service_name :: string
  otlp_endpoint :: string
  otlp_insecure :: bool
  sample_ratio :: 'f

record 'f node_config =
  node_id :: string
  aead_preference :: "aead_suite list"
  storage :: storage_config
  tracing :: "'f tracing_config"

definition env :: "(string \<Rightarrow> string) \<Rightarrow> string \<Rightarrow> string \<Rightarrow> string" where
  "env getenv name fallback =
     (let v = trim_space (getenv name) in if v = [] then fallback else v)"

definition parse_suite :: "string \<Rightarrow> aead_suite option" where
  "parse_suite part =
     (let s = str_lower (trim_space part)
      in if s \<in> {''aes'', ''aes-gcm'', ''aes256gcm'', ''aes-256-gcm''} then Some ''AES-256-GCM''
         else if s \<in> {''chacha'', ''chacha20'', ''chacha20poly1305'', ''chacha20-poly1305''}
              then Some ''ChaCha20-Poly1305''
              else None)"

definition parse_aead_preference :: "string \<Rightarrow> aead_suite list" where
  "parse_aead_preference raw =
     (if trim_space raw = [] then [''ChaCha20-Poly1305'', ''AES-256-GCM'']
      else let suites = List.map_filter parse_suite (split_on CHR '','' raw)
           in if suites = [] then aead_suites default_capabilities else suites)"

text \<open>\<^verbatim>\<open>strconv.ParseBool\<close>: \<open>None\<close> is its error.\<close>

definition strconv_parse_bool :: "string \<Rightarrow> bool option" where
  "strconv_parse_bool s =
     (if s \<in> {''1'', ''t'', ''T'', ''TRUE'', ''true'', ''True''} then Some True
      else if s \<in> {''0'', ''f'', ''F'', ''FALSE'', ''false'', ''False''} then Some False
      else None)"

definition parse_bool :: "string \<Rightarrow> bool" where
  "parse_bool raw = (strconv_parse_bool raw = Some True)"

definition parse_float :: "(string \<Rightarrow> 'f option) \<Rightarrow> 'f \<Rightarrow> string \<Rightarrow> 'f" where
  "parse_float strconv_parse_float one raw =
     (case strconv_parse_float raw of None \<Rightarrow> one | Some v \<Rightarrow> v)"

definition load_from_env ::
  "(string \<Rightarrow> 'f option) \<Rightarrow> 'f \<Rightarrow> (string \<Rightarrow> string) \<Rightarrow> 'f node_config" where
  "load_from_env strconv_parse_float one getenv =
     \<lparr>node_id = env getenv ''SECUREMESH_NODE_ID'' ''local-dev-node'',
      aead_preference = parse_aead_preference (env getenv ''SECUREMESH_AEAD'' []),
      storage = \<lparr>driver = env getenv ''SECUREMESH_STATE_DRIVER'' ''sqlite'',
                 path = env getenv ''SECUREMESH_STATE_PATH'' ''securemesh.db''\<rparr>,
      tracing = \<lparr>service_name = env getenv ''SECUREMESH_SERVICE_NAME'' ''securemesh-node'',
                 otlp_endpoint = env getenv ''SECUREMESH_OTEL_ENDPOINT'' [],
                 otlp_insecure = parse_bool (env getenv ''SECUREMESH_OTEL_INSECURE'' ''true''),
                 sample_ratio = parse_float strconv_parse_float one
                   (env getenv ''SECUREMESH_TRACE_SAMPLE_RATIO'' ''1.0'')\<rparr>\<rparr>"

section \<open>Lemmas\<close>

lemma remote_set_eq [simp]: "remote_set ss = set ss"
  by (induction ss) auto

lemma first_supported_None: "first_supported ss r = None \<longleftrightarrow> set ss \<inter> r = {}"
  by (induction ss) auto

lemma first_supported_SomeI:
  "s \<in> r \<Longrightarrow> set pre \<inter> r = {} \<Longrightarrow> first_supported (pre @ s # post) r = Some s"
  by (induction pre) auto

lemma first_supported_SomeD:
  "first_supported ss r = Some s \<Longrightarrow> \<exists>pre post. ss = pre @ s # post \<and> s \<in> r \<and> set pre \<inter> r = {}"
proof (induction ss)
  case (Cons x xs)
  show ?case
  proof (cases "x \<in> r")
    case True
    with Cons.prems show ?thesis by (intro exI[of _ "[]"] exI[of _ xs]) simp
  next
    case False
    with Cons obtain pre post where "xs = pre @ s # post" "s \<in> r" "set pre \<inter> r = {}" by auto
    with False show ?thesis by (intro exI[of _ "x # pre"] exI[of _ post]) simp
  qed
qed simp

lemma first_supported_Some:
  "first_supported ss r = Some s \<longleftrightarrow>
   (\<exists>pre post. ss = pre @ s # post \<and> s \<in> r \<and> set pre \<inter> r = {})"
  using first_supported_SomeI first_supported_SomeD by metis

text \<open>The first entry of a preference list that the other side supports.\<close>

definition preferred :: "string list \<Rightarrow> string list \<Rightarrow> string \<Rightarrow> bool" where
  "preferred local remote s \<longleftrightarrow>
     (\<exists>pre post. local = pre @ s # post \<and> s \<in> set remote \<and> set pre \<inter> set remote = {})"

lemma preferred_iff: "preferred l r s \<longleftrightarrow> first_supported l (set r) = Some s"
  by (simp only: preferred_def first_supported_Some)

lemma preferred_unique: "preferred l r s \<Longrightarrow> preferred l r t \<Longrightarrow> s = t"
  by (simp add: preferred_iff)

lemma negotiate_aead_Inr: "negotiate_aead l r = Inr s \<longleftrightarrow> preferred l r s"
  by (simp add: negotiate_aead_def preferred_iff split: option.splits)

lemma negotiate_transport_Inr: "negotiate_transport l r = Inr s \<longleftrightarrow> preferred l r s"
  by (simp add: negotiate_transport_def preferred_iff split: option.splits)

lemma negotiate_noise_pattern_Inr: "negotiate_noise_pattern l r = Inr s \<longleftrightarrow> preferred l r s"
  by (simp add: negotiate_noise_pattern_def preferred_iff split: option.splits)

lemma negotiate_aead_Inl:
  "negotiate_aead l r = Inl e \<longleftrightarrow> set l \<inter> set r = {} \<and> e = NoMutualAEAD"
  by (auto simp: negotiate_aead_def first_supported_None[symmetric] split: option.splits)

lemma negotiate_transport_Inl:
  "negotiate_transport l r = Inl e \<longleftrightarrow> set l \<inter> set r = {} \<and> e = NoMutualTransport"
  by (auto simp: negotiate_transport_def first_supported_None[symmetric] split: option.splits)

lemma negotiate_noise_pattern_Inl:
  "negotiate_noise_pattern l r = Inl e \<longleftrightarrow> set l \<inter> set r = {} \<and> e = NoMutualPattern"
  by (auto simp: negotiate_noise_pattern_def first_supported_None[symmetric] split: option.splits)

lemmas negotiate_iffs =
  negotiate_aead_Inr negotiate_transport_Inr negotiate_noise_pattern_Inr
  negotiate_aead_Inl negotiate_transport_Inl negotiate_noise_pattern_Inl

lemma negotiate_total:
  "(\<exists>s. preferred l r s) \<longleftrightarrow> set l \<inter> set r \<noteq> {}"
  by (simp add: preferred_iff first_supported_None[symmetric])

lemma negotiate_capabilities_Inr:
  "negotiate_capabilities l r = Inr p \<longleftrightarrow>
     protocol_version l = protocol_version r \<and> prof_version p = protocol_version l \<and>
     preferred (aead_suites l) (aead_suites r) (prof_aead p) \<and>
     preferred (transports l) (transports r) (prof_transport p) \<and>
     preferred (handshake_modes l) (handshake_modes r) (prof_pattern p)"
  by (cases p) (auto simp: negotiate_capabilities_def negotiate_iffs preferred_iff
      first_supported_None[symmetric] split: sum.splits)

lemma trim_space_Nil [simp]: "trim_space [] = []"
  by (simp add: trim_space_def)

lemma parse_suite_range: "parse_suite s = Some a \<Longrightarrow> a \<in> {''ChaCha20-Poly1305'', ''AES-256-GCM''}"
  by (auto simp: parse_suite_def Let_def split: if_splits)

lemma parse_aead_preference_range:
  "parse_aead_preference raw \<noteq> [] \<and>
   set (parse_aead_preference raw) \<subseteq> {''ChaCha20-Poly1305'', ''AES-256-GCM''}"
  by (auto simp: parse_aead_preference_def default_capabilities_def Let_def List.map_filter_def
      dest: parse_suite_range)

section \<open>Properties\<close>

text \<open>
  C21. Negotiation is exact. \<open>NegotiateCapabilities\<close> succeeds exactly when the versions agree
  and every one of the three lists shares an entry with the peer's; the profile then holds,
  for each list, the local side's first entry that the peer supports; the error names the
  version first, then the AEAD, then the transport, then the pattern.
\<close>

theorem negotiate_capabilities_exact:
  "(negotiate_capabilities l r = Inr p \<longleftrightarrow>
     protocol_version l = protocol_version r \<and> prof_version p = protocol_version l \<and>
     preferred (aead_suites l) (aead_suites r) (prof_aead p) \<and>
     preferred (transports l) (transports r) (prof_transport p) \<and>
     preferred (handshake_modes l) (handshake_modes r) (prof_pattern p)) \<and>
   negotiate_capabilities l r =
     (if protocol_version l \<noteq> protocol_version r
      then Inl (ProtocolMismatch (protocol_version l) (protocol_version r))
      else if set (aead_suites l) \<inter> set (aead_suites r) = {} then Inl NoMutualAEAD
      else if set (transports l) \<inter> set (transports r) = {} then Inl NoMutualTransport
      else if set (handshake_modes l) \<inter> set (handshake_modes r) = {} then Inl NoMutualPattern
      else Inr \<lparr>prof_aead = projr (negotiate_aead (aead_suites l) (aead_suites r)),
                prof_transport = projr (negotiate_transport (transports l) (transports r)),
                prof_pattern = projr (negotiate_noise_pattern (handshake_modes l) (handshake_modes r)),
                prof_version = protocol_version r\<rparr>)"
proof
  show "negotiate_capabilities l r = Inr p \<longleftrightarrow>
     protocol_version l = protocol_version r \<and> prof_version p = protocol_version l \<and>
     preferred (aead_suites l) (aead_suites r) (prof_aead p) \<and>
     preferred (transports l) (transports r) (prof_transport p) \<and>
     preferred (handshake_modes l) (handshake_modes r) (prof_pattern p)"
    by (rule negotiate_capabilities_Inr)
next
  show "negotiate_capabilities l r =
     (if protocol_version l \<noteq> protocol_version r
      then Inl (ProtocolMismatch (protocol_version l) (protocol_version r))
      else if set (aead_suites l) \<inter> set (aead_suites r) = {} then Inl NoMutualAEAD
      else if set (transports l) \<inter> set (transports r) = {} then Inl NoMutualTransport
      else if set (handshake_modes l) \<inter> set (handshake_modes r) = {} then Inl NoMutualPattern
      else Inr \<lparr>prof_aead = projr (negotiate_aead (aead_suites l) (aead_suites r)),
                prof_transport = projr (negotiate_transport (transports l) (transports r)),
                prof_pattern = projr (negotiate_noise_pattern (handshake_modes l) (handshake_modes r)),
                prof_version = protocol_version r\<rparr>)"
    by (cases "negotiate_aead (aead_suites l) (aead_suites r)";
        cases "negotiate_transport (transports l) (transports r)";
        cases "negotiate_noise_pattern (handshake_modes l) (handshake_modes r)")
      (simp_all add: negotiate_capabilities_def,
        simp_all add: negotiate_iffs, auto dest: negotiate_total[THEN iffD1, OF exI])
qed

text \<open>
  Whatever \<open>SECUREMESH_AEAD\<close> holds, the configured preference can be used: it is not
  empty, a peer with the default capabilities negotiates a suite with it in either
  direction, and \<open>NewAEAD\<close> accepts that suite with any 32-byte key.
\<close>

theorem configured_aead_usable:
  "let pref = aead_preference (load_from_env pf one getenv) in pref \<noteq> [] \<and>
    (\<exists>s. negotiate_aead pref (aead_suites default_capabilities) = Inr s \<and>
       (\<forall>k. length k = 32 \<longrightarrow> (\<exists>c. new_aead s k = Inr c))) \<and>
    (\<exists>s. negotiate_aead (aead_suites default_capabilities) pref = Inr s \<and>
       (\<forall>k. length k = 32 \<longrightarrow> (\<exists>c. new_aead s k = Inr c)))"
proof -
  define pref where "pref = aead_preference (load_from_env pf one getenv)"
  have r: "pref \<noteq> []" "set pref \<subseteq> {''ChaCha20-Poly1305'', ''AES-256-GCM''}"
    using parse_aead_preference_range by (simp_all add: pref_def load_from_env_def)
  have d: "set (aead_suites default_capabilities) = {''ChaCha20-Poly1305'', ''AES-256-GCM''}"
    by (auto simp: default_capabilities_def)
  have ok: "\<exists>s. negotiate_aead l m = Inr s \<and> (\<forall>k. length k = 32 \<longrightarrow> (\<exists>c. new_aead s k = Inr c))"
    if lm: "set l \<inter> set m \<noteq> {}" "set l \<subseteq> {''ChaCha20-Poly1305'', ''AES-256-GCM''}" for l m
  proof -
    obtain s where s: "preferred l m s"
      using lm negotiate_total by blast
    then have "s \<in> {''ChaCha20-Poly1305'', ''AES-256-GCM''}"
      using lm by (auto simp: preferred_def)
    with s show ?thesis
      by (auto simp: negotiate_iffs new_aead_def intro!: exI[of _ s])
  qed
  have "set pref \<inter> set (aead_suites default_capabilities) \<noteq> {}"
    using r d by (cases pref) auto
  with r d ok show ?thesis
    unfolding Let_def pref_def[symmetric] by (metis Int_commute order_refl)
qed

theorem configured_aead_usable_witness:
  "\<exists>s. negotiate_aead (aead_preference (load_from_env (\<lambda>_. None) () (\<lambda>_. ''aes, rot13'')))
        (aead_suites default_capabilities) = Inr s \<and>
     (\<exists>c. new_aead s (replicate 32 0) = Inr c)"
  using configured_aead_usable [of "\<lambda>_. None" "()" "\<lambda>_. ''aes, rot13''"]
  unfolding Let_def by (meson length_replicate)

text \<open>
  Negotiation is not symmetric: each side follows its own order. If both ends call it
  they agree on the AEAD exactly when the first mutually supported entry of one list is also
  the first of the other; two nodes with the same suites in different orders do not.
\<close>

theorem negotiate_aead_agreement:
  "(negotiate_aead l r = negotiate_aead r l \<longleftrightarrow>
     set l \<inter> set r = {} \<or> (\<exists>s. preferred l r s \<and> preferred r l s)) \<and>
   negotiate_aead [''ChaCha20-Poly1305'', ''AES-256-GCM''] [''AES-256-GCM'', ''ChaCha20-Poly1305'']
     \<noteq> negotiate_aead [''AES-256-GCM'', ''ChaCha20-Poly1305''] [''ChaCha20-Poly1305'', ''AES-256-GCM'']"
proof
  show "negotiate_aead l r = negotiate_aead r l \<longleftrightarrow>
     set l \<inter> set r = {} \<or> (\<exists>s. preferred l r s \<and> preferred r l s)"
  proof (cases "negotiate_aead l r")
    case (Inl e)
    then show ?thesis
      by (metis Int_commute negotiate_aead_Inl)
  next
    case (Inr s)
    then have p: "preferred l r s" "set l \<inter> set r \<noteq> {}"
      using negotiate_total by (auto simp: negotiate_iffs)
    show ?thesis
      using Inr p negotiate_aead_Inr[of r l s] preferred_unique by auto
  qed
qed (simp add: negotiate_aead_def)

end
