(* ===== verification/Noise.thy ===== *)
theory Noise
  imports Framing Negotiation
begin

text \<open>
  \<^verbatim>\<open>handshake/noise.go\<close> and \<^verbatim>\<open>handshake/noise_conn.go\<close>: the choice of the Noise
  pattern and suite, the framed handshake over a connection, and the encrypted connection
  that results. The Noise library is third-party code: the handshake state \<open>'h\<close> with its
  \<^verbatim>\<open>WriteMessage\<close> and \<^verbatim>\<open>ReadMessage\<close>, and the cipher state \<open>'c\<close> with \<^verbatim>\<open>Encrypt\<close>
  and \<^verbatim>\<open>Decrypt\<close>, are parameters. Deadlines and addresses, which only delegate to the
  inner connection, are left out; a missed deadline is a failing read or write.
\<close>

section \<open>Suites and patterns\<close>

datatype noise_pattern = HandshakeIK | HandshakeXX

datatype noise_cipher = CipherAESGCM | CipherChaChaPoly

record 'k hs_config =
  hs_initiator :: bool
  hs_pattern :: string
  hs_aead :: string
  hs_static :: 'k
  hs_peer_static :: bytes
  hs_prologue :: bytes

datatype frame_err =
  WriteLen io_err | WriteData io_err | ReadLen io_err | ReadData io_err | BadFrameLen nat

datatype hs_err = BadPattern string | NewStateErr | HsWrite nat | HsRead nat | HsFrame frame_err

definition recommended_pattern :: "bool \<Rightarrow> string" where
  "recommended_pattern peer_static_known = (if peer_static_known then ''IK'' else ''XX'')"

definition cipher_suite :: "string \<Rightarrow> noise_cipher" where
  "cipher_suite aead = (if aead = ''AES256-GCM'' then CipherAESGCM else CipherChaChaPoly)"

definition pattern :: "string \<Rightarrow> hs_err + noise_pattern" where
  "pattern value =
     (if value = ''IK'' then Inr HandshakeIK
      else if value = ''XX'' then Inr HandshakeXX
      else Inl (BadPattern value))"

definition new_state ::
  "(noise_cipher \<Rightarrow> noise_pattern \<Rightarrow> 'k hs_config \<Rightarrow> 'h option) \<Rightarrow> 'k hs_config \<Rightarrow> hs_err + 'h" where
  "new_state noise_new cfg =
     (case pattern (hs_pattern cfg) of
        Inl e \<Rightarrow> Inl e
      | Inr p \<Rightarrow>
          (case noise_new (cipher_suite (hs_aead cfg)) p cfg of
             None \<Rightarrow> Inl NewStateErr
           | Some h \<Rightarrow> Inr h))"

section \<open>Frames\<close>

definition write_frame :: "bytes \<Rightarrow> conn \<Rightarrow> (frame_err + unit) \<times> conn" where
  "write_frame data c =
     (case conn_write (put16 (of_nat (length data))) c of
        ((_, Some e), c1) \<Rightarrow> (Inl (WriteLen e), c1)
      | ((_, None), c1) \<Rightarrow>
          (case conn_write data c1 of
             ((_, Some e), c2) \<Rightarrow> (Inl (WriteData e), c2)
           | ((_, None), c2) \<Rightarrow> (Inr (), c2)))"

definition read_frame :: "conn \<Rightarrow> (frame_err + bytes) \<times> conn" where
  "read_frame c =
     (case read_full 2 c of
        (Inl e, c1) \<Rightarrow> (Inl (ReadLen e), c1)
      | (Inr len_buf, c1) \<Rightarrow>
          let n = unat (be16 (len_buf ! 0) (len_buf ! 1))
          in if n = 0 \<or> n > 65535 then (Inl (BadFrameLen n), c1)
             else case read_full n c1 of
                    (Inl e, c2) \<Rightarrow> (Inl (ReadData e), c2)
                  | (Inr data, c2) \<Rightarrow> (Inr data, c2))"

section \<open>The handshake\<close>

text \<open>
  \<^verbatim>\<open>WriteMessage\<close> returns the message and, once the handshake is complete, the two cipher
  states; \<^verbatim>\<open>ReadMessage\<close> the cipher states alone. \<open>None\<close> outside is the error.
\<close>

type_synonym ('h, 'c) hs_write = "'h \<Rightarrow> (bytes \<times> 'c option \<times> 'c option) option \<times> 'h"
type_synonym ('h, 'c) hs_read = "bytes \<Rightarrow> 'h \<Rightarrow> ('c option \<times> 'c option) option \<times> 'h"

definition perform_initiator ::
  "('h, 'c) hs_write \<Rightarrow> ('h, 'c) hs_read \<Rightarrow> conn \<Rightarrow> 'h \<Rightarrow>
   (hs_err + ('c option \<times> 'c option)) \<times> 'h \<times> conn" where
  "perform_initiator wm rm c hs =
     (case wm hs of
        (None, h1) \<Rightarrow> (Inl (HsWrite 1), h1, c)
      | (Some (msg1, cs1, cs2), h1) \<Rightarrow>
     (case write_frame msg1 c of
        (Inl e, c1) \<Rightarrow> (Inl (HsFrame e), h1, c1)
      | (Inr _, c1) \<Rightarrow>
     (if cs1 \<noteq> None \<and> cs2 \<noteq> None then (Inr (cs1, cs2), h1, c1)
      else case read_frame c1 of
        (Inl e, c2) \<Rightarrow> (Inl (HsFrame e), h1, c2)
      | (Inr msg2, c2) \<Rightarrow>
     (case rm msg2 h1 of
        (None, h2) \<Rightarrow> (Inl (HsRead 2), h2, c2)
      | (Some (cs1, cs2), h2) \<Rightarrow>
     (if cs1 \<noteq> None \<and> cs2 \<noteq> None then (Inr (cs1, cs2), h2, c2)
      else case wm h2 of
        (None, h3) \<Rightarrow> (Inl (HsWrite 3), h3, c2)
      | (Some (msg3, cs1, cs2), h3) \<Rightarrow>
     (case write_frame msg3 c2 of
        (Inl e, c3) \<Rightarrow> (Inl (HsFrame e), h3, c3)
      | (Inr _, c3) \<Rightarrow> (Inr (cs1, cs2), h3, c3)))))))"

definition perform_responder ::
  "('h, 'c) hs_write \<Rightarrow> ('h, 'c) hs_read \<Rightarrow> conn \<Rightarrow> 'h \<Rightarrow>
   (hs_err + ('c option \<times> 'c option)) \<times> 'h \<times> conn" where
  "perform_responder wm rm c hs =
     (case read_frame c of
        (Inl e, c1) \<Rightarrow> (Inl (HsFrame e), hs, c1)
      | (Inr msg1, c1) \<Rightarrow>
     (case rm msg1 hs of
        (None, h1) \<Rightarrow> (Inl (HsRead 1), h1, c1)
      | (Some (cs1, cs2), h1) \<Rightarrow>
     (if cs1 \<noteq> None \<and> cs2 \<noteq> None then (Inr (cs1, cs2), h1, c1)
      else case wm h1 of
        (None, h2) \<Rightarrow> (Inl (HsWrite 2), h2, c1)
      | (Some (msg2, cs1, cs2), h2) \<Rightarrow>
     (case write_frame msg2 c1 of
        (Inl e, c2) \<Rightarrow> (Inl (HsFrame e), h2, c2)
      | (Inr _, c2) \<Rightarrow>
     (if cs1 \<noteq> None \<and> cs2 \<noteq> None then (Inr (cs1, cs2), h2, c2)
      else case read_frame c2 of
        (Inl e, c3) \<Rightarrow> (Inl (HsFrame e), h2, c3)
      | (Inr msg3, c3) \<Rightarrow>
     (case rm msg3 h2 of
        (None, h3) \<Rightarrow> (Inl (HsRead 3), h3, c3)
      | (Some (cs1, cs2), h3) \<Rightarrow> (Inr (cs1, cs2), h3, c3)))))))"

section \<open>The encrypted connection\<close>

record 'c secure_conn =
  raw :: conn
  send_cs :: "'c option"
  recv_cs :: "'c option"
  peer_id :: bytes

text \<open>
  \<^verbatim>\<open>UpgradeToSecure\<close>. The initiator sends with the first cipher state and receives with
  the second, the responder the other way round.
\<close>

definition upgrade_to_secure ::
  "(noise_cipher \<Rightarrow> noise_pattern \<Rightarrow> 'k hs_config \<Rightarrow> 'h option) \<Rightarrow> ('h \<Rightarrow> bytes) \<Rightarrow>
   ('h, 'c) hs_write \<Rightarrow> ('h, 'c) hs_read \<Rightarrow> conn \<Rightarrow> 'k hs_config \<Rightarrow>
   (hs_err + 'c secure_conn) \<times> conn" where
  "upgrade_to_secure noise_new peer_static wm rm c cfg =
     (case new_state noise_new cfg of
        Inl e \<Rightarrow> (Inl e, c)
      | Inr hs \<Rightarrow>
          if hs_initiator cfg
          then (case perform_initiator wm rm c hs of
                  (Inl e, h', c') \<Rightarrow> (Inl e, c')
                | (Inr (s, r), h', c') \<Rightarrow>
                    (Inr \<lparr>raw = c', send_cs = s, recv_cs = r, peer_id = peer_static h'\<rparr>, c'))
          else (case perform_responder wm rm c hs of
                  (Inl e, h', c') \<Rightarrow> (Inl e, c')
                | (Inr (r, s), h', c') \<Rightarrow>
                    (Inr \<lparr>raw = c', send_cs = s, recv_cs = r, peer_id = peer_static h'\<rparr>, c')))"

text \<open>
  A nil cipher state makes the code panic, which is \<open>ScPanic\<close> here. The argument \<open>n\<close> of the
  read is the length of the caller's buffer; the result is what \<^verbatim>\<open>copy\<close> put there.
\<close>

datatype sc_err = ScIO io_err | ScBadLen nat | ScDecrypt | ScEncrypt | ScPanic

type_synonym 'c cipher_op = "'c \<Rightarrow> bytes \<Rightarrow> bytes option \<times> 'c"

definition sc_read :: "'c cipher_op \<Rightarrow> nat \<Rightarrow> 'c secure_conn \<Rightarrow> (sc_err + bytes) \<times> 'c secure_conn" where
  "sc_read decrypt n sc =
     (case read_full 2 (raw sc) of
        (Inl e, c1) \<Rightarrow> (Inl (ScIO e), sc\<lparr>raw := c1\<rparr>)
      | (Inr len_buf, c1) \<Rightarrow>
          let frame_len = unat (be16 (len_buf ! 0) (len_buf ! 1))
          in if frame_len = 0 \<or> frame_len > 65535
             then (Inl (ScBadLen frame_len), sc\<lparr>raw := c1\<rparr>)
             else case read_full frame_len c1 of
                    (Inl e, c2) \<Rightarrow> (Inl (ScIO e), sc\<lparr>raw := c2\<rparr>)
                  | (Inr ciphertext, c2) \<Rightarrow>
                      (case recv_cs sc of
                         None \<Rightarrow> (Inl ScPanic, sc\<lparr>raw := c2\<rparr>)
                       | Some cs \<Rightarrow>
                           (case decrypt cs ciphertext of
                              (None, cs') \<Rightarrow> (Inl ScDecrypt, sc\<lparr>raw := c2, recv_cs := Some cs'\<rparr>)
                            | (Some plaintext, cs') \<Rightarrow>
                                (Inr (take n plaintext), sc\<lparr>raw := c2, recv_cs := Some cs'\<rparr>))))"

definition sc_write :: "'c cipher_op \<Rightarrow> bytes \<Rightarrow> 'c secure_conn \<Rightarrow> (sc_err + nat) \<times> 'c secure_conn" where
  "sc_write encrypt p sc =
     (case send_cs sc of
        None \<Rightarrow> (Inl ScPanic, sc)
      | Some cs \<Rightarrow>
          (case encrypt cs p of
             (None, cs') \<Rightarrow> (Inl ScEncrypt, sc\<lparr>send_cs := Some cs'\<rparr>)
           | (Some ciphertext, cs') \<Rightarrow>
               (case conn_write (put16 (of_nat (length ciphertext))) (raw sc) of
                  ((_, Some e), c1) \<Rightarrow> (Inl (ScIO e), sc\<lparr>raw := c1, send_cs := Some cs'\<rparr>)
                | ((_, None), c1) \<Rightarrow>
                    (case conn_write ciphertext c1 of
                       ((_, Some e), c2) \<Rightarrow> (Inl (ScIO e), sc\<lparr>raw := c2, send_cs := Some cs'\<rparr>)
                     | ((_, None), c2) \<Rightarrow>
                         (Inr (length p), sc\<lparr>raw := c2, send_cs := Some cs'\<rparr>)))))"

text \<open>
  \<^verbatim>\<open>SecureListener\<close>: the inner listener's result is an argument; the boolean tells
  whether the accepted connection was closed.
\<close>

record 'k secure_listener =
  sl_static :: 'k
  sl_aead :: string

definition wrap_listener :: "'k \<Rightarrow> string \<Rightarrow> 'k secure_listener" where
  "wrap_listener static aead = \<lparr>sl_static = static, sl_aead = aead\<rparr>"

datatype accept_err = AcceptInner io_err | AcceptHandshake hs_err

definition secure_accept ::
  "(noise_cipher \<Rightarrow> noise_pattern \<Rightarrow> 'k hs_config \<Rightarrow> 'h option) \<Rightarrow> ('h \<Rightarrow> bytes) \<Rightarrow>
   ('h, 'c) hs_write \<Rightarrow> ('h, 'c) hs_read \<Rightarrow> 'k secure_listener \<Rightarrow> io_err + conn \<Rightarrow>
   (accept_err + 'c secure_conn) \<times> bool" where
  "secure_accept noise_new peer_static wm rm sl inner =
     (case inner of
        Inl e \<Rightarrow> (Inl (AcceptInner e), False)
      | Inr c \<Rightarrow>
          (case upgrade_to_secure noise_new peer_static wm rm c
                  \<lparr>hs_initiator = False, hs_pattern = ''XX'', hs_aead = sl_aead sl,
                   hs_static = sl_static sl, hs_peer_static = [], hs_prologue = []\<rparr> of
             (Inl e, c') \<Rightarrow> (Inl (AcceptHandshake e), True)
           | (Inr sc, c') \<Rightarrow> (Inr sc, False)))"

section \<open>Frames on the wire\<close>

definition frame :: "bytes \<Rightarrow> bytes" where
  "frame m = put16 (of_nat (length m)) @ m"

lemma length_frame [simp]: "length (frame m) = length m + 2"
  by (simp add: frame_def)

lemma put16_of_nat_read:
  "unat (be16 (put16 (of_nat n) ! 0) (put16 (of_nat n) ! Suc 0)) = n mod 65536"
  by (simp add: put16_def unat_be16_put16_of_nat)

lemma write_frame_Inr:
  "write_frame m c = (Inr u, c') \<longleftrightarrow>
   length (frame m) \<le> wcap c \<and>
   c' = c\<lparr>outp := outp c @ frame m, wcap := wcap c - length (frame m)\<rparr>"
  by (auto simp: write_frame_def conn_write_def frame_def split: if_splits)

lemma read_frame_ok:
  assumes "inp c = frame m @ rest" and "0 < length m" and "length m \<le> 65535"
  shows "read_frame c = (Inr m, c\<lparr>inp := rest\<rparr>)"
proof -
  have 1: "read_full 2 c = (Inr (put16 (of_nat (length m))), c\<lparr>inp := m @ rest\<rparr>)"
    by (rule read_full_ok) (simp_all add: assms(1) frame_def)
  have 2: "read_full (length m) (c\<lparr>inp := m @ rest\<rparr>) = (Inr m, c\<lparr>inp := rest\<rparr>)"
    by (subst read_full_ok[OF refl, of _ m rest]) simp_all
  show ?thesis
    using assms(2,3) by (simp add: read_frame_def 1 2 put16_of_nat_read Let_def)
qed

lemma read_frame_empty: "inp c = [] \<Longrightarrow> read_frame c = (Inl (ReadLen ErrEOF), c)"
  by (simp add: read_frame_def read_full_def)

interpretation hs_frames: framing write_frame read_frame outp inp
  "\<lambda>s r. True" "\<lambda>m. 0 < length m \<and> length m \<le> 65535"
proof
  fix m s x s'
  assume "write_frame m s = (Inr x, s')" and m: "0 < length m \<and> length m \<le> 65535"
  then have "outp s' = outp s @ frame m"
    by (simp add: write_frame_Inr)
  moreover have "frame m \<noteq> []"
    by (simp add: frame_def put16_def)
  ultimately show "\<exists>f. f \<noteq> [] \<and> outp s' = outp s @ f \<and> (\<forall>r rest. True \<longrightarrow> inp r = f @ rest \<longrightarrow>
      (\<exists>r'. read_frame r = (Inr m, r') \<and> inp r' = rest \<and> True))"
    using read_frame_ok m by (intro exI[of _ "frame m"]) force
qed (use read_frame_empty in blast)

text \<open>
  Handshake frames. When a run of \<open>writeFrame\<close> calls succeeds on messages of 1 to 65535
  bytes, as many \<open>readFrame\<close> calls on what was written return exactly those messages in order
  and leave what followed on the wire.
\<close>

theorem handshake_frames_roundtrip:
  assumes "send_list write_frame ms c = (Inr (), c')"
    and "\<forall>m \<in> set ms. 0 < length m \<and> length m \<le> 65535"
  shows "\<exists>f. outp c' = outp c @ f \<and>
    (\<forall>r rest. inp r = f @ rest \<longrightarrow>
       (\<exists>r'. recv_list read_frame (length ms) r = (Inr ms, r') \<and> inp r' = rest))"
  using hs_frames.roundtrip[OF assms] by simp

theorem handshake_frames_roundtrip_witness:
  "\<exists>f. outp (snd (send_list write_frame [[1], [2, 3]] \<lparr>inp = [], outp = [], wcap = 10\<rparr>)) = f \<and>
    (\<exists>r'. recv_list read_frame 2 \<lparr>inp = f @ [9], outp = [], wcap = 0\<rparr> = (Inr [[1], [2, 3]], r') \<and>
       inp r' = [9])"
proof -
  let ?c = "\<lparr>inp = [], outp = [], wcap = 10\<rparr>" and ?ms = "[[1], [2, 3]] :: bytes list"
  obtain c' where c': "send_list write_frame ?ms ?c = (Inr (), c')"
    by (simp add: write_frame_def conn_write_def)
  have "\<forall>m \<in> set ?ms. 0 < length m \<and> length m \<le> 65535"
    by simp
  from handshake_frames_roundtrip [OF c' this] obtain f where f: "outp c' = f"
    and r: "\<And>r rest. inp r = f @ rest \<Longrightarrow>
       \<exists>r'. recv_list read_frame 2 r = (Inr ?ms, r') \<and> inp r' = rest"
    by (auto simp: numeral_2_eq_2)
  show ?thesis
    using c' f r[of "\<lparr>inp = f @ [9], outp = [], wcap = 0\<rparr>" "[9]"] by auto
qed

section \<open>The handshake of two parties\<close>

text \<open>
  What the library promises for a pair of handshake states of a three-message pattern (XX):
  the messages in turn are accepted by the other side, cipher states appear on both sides
  with the last message and not before, and they are matching pairs. The messages fit a
  frame.
\<close>

definition xx_session ::
  "('h, 'c) hs_write \<Rightarrow> ('h, 'c) hs_read \<Rightarrow> ('c \<Rightarrow> 'c \<Rightarrow> bool) \<Rightarrow> 'h \<Rightarrow> 'h \<Rightarrow> 'h \<Rightarrow> 'h \<Rightarrow>
   bytes \<Rightarrow> bytes \<Rightarrow> bytes \<Rightarrow> 'c \<times> 'c \<Rightarrow> 'c \<times> 'c \<Rightarrow> bool" where
  "xx_session wm rm paired hi hr hi' hr' m1 m2 m3 csi csr \<longleftrightarrow>
     (\<exists>hi1 hi2 hr1 hr2.
        wm hi = (Some (m1, None, None), hi1) \<and> rm m1 hr = (Some (None, None), hr1) \<and>
        wm hr1 = (Some (m2, None, None), hr2) \<and> rm m2 hi1 = (Some (None, None), hi2) \<and>
        wm hi2 = (Some (m3, Some (fst csi), Some (snd csi)), hi') \<and>
        rm m3 hr2 = (Some (Some (fst csr), Some (snd csr)), hr')) \<and>
     paired (fst csi) (fst csr) \<and> paired (snd csr) (snd csi) \<and>
     (\<forall>m \<in> {m1, m2, m3}. 0 < length m \<and> length m \<le> 65535)"

lemma initiator_run:
  assumes "xx_session wm rm paired hi hr hi' hr' m1 m2 m3 csi csr"
    and "inp c = frame m2 @ rest" and "length (frame m1 @ frame m3) \<le> wcap c"
  shows "perform_initiator wm rm c hi = (Inr (Some (fst csi), Some (snd csi)), hi',
    c\<lparr>inp := rest, outp := outp c @ frame m1 @ frame m3, wcap := wcap c - length (frame m1 @ frame m3)\<rparr>)"
proof -
  have w: "write_frame m d = (Inr (), d\<lparr>outp := outp d @ frame m, wcap := wcap d - length (frame m)\<rparr>)"
    if "length (frame m) \<le> wcap d" for m d
    using that by (simp add: write_frame_Inr)
  have r: "read_frame d = (Inr m2, d\<lparr>inp := rest\<rparr>)" if "inp d = frame m2 @ rest" for d
    using that assms(1) by (intro read_frame_ok) (auto simp: xx_session_def)
  show ?thesis
    using assms by (auto simp: perform_initiator_def xx_session_def w r)
qed

lemma responder_run:
  assumes "xx_session wm rm paired hi hr hi' hr' m1 m2 m3 csi csr"
    and "inp c = frame m1 @ frame m3 @ rest" and "length (frame m2) \<le> wcap c"
  shows "perform_responder wm rm c hr = (Inr (Some (fst csr), Some (snd csr)), hr',
    c\<lparr>inp := rest, outp := outp c @ frame m2, wcap := wcap c - length (frame m2)\<rparr>)"
proof -
  have w: "write_frame m d = (Inr (), d\<lparr>outp := outp d @ frame m, wcap := wcap d - length (frame m)\<rparr>)"
    if "length (frame m) \<le> wcap d" for m d
    using that by (simp add: write_frame_Inr)
  have r: "read_frame d = (Inr m, d\<lparr>inp := tail\<rparr>)"
    if "inp d = frame m @ tail" "m \<in> {m1, m3}" for d m tail
    using that assms(1) by (intro read_frame_ok) (auto simp: xx_session_def)
  show ?thesis
    using assms by (auto simp: perform_responder_def xx_session_def w r)
qed

definition sc_linked :: "('c \<Rightarrow> 'c \<Rightarrow> bool) \<Rightarrow> 'c secure_conn \<Rightarrow> 'c secure_conn \<Rightarrow> bool" where
  "sc_linked paired s r \<longleftrightarrow>
     (case (send_cs s, recv_cs r) of (Some a, Some b) \<Rightarrow> paired a b | _ \<Rightarrow> False)"

text \<open>A small library to run the handshake with: messages [1], [2], [3], cipher states 7 and 8.\<close>

definition example_wm :: "(nat, nat) hs_write" where
  "example_wm h =
     (if h = 0 then (Some ([1], None, None), 1)
      else if h = 2 then (Some ([3], Some 7, Some 8), 3)
      else if h = 11 then (Some ([2], None, None), 12)
      else (None, h))"

definition example_rm :: "(nat, nat) hs_read" where
  "example_rm m h =
     (if h = 1 \<and> m = [2] then (Some (None, None), 2)
      else if h = 10 \<and> m = [1] then (Some (None, None), 11)
      else if h = 12 \<and> m = [3] then (Some (Some 7, Some 8), 13)
      else (None, h))"

definition example_new :: "noise_cipher \<Rightarrow> noise_pattern \<Rightarrow> nat hs_config \<Rightarrow> nat option" where
  "example_new c p cfg = Some (if hs_initiator cfg then 0 else 10)"

text \<open>
  C11. Two parties that run \<open>UpgradeToSecure\<close> against each other with the XX pattern, one as
  initiator and one as responder, each reading what the other writes, both succeed; what one
  sends with is paired with what the other receives with, in both directions; and the bytes
  after the handshake are left for the encrypted connection.
\<close>

theorem upgrade_agrees:
  assumes "xx_session wm rm paired hi hr hi' hr' m1 m2 m3 csi csr"
    and "hs_initiator ci" and "\<not> hs_initiator cr" and "hs_pattern ci = ''XX''" "hs_pattern cr = ''XX''"
    and "noise_new (cipher_suite (hs_aead ci)) HandshakeXX ci = Some hi"
    and "noise_new (cipher_suite (hs_aead cr)) HandshakeXX cr = Some hr"
    and "inp a = frame m2 @ resta" and "inp b = frame m1 @ frame m3 @ restb"
    and "length (frame m1 @ frame m3) \<le> wcap a" and "length (frame m2) \<le> wcap b"
  shows "\<exists>sa sb a' b'.
    upgrade_to_secure noise_new peer_static wm rm a ci = (Inr sa, a') \<and>
    upgrade_to_secure noise_new peer_static wm rm b cr = (Inr sb, b') \<and>
    outp a' = outp a @ frame m1 @ frame m3 \<and> outp b' = outp b @ frame m2 \<and>
    inp (raw sa) = resta \<and> inp (raw sb) = restb \<and>
    sc_linked paired sa sb \<and> sc_linked paired sb sa"
proof -
  have p: "paired (fst csi) (fst csr)" "paired (snd csr) (snd csi)"
    using assms(1) by (auto simp: xx_session_def)
  show ?thesis
    using initiator_run[OF assms(1,8,10)] responder_run[OF assms(1,9,11)] assms(2-7) p
    by (simp add: upgrade_to_secure_def new_state_def pattern_def sc_linked_def)
qed

theorem upgrade_agrees_witness:
  "\<exists>sa sb a' b'.
    upgrade_to_secure example_new (\<lambda>_. [5]) example_wm example_rm
      \<lparr>inp = frame [2] @ [9], outp = [], wcap = 100\<rparr>
      \<lparr>hs_initiator = True, hs_pattern = ''XX'', hs_aead = [], hs_static = 0,
       hs_peer_static = [], hs_prologue = []\<rparr> = (Inr sa, a') \<and>
    upgrade_to_secure example_new (\<lambda>_. [5]) example_wm example_rm
      \<lparr>inp = frame [1] @ frame [3] @ [], outp = [], wcap = 100\<rparr>
      \<lparr>hs_initiator = False, hs_pattern = ''XX'', hs_aead = [], hs_static = 0,
       hs_peer_static = [], hs_prologue = []\<rparr> = (Inr sb, b') \<and>
    sc_linked (=) sa sb \<and> sc_linked (=) sb sa"
proof -
  have "xx_session example_wm example_rm (=) 0 10 3 13 [1] [2] [3] (7, 8) (7, 8)"
    by (simp add: xx_session_def example_wm_def example_rm_def)
  from upgrade_agrees [OF this, of
      "\<lparr>hs_initiator = True, hs_pattern = ''XX'', hs_aead = [], hs_static = 0,
        hs_peer_static = [], hs_prologue = []\<rparr>"
      "\<lparr>hs_initiator = False, hs_pattern = ''XX'', hs_aead = [], hs_static = 0,
        hs_peer_static = [], hs_prologue = []\<rparr>" example_new
      "\<lparr>inp = frame [2] @ [9], outp = [], wcap = 100\<rparr>" "[9]"
      "\<lparr>inp = frame [1] @ frame [3] @ [], outp = [], wcap = 100\<rparr>" "[]" "\<lambda>_. [5]"]
  show ?thesis
    by (auto simp: example_new_def)
qed

section \<open>The encrypted connection as a channel\<close>

text \<open>
  What the library promises for a pair of cipher states: decrypting what was encrypted gives
  the plaintext and the states stay paired; the ciphertext is 16 bytes longer.
\<close>

definition cipher_ok :: "'c cipher_op \<Rightarrow> 'c cipher_op \<Rightarrow> ('c \<Rightarrow> 'c \<Rightarrow> bool) \<Rightarrow> bool" where
  "cipher_ok enc dec paired \<longleftrightarrow>
     (\<forall>s r p ct s'. paired s r \<longrightarrow> enc s p = (Some ct, s') \<longrightarrow>
        length ct = length p + 16 \<and> (\<exists>r'. dec r ct = (Some p, r') \<and> paired s' r'))"

lemma sc_write_Inr:
  "sc_write enc p s = (Inr k, s') \<longleftrightarrow>
   (\<exists>a ct a'. send_cs s = Some a \<and> enc a p = (Some ct, a') \<and> k = length p \<and>
      length (frame ct) \<le> wcap (raw s) \<and>
      s' = s\<lparr>raw := (raw s)\<lparr>outp := outp (raw s) @ frame ct, wcap := wcap (raw s) - length (frame ct)\<rparr>,
             send_cs := Some a'\<rparr>)"
  by (auto simp: sc_write_def conn_write_def frame_def split: option.splits prod.splits if_splits)

lemma sc_read_frame:
  assumes "inp (raw r) = frame ct @ rest" and "0 < length ct" and "length ct \<le> 65535"
    and "recv_cs r = Some b" and "dec b ct = (Some p, b')"
  shows "sc_read dec n r = (Inr (take n p), r\<lparr>raw := (raw r)\<lparr>inp := rest\<rparr>, recv_cs := Some b'\<rparr>)"
proof -
  have 1: "read_full 2 (raw r) = (Inr (put16 (of_nat (length ct))), (raw r)\<lparr>inp := ct @ rest\<rparr>)"
    by (rule read_full_ok) (simp_all add: assms(1) frame_def)
  have 2: "read_full (length ct) ((raw r)\<lparr>inp := ct @ rest\<rparr>) = (Inr ct, (raw r)\<lparr>inp := rest\<rparr>)"
    by (subst read_full_ok[OF refl, of _ ct rest]) simp_all
  show ?thesis
    using assms(2-5) by (simp add: sc_read_def 1 2 put16_of_nat_read Let_def)
qed

lemma sc_read_step:
  assumes c: "cipher_ok enc dec paired" and l: "sc_linked paired s r"
    and w: "sc_write enc p s = (Inr k, s')" and len: "length p + 16 \<le> 65535"
    and i: "inp (raw r) = drop (length (outp (raw s))) (outp (raw s')) @ rest"
  shows "\<exists>r'. sc_read dec n r = (Inr (take n p), r') \<and> inp (raw r') = rest \<and> sc_linked paired s' r'"
proof -
  obtain a ct a' where a: "send_cs s = Some a" "enc a p = (Some ct, a')"
      and s': "outp (raw s') = outp (raw s) @ frame ct" "send_cs s' = Some a'"
    using w by (auto simp: sc_write_Inr)
  obtain b where b: "recv_cs r = Some b" "paired a b"
    using l a by (auto simp: sc_linked_def split: option.splits)
  obtain b' where b': "dec b ct = (Some p, b')" "paired a' b'" and ct: "length ct = length p + 16"
    using c a b unfolding cipher_ok_def by blast
  have "inp (raw r) = frame ct @ rest" "0 < length ct" "length ct \<le> 65535"
    using i s' ct len by simp_all
  from sc_read_frame[OF this b(1), of dec p b' n] b' s' show ?thesis
    by (simp add: sc_linked_def)
qed

lemma secure_framing:
  assumes c: "cipher_ok enc dec paired"
  shows "framing (sc_write enc) (sc_read dec n) (\<lambda>s. outp (raw s)) (\<lambda>r. inp (raw r))
    (sc_linked paired) (\<lambda>m. length m \<le> n \<and> length m + 16 \<le> 65535)"
proof
  fix m s x s'
  assume w: "sc_write enc m s = (Inr x, s')" and m: "length m \<le> n \<and> length m + 16 \<le> 65535"
  obtain ct where f: "outp (raw s') = outp (raw s) @ frame ct"
    using w by (auto simp: sc_write_Inr)
  have "\<exists>r'. sc_read dec n r = (Inr m, r') \<and> inp (raw r') = rest \<and> sc_linked paired s' r'"
    if "sc_linked paired s r" "inp (raw r) = frame ct @ rest" for r rest
    using sc_read_step[OF c that(1) w, of rest n] that(2) m f by simp
  then show "\<exists>f. f \<noteq> [] \<and> outp (raw s') = outp (raw s) @ f \<and>
      (\<forall>r rest. sc_linked paired s r \<longrightarrow> inp (raw r) = f @ rest \<longrightarrow>
         (\<exists>r'. sc_read dec n r = (Inr m, r') \<and> inp (raw r') = rest \<and> sc_linked paired s' r'))"
    using f by (intro exI[of _ "frame ct"]) (simp add: frame_def put16_def)
next
  fix r :: "'a secure_conn"
  assume "inp (raw r) = []"
  then show "\<exists>e r'. sc_read dec n r = (Inl e, r')"
    by (simp add: sc_read_def read_full_def)
qed

definition example_enc :: "nat cipher_op" where
  "example_enc k p = (Some (p @ replicate 16 (of_nat k)), Suc k)"

definition example_dec :: "nat cipher_op" where
  "example_dec k ct =
     (if drop (length ct - 16) ct = replicate 16 (of_nat k)
      then (Some (take (length ct - 16) ct), Suc k) else (None, k))"

lemma example_cipher_ok: "cipher_ok example_enc example_dec (=)"
  by (simp add: cipher_ok_def example_enc_def example_dec_def)


definition example_sender :: "nat secure_conn" where
  "example_sender = \<lparr>raw = \<lparr>inp = [], outp = [], wcap = 100\<rparr>, send_cs = Some 7, recv_cs = Some 8, peer_id = []\<rparr>"

definition example_receiver :: "bytes \<Rightarrow> nat secure_conn" where
  "example_receiver i = \<lparr>raw = \<lparr>inp = i, outp = [], wcap = 0\<rparr>, send_cs = Some 8, recv_cs = Some 7, peer_id = []\<rparr>"


text \<open>
  A read with a short buffer loses data: if the sender wrote one message \<open>p\<close> and the
  reader's buffer has \<open>n\<close> bytes, the reader gets the first \<open>n\<close> bytes of \<open>p\<close>, and the rest of
  the message is gone: the input then starts at what followed the frame.
\<close>

theorem sc_read_short_buffer:
  assumes "cipher_ok enc dec paired" and "sc_linked paired s r"
    and "sc_write enc p s = (Inr k, s')" and "length p + 16 \<le> 65535"
    and "inp (raw r) = drop (length (outp (raw s))) (outp (raw s')) @ rest"
  shows "k = length p \<and> (\<exists>r'. sc_read dec n r = (Inr (take n p), r') \<and> inp (raw r') = rest)"
  using sc_read_step[OF assms] assms(3) by (auto simp: sc_write_Inr)

theorem sc_read_short_buffer_witness:
  "\<exists>r'. sc_read example_dec 1
     (example_receiver (outp (raw (snd (sc_write example_enc [1, 2, 3] example_sender))) @ [9]))
     = (Inr [1], r') \<and> inp (raw r') = [9]"
proof -
  let ?s' = "snd (sc_write example_enc [1, 2, 3] example_sender)"
  let ?r = "example_receiver (outp (raw ?s') @ [9])"
  have w: "sc_write example_enc [1, 2, 3] example_sender = (Inr 3, ?s')"
    by (simp add: example_sender_def example_enc_def sc_write_def conn_write_def)
  have l: "sc_linked (=) example_sender ?r"
    by (simp add: sc_linked_def example_sender_def example_receiver_def)
  have "inp (raw ?r) = drop (length (outp (raw example_sender))) (outp (raw ?s')) @ [9]"
    by (simp add: example_sender_def example_receiver_def)
  from sc_read_short_buffer [OF example_cipher_ok l w _ this, of 1] show ?thesis
    by simp
qed

text \<open>
  An oversized write is not refused. When the ciphertext is longer than 65535 bytes,
  \<open>SecureConn.Write\<close> still reports all of \<open>p\<close> written, but the length on the wire is the
  length modulo 65536: a receiver either rejects the frame (length zero) or hands the
  decryption a proper prefix of the ciphertext, and goes on in the middle of it.
\<close>

theorem sc_write_oversize:
  assumes "send_cs s = Some a" and "enc a p = (Some ct, a')" and "65535 < length ct"
    and "length (frame ct) \<le> wcap (raw s)" and k: "k = length ct mod 65536"
    and "recv_cs r = Some b" and i: "inp (raw r) = frame ct @ rest"
  shows "(\<exists>s'. sc_write enc p s = (Inr (length p), s') \<and> outp (raw s') = outp (raw s) @ frame ct) \<and>
    k < length ct \<and>
    (\<exists>r'. if k = 0 then sc_read dec n r = (Inl (ScBadLen 0), r')
      else sc_read dec n r
             = (case fst (dec b (take k ct)) of None \<Rightarrow> Inl ScDecrypt | Some pl \<Rightarrow> Inr (take n pl), r') \<and>
           inp (raw r') = drop k ct @ rest)"
proof (intro conjI)
  show "\<exists>s'. sc_write enc p s = (Inr (length p), s') \<and> outp (raw s') = outp (raw s) @ frame ct"
    using assms(1-4) by (simp add: sc_write_Inr)
  show lt: "k < length ct"
    using assms(3) mod_less_divisor[of 65536 "length ct"] by (simp add: k)
  have 1: "read_full 2 (raw r) = (Inr (put16 (of_nat (length ct))), (raw r)\<lparr>inp := ct @ rest\<rparr>)"
    by (rule read_full_ok) (simp_all add: i frame_def)
  have 2: "read_full k ((raw r)\<lparr>inp := ct @ rest\<rparr>) = (Inr (take k ct), (raw r)\<lparr>inp := drop k ct @ rest\<rparr>)"
    using lt by (subst read_full_ok[of "take k ct" _ _ "drop k ct @ rest"]) simp_all
  show "\<exists>r'. if k = 0 then sc_read dec n r = (Inl (ScBadLen 0), r')
      else sc_read dec n r
             = (case fst (dec b (take k ct)) of None \<Rightarrow> Inl ScDecrypt | Some pl \<Rightarrow> Inr (take n pl), r') \<and>
           inp (raw r') = drop k ct @ rest"
  proof (cases "k = 0")
    case True
    then show ?thesis
      by (simp add: sc_read_def 1 put16_of_nat_read Let_def k[symmetric])
  next
    case False
    have "k \<le> 65535" by (simp add: k)
    with False show ?thesis
      using assms(6)
      by (cases "dec b (take k ct)"; cases "fst (dec b (take k ct))")
        (auto simp: sc_read_def 1 put16_of_nat_read Let_def k[symmetric] 2)
  qed
qed

theorem sc_write_oversize_witness:
  "\<exists>s'. sc_write example_enc (replicate 65600 0)
     (example_sender\<lparr>raw := \<lparr>inp = [], outp = [], wcap = 70000\<rparr>\<rparr>) = (Inr 65600, s')"
proof -
  let ?p = "replicate 65600 0 :: bytes" and ?s = "example_sender\<lparr>raw := \<lparr>inp = [], outp = [], wcap = 70000\<rparr>\<rparr>"
  let ?ct = "?p @ replicate 16 (of_nat 7)"
  have e: "send_cs ?s = Some 7" "example_enc 7 ?p = (Some ?ct, 8)" "65535 < length ?ct"
      "length (frame ?ct) \<le> wcap (raw ?s)"
    by (simp_all add: example_sender_def example_enc_def)
  have k: "80 = length ?ct mod 65536"
    by simp
  have r: "recv_cs (example_receiver (frame ?ct @ [])) = Some 7"
      "inp (raw (example_receiver (frame ?ct @ []))) = frame ?ct @ []"
    by (simp_all add: example_receiver_def)
  from sc_write_oversize [where enc = example_enc and p = ?p and s = ?s and ct = ?ct and a = 7 and b = 7 and rest = "[]"
      and r = "example_receiver (frame ?ct @ [])", OF e k r,
      THEN conjunct1]
  show ?thesis by (auto simp only: length_replicate)
qed

text \<open>
  The handshake package cannot use what the protocol package negotiates: the pattern of
  every profile negotiated from the default capabilities is rejected by \<open>NewState\<close>, and the
  AEAD is mapped to the ChaCha20-Poly1305 suite also when AES-256-GCM was agreed on.
\<close>

theorem negotiated_profile_unusable:
  assumes "negotiate_capabilities default_capabilities remote = Inr prof"
  shows "new_state noise_new (cfg\<lparr>hs_pattern := prof_pattern prof\<rparr>)
      = Inl (BadPattern (prof_pattern prof)) \<and>
    cipher_suite (prof_aead prof) = CipherChaChaPoly"
proof -
  have "prof_pattern prof \<in> set (handshake_modes default_capabilities)"
    and "prof_aead prof \<in> set (aead_suites default_capabilities)"
    using assms by (auto simp: negotiate_capabilities_Inr preferred_def)
  then show ?thesis
    by (auto simp: default_capabilities_def new_state_def pattern_def cipher_suite_def)
qed

theorem negotiated_profile_unusable_witness:
  "\<exists>prof. negotiate_capabilities default_capabilities
      (default_capabilities\<lparr>aead_suites := [''AES-256-GCM'']\<rparr>) = Inr prof \<and>
    prof_aead prof = ''AES-256-GCM'' \<and> cipher_suite (prof_aead prof) = CipherChaChaPoly"
proof -
  have n: "negotiate_capabilities default_capabilities
      (default_capabilities\<lparr>aead_suites := [''AES-256-GCM'']\<rparr>)
      = Inr \<lparr>prof_aead = ''AES-256-GCM'', prof_transport = ''QUIC'', prof_pattern = ''Noise_IK'',
             prof_version = ''securemesh/1''\<rparr>"
    by (simp add: negotiate_capabilities_def default_capabilities_def negotiate_aead_def
        negotiate_transport_def negotiate_noise_pattern_def)
  from negotiated_profile_unusable [OF n, THEN conjunct2] n show ?thesis
    by auto
qed

end
