(* ===== verification/Transport.thy ===== *)
theory Transport
  imports Framing
begin

text \<open>
  The two packet transports, \<^verbatim>\<open>transport/quic.go\<close> and \<^verbatim>\<open>transport/socks5_tls.go\<close>: the
  length-prefixed packets of a stream, dialling, the tracked stream that counts its close
  once, and the accept loops with their limit on active streams. The QUIC and TLS stacks are
  outside; whether a dial, a listen or an accept succeeds is an argument or a choice of the
  environment's step.
\<close>

section \<open>Packets\<close>

datatype pkt_err = PktReadLen io_err | PktBadLen nat | PktReadPayload io_err | PktWrite io_err

record packet_stream =
  ps_conn :: conn
  bytes_sent :: i64
  bytes_received :: i64

definition read_packet :: "packet_stream \<Rightarrow> (pkt_err + bytes) \<times> packet_stream" where
  "read_packet s =
     (case read_full 4 (ps_conn s) of
        (Inl e, c1) \<Rightarrow> (Inl (PktReadLen e), s\<lparr>ps_conn := c1\<rparr>)
      | (Inr b, c1) \<Rightarrow>
          let pkt_len = unat (be32 (b ! 0) (b ! 1) (b ! 2) (b ! 3))
          in if pkt_len = 0 \<or> pkt_len > 2 ^ 20
             then (Inl (PktBadLen pkt_len), s\<lparr>ps_conn := c1\<rparr>)
             else case read_full pkt_len c1 of
                    (Inl e, c2) \<Rightarrow> (Inl (PktReadPayload e), s\<lparr>ps_conn := c2\<rparr>)
                  | (Inr payload, c2) \<Rightarrow>
                      (Inr payload,
                       s\<lparr>ps_conn := c2,
                         bytes_received := bytes_received s + of_nat (pkt_len + 4)\<rparr>))"

definition write_packet :: "bytes \<Rightarrow> packet_stream \<Rightarrow> (pkt_err + unit) \<times> packet_stream" where
  "write_packet packet s =
     (let data = put32 (of_nat (length packet)) @ packet
      in case conn_write data (ps_conn s) of
           ((n, Some e), c') \<Rightarrow> (Inl (PktWrite e), s\<lparr>ps_conn := c'\<rparr>)
         | ((n, None), c') \<Rightarrow>
             (Inr (), s\<lparr>ps_conn := c', bytes_sent := bytes_sent s + of_nat n\<rparr>))"

text \<open>The SOCKS5-over-TLS stream has the same code over its own connection and statistics.\<close>

definition socks_read_packet :: "packet_stream \<Rightarrow> (pkt_err + bytes) \<times> packet_stream" where
  "socks_read_packet = read_packet"

definition socks_write_packet :: "bytes \<Rightarrow> packet_stream \<Rightarrow> (pkt_err + unit) \<times> packet_stream" where
  "socks_write_packet = write_packet"

definition packet_wire :: "bytes \<Rightarrow> bytes" where
  "packet_wire p = put32 (of_nat (length p)) @ p"

lemma length_packet_wire [simp]: "length (packet_wire p) = length p + 4"
  by (simp add: packet_wire_def)

lemma write_packet_Inr:
  "write_packet p s = (Inr u, s') \<longleftrightarrow>
   length (packet_wire p) \<le> wcap (ps_conn s) \<and>
   s' = s\<lparr>ps_conn := (ps_conn s)\<lparr>outp := outp (ps_conn s) @ packet_wire p,
             wcap := wcap (ps_conn s) - length (packet_wire p)\<rparr>,
          bytes_sent := bytes_sent s + of_nat (length p + 4)\<rparr>"
  by (auto simp: write_packet_def conn_write_def packet_wire_def Let_def)

lemma put32_read:
  "n < 2 ^ 32 \<Longrightarrow>
   unat (be32 (put32 (of_nat n) ! 0) (put32 (of_nat n) ! Suc 0) (put32 (of_nat n) ! 2) (put32 (of_nat n) ! 3)) = n"
  using unat_be32_put32_of_nat[of n] by (simp add: put32_def numeral_2_eq_2 numeral_3_eq_3)

lemma read_packet_header:
  assumes "inp (ps_conn s) = packet_wire p @ rest" and "length p < 2 ^ 32"
  shows "read_packet s =
    (if length p = 0 \<or> length p > 2 ^ 20
     then (Inl (PktBadLen (length p)), s\<lparr>ps_conn := (ps_conn s)\<lparr>inp := p @ rest\<rparr>\<rparr>)
     else (Inr p, s\<lparr>ps_conn := (ps_conn s)\<lparr>inp := rest\<rparr>,
                    bytes_received := bytes_received s + of_nat (length p + 4)\<rparr>))"
proof -
  have 1: "read_full 4 (ps_conn s) = (Inr (put32 (of_nat (length p))), (ps_conn s)\<lparr>inp := p @ rest\<rparr>)"
    by (rule read_full_ok) (simp_all add: assms(1) packet_wire_def)
  have 2: "read_full (length p) ((ps_conn s)\<lparr>inp := p @ rest\<rparr>) = (Inr p, (ps_conn s)\<lparr>inp := rest\<rparr>)"
    by (subst read_full_ok[OF refl, of _ p rest]) simp_all
  show ?thesis
    using assms(2) by (auto simp: read_packet_def 1 2 put32_read Let_def)
qed

interpretation packets: framing write_packet read_packet "\<lambda>s. outp (ps_conn s)" "\<lambda>r. inp (ps_conn r)"
  "\<lambda>s r. True" "\<lambda>p. 0 < length p \<and> length p \<le> 2 ^ 20"
proof
  fix m s x s'
  assume w: "write_packet m s = (Inr x, s')" and m: "0 < length m \<and> length m \<le> 2 ^ 20"
  have "\<exists>r'. read_packet r = (Inr m, r') \<and> inp (ps_conn r') = rest"
    if "inp (ps_conn r) = packet_wire m @ rest" for r rest
    using read_packet_header[OF that] m by auto
  then show "\<exists>f. f \<noteq> [] \<and> outp (ps_conn s') = outp (ps_conn s) @ f \<and>
      (\<forall>r rest. True \<longrightarrow> inp (ps_conn r) = f @ rest \<longrightarrow>
         (\<exists>r'. read_packet r = (Inr m, r') \<and> inp (ps_conn r') = rest \<and> True))"
    using w by (intro exI[of _ "packet_wire m"]) (auto simp: write_packet_Inr packet_wire_def put32_def)
next
  fix r :: packet_stream
  assume "inp (ps_conn r) = []"
  then show "\<exists>e r'. read_packet r = (Inl e, r')"
    by (simp add: read_packet_def read_full_def)
qed

text \<open>
  C22. Packets survive the stream. If writing packets of 1 byte to 1 MiB succeeds, reading as
  many packets from what was written returns them in order and leaves what followed; both
  transports have this code.
\<close>

theorem packets_roundtrip:
  assumes "send_list write_packet ps s = (Inr (), s')"
    and "\<forall>p \<in> set ps. 0 < length p \<and> length p \<le> 2 ^ 20"
  shows "\<exists>f. outp (ps_conn s') = outp (ps_conn s) @ f \<and>
    (\<forall>r rest. inp (ps_conn r) = f @ rest \<longrightarrow>
      (\<exists>r'. recv_list read_packet (length ps) r = (Inr ps, r') \<and> inp (ps_conn r') = rest))"
  using packets.roundtrip[OF assms] by simp

theorem packets_roundtrip_witness:
  "\<exists>f r'. outp (ps_conn (snd (send_list write_packet [[1], [2, 3]]
       \<lparr>ps_conn = \<lparr>inp = [], outp = [], wcap = 20\<rparr>, bytes_sent = 0, bytes_received = 0\<rparr>))) = f \<and>
     recv_list read_packet 2
       \<lparr>ps_conn = \<lparr>inp = f, outp = [], wcap = 0\<rparr>, bytes_sent = 0, bytes_received = 0\<rparr>
       = (Inr [[1], [2, 3]], r')"
proof -
  let ?s = "\<lparr>ps_conn = \<lparr>inp = [], outp = [], wcap = 20\<rparr>, bytes_sent = 0, bytes_received = 0\<rparr>"
    and ?ps = "[[1], [2, 3]] :: bytes list"
  obtain s' where s': "send_list write_packet ?ps ?s = (Inr (), s')"
    by (simp add: write_packet_def conn_write_def Let_def)
  have "\<forall>p \<in> set ?ps. 0 < length p \<and> length p \<le> 2 ^ 20"
    by simp
  from packets_roundtrip [OF s' this] obtain f where f: "outp (ps_conn s') = f"
    and r: "\<And>r rest. inp (ps_conn r) = f @ rest \<Longrightarrow>
      \<exists>r'. recv_list read_packet 2 r = (Inr ?ps, r') \<and> inp (ps_conn r') = rest"
    by (auto simp: numeral_2_eq_2)
  show ?thesis
    using s' f r[of "\<lparr>ps_conn = \<lparr>inp = f, outp = [], wcap = 0\<rparr>, bytes_sent = 0, bytes_received = 0\<rparr>" "[]"]
    by auto
qed

text \<open>
  \<open>WritePacket\<close> accepts packets that \<open>ReadPacket\<close> refuses: an empty packet, or one over
  1 MiB, is written with success; the reader returns an error and leaves the payload on the
  stream, where the next read takes its first bytes for a length.
\<close>

theorem write_packet_unreadable:
  assumes "length p = 0 \<or> 2 ^ 20 < length p" and "length p < 2 ^ 32"
    and "length p + 4 \<le> wcap (ps_conn s)"
    and "inp (ps_conn r) = packet_wire p @ rest"
  shows "(\<exists>s'. write_packet p s = (Inr (), s') \<and>
      outp (ps_conn s') = outp (ps_conn s) @ packet_wire p) \<and>
    (\<exists>r'. read_packet r = (Inl (PktBadLen (length p)), r') \<and> inp (ps_conn r') = p @ rest)"
  using assms(1,3) read_packet_header[OF assms(4,2)] by (auto simp: write_packet_Inr)

theorem write_packet_unreadable_witness:
  "\<exists>r'. read_packet \<lparr>ps_conn = \<lparr>inp = packet_wire [] @ [9], outp = [], wcap = 0\<rparr>,
      bytes_sent = 0, bytes_received = 0\<rparr> = (Inl (PktBadLen 0), r') \<and> inp (ps_conn r') = [9]"
  using write_packet_unreadable [of "[]"
      "\<lparr>ps_conn = \<lparr>inp = [], outp = [], wcap = 4\<rparr>, bytes_sent = 0, bytes_received = 0\<rparr>"
      "\<lparr>ps_conn = \<lparr>inp = packet_wire [] @ [9], outp = [], wcap = 0\<rparr>, bytes_sent = 0, bytes_received = 0\<rparr>"
      "[9]"]
  by simp

section \<open>Configuration and dialling\<close>

text \<open>Durations are in seconds; the TLS configuration is present or absent.\<close>

record quic_config =
  q_bind_address :: string
  q_tls :: bool
  q_max_streams :: nat
  q_idle_timeout :: nat
  q_keep_alive :: nat
  q_handshake_timeout :: nat
  q_enable_migration :: bool

definition default_quic_config :: quic_config where
  "default_quic_config =
     \<lparr>q_bind_address = ''0.0.0.0:4433'', q_tls = False, q_max_streams = 256, q_idle_timeout = 30,
      q_keep_alive = 10, q_handshake_timeout = 10, q_enable_migration = True\<rparr>"

record socks_tls_config =
  s_bind_address :: string
  s_tls :: bool
  s_max_connections :: nat
  s_dial_timeout :: nat
  s_handshake_timeout :: nat

definition default_socks_tls_config :: socks_tls_config where
  "default_socks_tls_config =
     \<lparr>s_bind_address = ''127.0.0.1:1080'', s_tls = False, s_max_connections = 256,
      s_dial_timeout = 30, s_handshake_timeout = 10\<rparr>"

text \<open>
  What both transports count and hold: the atomic counters, the streams (numbered in the
  order of their creation) whose close has not been counted yet, those accepted and those
  dialled, and the channel of accepted streams with its capacity.
\<close>

record transport_state =
  active :: int
  total :: int
  handshake_errors :: int
  stream_errors :: int
  next_id :: nat
  live_in :: "nat set"
  live_out :: "nat set"
  chan :: "nat list"
  chan_closed :: bool
  cancelled :: bool

definition transport_start :: transport_state where
  "transport_start = \<lparr>active = 0, total = 0, handshake_errors = 0, stream_errors = 0, next_id = 0,
     live_in = {}, live_out = {}, chan = [], chan_closed = False, cancelled = False\<rparr>"

datatype transport_err = TLSConfigRequired | DialFailed | OpenStreamFailed | ListenFailed

definition socks_dial ::
  "socks_tls_config \<Rightarrow> bool \<Rightarrow> transport_state \<Rightarrow> (transport_err + nat) \<times> transport_state" where
  "socks_dial cfg dial_ok s =
     (if \<not> s_tls cfg then (Inl TLSConfigRequired, s)
      else if \<not> dial_ok then (Inl DialFailed, s\<lparr>handshake_errors := handshake_errors s + 1\<rparr>)
      else (Inr (next_id s),
            s\<lparr>total := total s + 1, active := active s + 1,
              next_id := next_id s + 1, live_out := insert (next_id s) (live_out s)\<rparr>))"

definition quic_dial ::
  "quic_config \<Rightarrow> bool \<Rightarrow> bool \<Rightarrow> transport_state \<Rightarrow> (transport_err + nat) \<times> transport_state" where
  "quic_dial cfg dial_ok open_ok s =
     (if \<not> q_tls cfg then (Inl TLSConfigRequired, s)
      else if \<not> dial_ok then (Inl DialFailed, s\<lparr>handshake_errors := handshake_errors s + 1\<rparr>)
      else if \<not> open_ok then (Inl OpenStreamFailed, s)
      else (Inr (next_id s),
            s\<lparr>total := total s + 1, active := active s + 1,
              next_id := next_id s + 1, live_out := insert (next_id s) (live_out s)\<rparr>))"

text \<open>Accepting a stream: the counters go up and a tracked stream is made.\<close>

definition admit :: "transport_state \<Rightarrow> transport_state" where
  "admit s = s\<lparr>total := total s + 1, active := active s + 1,
     next_id := next_id s + 1, live_in := insert (next_id s) (live_in s)\<rparr>"

text \<open>\<^verbatim>\<open>trackedStream.Close\<close>: \<^verbatim>\<open>onClose\<close> runs at the first call only.\<close>

definition tracked_close :: "nat \<Rightarrow> transport_state \<Rightarrow> transport_state" where
  "tracked_close i s =
     (if i \<in> live_in s \<or> i \<in> live_out s
      then s\<lparr>active := active s - 1, live_in := live_in s - {i}, live_out := live_out s - {i}\<rparr>
      else s)"

section \<open>The SOCKS5-over-TLS accept loop\<close>

text \<open>
  One goroutine accepts, checks the limit, counts and sends the stream to the channel; the
  consumer receives and closes streams, and other goroutines dial, at any time in between.
\<close>

datatype accept_pc = AAccept | ACheck | ACount | ASend nat | ADone

record socks_listener =
  sk :: transport_state
  sk_pc :: accept_pc

inductive socks_step :: "socks_tls_config \<Rightarrow> socks_listener \<Rightarrow> socks_listener \<Rightarrow> bool"
  for cfg where
  accept: "sk_pc s = AAccept \<Longrightarrow> socks_step cfg s (s\<lparr>sk_pc := ACheck\<rparr>)"
| accept_error: "sk_pc s = AAccept \<Longrightarrow> \<not> cancelled (sk s) \<Longrightarrow>
    socks_step cfg s (s\<lparr>sk := (sk s)\<lparr>handshake_errors := handshake_errors (sk s) + 1\<rparr>\<rparr>)"
| accept_stop: "sk_pc s = AAccept \<Longrightarrow> cancelled (sk s) \<Longrightarrow>
    socks_step cfg s (s\<lparr>sk := (sk s)\<lparr>chan_closed := True\<rparr>, sk_pc := ADone\<rparr>)"
| reject: "sk_pc s = ACheck \<Longrightarrow> active (sk s) \<ge> int (s_max_connections cfg) \<Longrightarrow>
    socks_step cfg s (s\<lparr>sk_pc := AAccept\<rparr>)"
| pass: "sk_pc s = ACheck \<Longrightarrow> active (sk s) < int (s_max_connections cfg) \<Longrightarrow>
    socks_step cfg s (s\<lparr>sk_pc := ACount\<rparr>)"
| count: "sk_pc s = ACount \<Longrightarrow>
    socks_step cfg s (s\<lparr>sk := admit (sk s), sk_pc := ASend (next_id (sk s))\<rparr>)"
| send: "sk_pc s = ASend i \<Longrightarrow> length (chan (sk s)) < s_max_connections cfg \<Longrightarrow>
    socks_step cfg s (s\<lparr>sk := (sk s)\<lparr>chan := chan (sk s) @ [i]\<rparr>, sk_pc := AAccept\<rparr>)"
| send_cancelled: "sk_pc s = ASend i \<Longrightarrow> cancelled (sk s) \<Longrightarrow>
    socks_step cfg s (s\<lparr>sk := (tracked_close i (sk s))\<lparr>chan_closed := True\<rparr>, sk_pc := ADone\<rparr>)"
| receive: "chan (sk s) = i # is \<Longrightarrow> socks_step cfg s (s\<lparr>sk := (sk s)\<lparr>chan := is\<rparr>\<rparr>)"
| close: "i \<notin> set (chan (sk s)) \<Longrightarrow> sk_pc s \<noteq> ASend i \<Longrightarrow>
    socks_step cfg s (s\<lparr>sk := tracked_close i (sk s)\<rparr>)"
| dial: "socks_dial cfg ok (sk s) = (r, t) \<Longrightarrow> socks_step cfg s (s\<lparr>sk := t\<rparr>)"
| cancel: "socks_step cfg s (s\<lparr>sk := (sk s)\<lparr>cancelled := True\<rparr>\<rparr>)"

text \<open>\<^verbatim>\<open>Listen\<close> starts the loop, or fails without a TLS configuration or a socket.\<close>

definition socks_listen :: "socks_tls_config \<Rightarrow> bool \<Rightarrow> transport_err + socks_listener" where
  "socks_listen cfg listen_ok =
     (if \<not> s_tls cfg then Inl TLSConfigRequired
      else if \<not> listen_ok then Inl ListenFailed
      else Inr \<lparr>sk = transport_start, sk_pc = AAccept\<rparr>)"

definition accounted :: "transport_state \<Rightarrow> bool" where
  "accounted s \<longleftrightarrow>
     finite (live_in s) \<and> finite (live_out s) \<and> live_in s \<inter> live_out s = {} \<and>
     (\<forall>i \<in> live_in s \<union> live_out s. i < next_id s) \<and>
     active s = int (card (live_in s)) + int (card (live_out s)) \<and>
     distinct (chan s) \<and> set (chan s) \<subseteq> live_in s"

lemma accounted_start: "accounted transport_start"
  by (simp add: accounted_def transport_start_def)

lemma accounted_fresh:
  "accounted s \<Longrightarrow> next_id s \<notin> live_in s \<and> next_id s \<notin> live_out s \<and> next_id s \<notin> set (chan s)"
  by (auto simp: accounted_def)

lemma accounted_admit: "accounted s \<Longrightarrow> accounted (admit s)"
  using accounted_fresh[of s] by (auto simp: accounted_def admit_def less_Suc_eq)

lemma accounted_socks_dial: "accounted s \<Longrightarrow> accounted (snd (socks_dial cfg ok s))"
  using accounted_fresh[of s] by (auto simp: accounted_def socks_dial_def less_Suc_eq)

lemma accounted_quic_dial: "accounted s \<Longrightarrow> accounted (snd (quic_dial cfg ok1 ok2 s))"
  using accounted_fresh[of s] by (auto simp: accounted_def quic_dial_def less_Suc_eq)

lemma card_remove: "finite A \<Longrightarrow> i \<in> A \<Longrightarrow> int (card (A - {i})) = int (card A) - 1"
  using card_Suc_Diff1[of A i] by linarith

lemma accounted_close:
  assumes s: "accounted s" and i: "i \<notin> set (chan s)"
  shows "accounted (tracked_close i s)"
proof -
  consider "i \<in> live_in s" "live_out s - {i} = live_out s"
    | "i \<in> live_out s" "live_in s - {i} = live_in s" | "i \<notin> live_in s" "i \<notin> live_out s"
    using s unfolding accounted_def by blast
  then show ?thesis
  proof cases
    case 1
    then have "int (card (live_in s - {i})) = int (card (live_in s)) - 1"
      using s by (intro card_remove) (auto simp: accounted_def)
    with 1 s i show ?thesis
      by (auto simp: accounted_def tracked_close_def simp del: card_Diff_insert)
  next
    case 2
    then have "int (card (live_out s - {i})) = int (card (live_out s)) - 1"
      using s by (intro card_remove) (auto simp: accounted_def)
    with 2 s i show ?thesis
      by (auto simp: accounted_def tracked_close_def simp del: card_Diff_insert)
  qed (use s in \<open>simp add: tracked_close_def\<close>)
qed

lemma tracked_close_subset:
  "live_in (tracked_close i s) \<subseteq> live_in s" "i \<notin> live_in (tracked_close i s)"
  "chan (tracked_close i s) = chan s" "cancelled (tracked_close i s) = cancelled s"
  "chan_closed (tracked_close i s) = chan_closed s"
  "j \<noteq> i \<Longrightarrow> j \<in> live_in (tracked_close i s) \<longleftrightarrow> j \<in> live_in s"
  by (auto simp: tracked_close_def)

lemma accounted_chan_bound:
  "accounted s \<Longrightarrow> length (chan s) \<le> card (live_in s)"
  by (metis accounted_def card_mono distinct_card)

lemma accounted_chan_bound_strict:
  assumes "accounted s" and "i \<in> live_in s" and "i \<notin> set (chan s)"
  shows "length (chan s) < card (live_in s)"
proof -
  have "set (chan s) \<subset> live_in s" "finite (live_in s)" "distinct (chan s)"
    using assms by (auto simp: accounted_def)
  then show ?thesis
    by (metis distinct_card psubset_card_mono)
qed

definition socks_inv :: "socks_tls_config \<Rightarrow> socks_listener \<Rightarrow> bool" where
  "socks_inv cfg s \<longleftrightarrow> accounted (sk s) \<and>
     card (live_in (sk s)) + (if sk_pc s = ACount then 1 else 0) \<le> s_max_connections cfg \<and>
     (\<forall>i. sk_pc s = ASend i \<longrightarrow> i \<in> live_in (sk s) \<and> i \<notin> set (chan (sk s))) \<and>
     (chan_closed (sk s) \<longrightarrow> sk_pc s = ADone)"

lemma accounted_simps [simp]:
  "accounted (s\<lparr>handshake_errors := a\<rparr>) = accounted s"
  "accounted (s\<lparr>stream_errors := a\<rparr>) = accounted s"
  "accounted (s\<lparr>cancelled := b\<rparr>) = accounted s"
  "accounted (s\<lparr>chan_closed := b\<rparr>) = accounted s"
  by (simp_all add: accounted_def)

lemma accounted_active: "accounted s \<Longrightarrow> int (card (live_in s)) \<le> active s"
  by (simp add: accounted_def)

lemma card_live_admit: "accounted s \<Longrightarrow> card (live_in (admit s)) = Suc (card (live_in s))"
  using accounted_fresh[of s] by (simp add: admit_def accounted_def)

lemma socks_dial_frame:
  "socks_dial cfg ok s = (r, t) \<Longrightarrow> live_in t = live_in s \<and> chan t = chan s \<and>
   chan_closed t = chan_closed s \<and> cancelled t = cancelled s"
  by (auto simp: socks_dial_def split: if_splits)

lemma quic_dial_frame:
  "quic_dial cfg ok1 ok2 s = (r, t) \<Longrightarrow> live_in t = live_in s \<and> chan t = chan s \<and>
   chan_closed t = chan_closed s \<and> cancelled t = cancelled s"
  by (auto simp: quic_dial_def split: if_splits)

lemma card_live_close: "accounted s \<Longrightarrow> card (live_in (tracked_close i s)) \<le> card (live_in s)"
  using tracked_close_subset(1) by (intro card_mono) (auto simp: accounted_def)

lemma socks_inv_step:
  assumes i: "socks_inv cfg s" and s: "socks_step cfg s t"
  shows "socks_inv cfg t"
  using s
proof cases
  case count
  then show ?thesis
    using i accounted_fresh[of "sk s"] card_live_admit[of "sk s"]
    by (auto simp: socks_inv_def accounted_admit) (simp_all add: admit_def)
next
  case (send i)
  then show ?thesis
    using i by (auto simp: socks_inv_def accounted_def)
next
  case (send_cancelled i)
  then show ?thesis
    using i card_live_close[of "sk s" i] by (auto simp: socks_inv_def accounted_close)
next
  case (receive i js)
  then show ?thesis
    using i by (auto simp: socks_inv_def accounted_def)
next
  case (close i)
  then show ?thesis
    using i card_live_close[of "sk s" i]
    by (auto simp: socks_inv_def accounted_close tracked_close_subset)
next
  case (dial ok r u)
  then show ?thesis
    using i accounted_socks_dial[of "sk s" cfg ok] socks_dial_frame[OF dial(2)]
    by (simp add: socks_inv_def)
next
  case pass
  then show ?thesis
    using i accounted_active[of "sk s"] by (auto simp: socks_inv_def)
qed (use i in \<open>auto simp: socks_inv_def\<close>)

interpretation socks_ts: transition_system
  "\<lambda>s. \<exists>ok. socks_listen cfg ok = Inr s" "socks_step cfg" "socks_inv cfg" for cfg
proof
  show "\<exists>ok. socks_listen cfg ok = Inr s \<Longrightarrow> socks_inv cfg s" for s
    by (auto simp: socks_listen_def socks_inv_def accounted_start split: if_splits)
      (simp_all add: transport_start_def)
qed (rule socks_inv_step)

text \<open>
  C23. The SOCKS5-over-TLS listener keeps its limit. In every state the loop can reach,
  \<open>ActiveConnections\<close> counts exactly the streams whose close has not run yet, at most
  \<open>MaxConnections\<close> of them accepted ones, whatever is dialled and closed meanwhile (closing
  twice included); handing an accepted stream over never finds the channel full, and never
  finds it closed.
\<close>

theorem socks_listener_bound:
  assumes "socks_listen cfg ok = Inr s0" and "(socks_step cfg)\<^sup>*\<^sup>* s0 s"
  shows "active (sk s) = int (card (live_in (sk s))) + int (card (live_out (sk s))) \<and>
    card (live_in (sk s)) \<le> s_max_connections cfg \<and> set (chan (sk s)) \<subseteq> live_in (sk s) \<and>
    (\<forall>i. sk_pc s = ASend i \<longrightarrow>
       length (chan (sk s)) < s_max_connections cfg \<and> \<not> chan_closed (sk s))"
proof -
  have i: "socks_inv cfg s"
    using socks_ts.inv_reachable assms by blast
  have "length (chan (sk s)) < card (live_in (sk s))" if "sk_pc s = ASend j" for j
    using i that accounted_chan_bound_strict[of "sk s" j] by (simp add: socks_inv_def)
  with i show ?thesis
    by (auto simp: socks_inv_def accounted_def)
qed

theorem socks_listener_bound_witness:
  "\<exists>s. socks_listen (default_socks_tls_config\<lparr>s_tls := True\<rparr>) True = Inr s \<and> active (sk s) = 0"
proof -
  let ?s = "\<lparr>sk = transport_start, sk_pc = AAccept\<rparr>"
  have s: "socks_listen (default_socks_tls_config\<lparr>s_tls := True\<rparr>) True = Inr ?s"
    by (simp add: socks_listen_def)
  from socks_listener_bound [OF s rtranclp.rtrancl_refl] s show ?thesis
    by (auto simp: transport_start_def)
qed

section \<open>The QUIC accept loops\<close>

text \<open>
  Here every accepted connection gets a goroutine of its own that accepts streams, checks
  the limit, counts and sends, so the check and the count of different connections can
  interleave; and the goroutine that accepts connections closes the channel when it stops.
\<close>

record quic_listener =
  qk :: transport_state
  q_accepting :: bool
  q_workers :: "accept_pc list"
  q_panicked :: bool

inductive quic_step :: "quic_config \<Rightarrow> quic_listener \<Rightarrow> quic_listener \<Rightarrow> bool"
  for cfg where
  accept_conn: "q_accepting s \<Longrightarrow> quic_step cfg s (s\<lparr>q_workers := q_workers s @ [AAccept]\<rparr>)"
| accept_error: "q_accepting s \<Longrightarrow> \<not> cancelled (qk s) \<Longrightarrow>
    quic_step cfg s (s\<lparr>qk := (qk s)\<lparr>handshake_errors := handshake_errors (qk s) + 1\<rparr>\<rparr>)"
| accept_stop: "q_accepting s \<Longrightarrow> cancelled (qk s) \<Longrightarrow>
    quic_step cfg s (s\<lparr>qk := (qk s)\<lparr>chan_closed := True\<rparr>, q_accepting := False\<rparr>)"
| accept_stream: "w < length (q_workers s) \<Longrightarrow> q_workers s ! w = AAccept \<Longrightarrow>
    quic_step cfg s (s\<lparr>q_workers := (q_workers s)[w := ACheck]\<rparr>)"
| stream_error: "w < length (q_workers s) \<Longrightarrow> q_workers s ! w = AAccept \<Longrightarrow>
    quic_step cfg s (s\<lparr>q_workers := (q_workers s)[w := ADone]\<rparr>)"
| reject: "w < length (q_workers s) \<Longrightarrow> q_workers s ! w = ACheck \<Longrightarrow>
    active (qk s) \<ge> int (q_max_streams cfg) \<Longrightarrow>
    quic_step cfg s (s\<lparr>qk := (qk s)\<lparr>stream_errors := stream_errors (qk s) + 1\<rparr>,
                       q_workers := (q_workers s)[w := AAccept]\<rparr>)"
| pass: "w < length (q_workers s) \<Longrightarrow> q_workers s ! w = ACheck \<Longrightarrow>
    active (qk s) < int (q_max_streams cfg) \<Longrightarrow>
    quic_step cfg s (s\<lparr>q_workers := (q_workers s)[w := ACount]\<rparr>)"
| count: "w < length (q_workers s) \<Longrightarrow> q_workers s ! w = ACount \<Longrightarrow>
    quic_step cfg s (s\<lparr>qk := admit (qk s), q_workers := (q_workers s)[w := ASend (next_id (qk s))]\<rparr>)"
| send: "w < length (q_workers s) \<Longrightarrow> q_workers s ! w = ASend i \<Longrightarrow>
    \<not> chan_closed (qk s) \<Longrightarrow> length (chan (qk s)) < q_max_streams cfg \<Longrightarrow>
    quic_step cfg s (s\<lparr>qk := (qk s)\<lparr>chan := chan (qk s) @ [i]\<rparr>, q_workers := (q_workers s)[w := AAccept]\<rparr>)"
| send_panic: "w < length (q_workers s) \<Longrightarrow> q_workers s ! w = ASend i \<Longrightarrow> chan_closed (qk s) \<Longrightarrow>
    quic_step cfg s (s\<lparr>q_panicked := True\<rparr>)"
| send_cancelled: "w < length (q_workers s) \<Longrightarrow> q_workers s ! w = ASend i \<Longrightarrow> cancelled (qk s) \<Longrightarrow>
    quic_step cfg s (s\<lparr>qk := tracked_close i (qk s), q_workers := (q_workers s)[w := ADone]\<rparr>)"
| receive: "chan (qk s) = i # is \<Longrightarrow> quic_step cfg s (s\<lparr>qk := (qk s)\<lparr>chan := is\<rparr>\<rparr>)"
| close: "i \<notin> set (chan (qk s)) \<Longrightarrow> ASend i \<notin> set (q_workers s) \<Longrightarrow>
    quic_step cfg s (s\<lparr>qk := tracked_close i (qk s)\<rparr>)"
| dial: "quic_dial cfg ok1 ok2 (qk s) = (r, t) \<Longrightarrow> quic_step cfg s (s\<lparr>qk := t\<rparr>)"
| cancel: "quic_step cfg s (s\<lparr>qk := (qk s)\<lparr>cancelled := True\<rparr>\<rparr>)"

definition quic_listen :: "quic_config \<Rightarrow> bool \<Rightarrow> transport_err + quic_listener" where
  "quic_listen cfg listen_ok =
     (if \<not> q_tls cfg then Inl TLSConfigRequired
      else if \<not> listen_ok then Inl ListenFailed
      else Inr \<lparr>qk = transport_start, q_accepting = True, q_workers = [], q_panicked = False\<rparr>)"

definition counting :: "accept_pc list \<Rightarrow> nat" where
  "counting ws = count_list ws ACount"

definition sends :: "accept_pc list \<Rightarrow> nat list" where
  "sends ws = List.map_filter (\<lambda>p. case p of ASend i \<Rightarrow> Some i | _ \<Rightarrow> None) ws"

lemma sends_append [simp]: "sends (xs @ ys) = sends xs @ sends ys"
  by (simp add: sends_def List.map_filter_def)

lemma sends_Cons [simp]: "sends (p # ys) = (case p of ASend i \<Rightarrow> i # sends ys | _ \<Rightarrow> sends ys)"
  by (simp add: sends_def List.map_filter_simps split: accept_pc.split)

lemma sends_Nil [simp]: "sends [] = []"
  by (simp add: sends_def List.map_filter_simps)

lemma counting_simps [simp]:
  "counting [] = 0" "counting (xs @ ys) = counting xs + counting ys"
  "counting (p # ys) = (if p = ACount then 1 else 0) + counting ys"
  by (simp_all add: counting_def)

lemma counting_length: "counting ws \<le> length ws"
  by (simp add: counting_def count_le_length)

lemma set_sends: "i \<in> set (sends ws) \<longleftrightarrow> ASend i \<in> set ws"
  by (induction ws) (auto split: accept_pc.split)

lemma worker_split:
  assumes "w < length ws" and "ws ! w = q"
  shows "\<exists>xs ys. ws = xs @ q # ys \<and> (\<forall>p. ws[w := p] = xs @ p # ys)"
  using assms id_take_nth_drop[of w ws] upd_conv_take_nth_drop[of w ws] by metis

text \<open>
  The streams in the channel and those the workers are about to send are different and
  accepted; between the check and the count of a stream there is at most one per worker.
\<close>

definition quic_inv :: "quic_config \<Rightarrow> quic_listener \<Rightarrow> bool" where
  "quic_inv cfg s \<longleftrightarrow> accounted (qk s) \<and>
     distinct (chan (qk s) @ sends (q_workers s)) \<and> set (sends (q_workers s)) \<subseteq> live_in (qk s) \<and>
     card (live_in (qk s)) + counting (q_workers s) + 1
       \<le> q_max_streams cfg + max 1 (length (q_workers s))"

lemma quic_inv_step:
  assumes i: "quic_inv cfg s" and s: "quic_step cfg s t"
  shows "quic_inv cfg t"
  using s
proof cases
  case accept_conn
  with i show ?thesis by (simp add: quic_inv_def max_def split: if_splits)
next
  case (accept_stream w)
  obtain xs ys where "q_workers s = xs @ AAccept # ys" "\<And>p. (q_workers s)[w := p] = xs @ p # ys"
    using worker_split[OF accept_stream(2,3)] by blast
  with i accept_stream show ?thesis by (simp add: quic_inv_def)
next
  case (stream_error w)
  obtain xs ys where "q_workers s = xs @ AAccept # ys" "\<And>p. (q_workers s)[w := p] = xs @ p # ys"
    using worker_split[OF stream_error(2,3)] by blast
  with i stream_error show ?thesis by (simp add: quic_inv_def)
next
  case (reject w)
  obtain xs ys where "q_workers s = xs @ ACheck # ys" "\<And>p. (q_workers s)[w := p] = xs @ p # ys"
    using worker_split[OF reject(2,3)] by blast
  with i reject show ?thesis by (simp add: quic_inv_def)
next
  case (pass w)
  obtain xs ys where w: "q_workers s = xs @ ACheck # ys" "\<And>p. (q_workers s)[w := p] = xs @ p # ys"
    using worker_split[OF pass(2,3)] by blast
  have "card (live_in (qk s)) < q_max_streams cfg"
    using i pass accounted_active[of "qk s"] by (simp add: quic_inv_def)
  with i pass w counting_length[of xs] counting_length[of ys] show ?thesis
    by (simp add: quic_inv_def)
next
  case (count w)
  obtain xs ys where w: "q_workers s = xs @ ACount # ys" "\<And>p. (q_workers s)[w := p] = xs @ p # ys"
    using worker_split[OF count(2,3)] by blast
  have "next_id (qk s) \<notin> live_in (qk s)" "next_id (qk s) \<notin> set (chan (qk s))"
    using i accounted_fresh[of "qk s"] by (simp_all add: quic_inv_def)
  with i count w card_live_admit[of "qk s"] show ?thesis
    by (auto simp: quic_inv_def accounted_admit) (auto simp: admit_def)
next
  case (send w j)
  obtain xs ys where "q_workers s = xs @ ASend j # ys" "\<And>p. (q_workers s)[w := p] = xs @ p # ys"
    using worker_split[OF send(2,3)] by blast
  with i send show ?thesis by (auto simp: quic_inv_def accounted_def)
next
  case (send_cancelled w j)
  obtain xs ys where w: "q_workers s = xs @ ASend j # ys" "\<And>p. (q_workers s)[w := p] = xs @ p # ys"
    using worker_split[OF send_cancelled(2,3)] by blast
  with i have "j \<notin> set (chan (qk s))" "\<forall>x \<in> set (sends xs) \<union> set (sends ys). x \<noteq> j"
    by (auto simp: quic_inv_def)
  with i send_cancelled w card_live_close[of "qk s" j] show ?thesis
    by (auto simp: quic_inv_def accounted_close tracked_close_subset)
next
  case (receive j js)
  with i show ?thesis by (auto simp: quic_inv_def accounted_def)
next
  case (close j)
  then have "\<forall>x \<in> set (sends (q_workers s)). x \<noteq> j"
    by (auto simp: set_sends)
  with i close card_live_close[of "qk s" j] show ?thesis
    by (auto simp: quic_inv_def accounted_close tracked_close_subset)
next
  case (dial ok1 ok2 r u)
  with i accounted_quic_dial[of "qk s" cfg ok1 ok2] quic_dial_frame[OF dial(2)] show ?thesis
    by (simp add: quic_inv_def)
qed (use i in \<open>simp_all add: quic_inv_def\<close>)

interpretation quic_ts: transition_system
  "\<lambda>s. \<exists>ok. quic_listen cfg ok = Inr s" "quic_step cfg" "quic_inv cfg" for cfg
proof
  show "\<exists>ok. quic_listen cfg ok = Inr s \<Longrightarrow> quic_inv cfg s" for s
    by (auto simp: quic_listen_def quic_inv_def accounted_start split: if_splits)
      (simp_all add: transport_start_def)
qed (rule quic_inv_step)

text \<open>
  C24. The QUIC listener keeps its books but not its limit: in every reachable state
  \<open>ActiveStreams\<close> counts the streams whose close has not run, and the accepted ones are
  bounded by \<open>MaxStreams\<close> plus one less than the number of connections accepted so far.
\<close>

theorem quic_listener_bound:
  assumes "quic_listen cfg ok = Inr s0" and "(quic_step cfg)\<^sup>*\<^sup>* s0 s"
  shows "active (qk s) = int (card (live_in (qk s))) + int (card (live_out (qk s))) \<and>
    card (live_in (qk s)) + 1 \<le> q_max_streams cfg + max 1 (length (q_workers s))"
proof -
  have "quic_inv cfg s"
    using quic_ts.inv_reachable assms by blast
  then show ?thesis
    by (auto simp: quic_inv_def accounted_def)
qed

theorem quic_listener_bound_witness:
  "\<exists>s. quic_listen (default_quic_config\<lparr>q_tls := True\<rparr>) True = Inr s \<and> active (qk s) = 0"
proof -
  let ?s = "\<lparr>qk = transport_start, q_accepting = True, q_workers = [], q_panicked = False\<rparr>"
  have s: "quic_listen (default_quic_config\<lparr>q_tls := True\<rparr>) True = Inr ?s"
    by (simp add: quic_listen_def)
  from quic_listener_bound [OF s rtranclp.rtrancl_refl] s show ?thesis
    by (auto simp: transport_start_def)
qed

text \<open>
  The bound of the QUIC listener is reached: with a limit of one stream, two connections
  that pass the check before either counts leave two active streams.
\<close>

theorem quic_limit_exceeded:
  "\<exists>s0 s. quic_listen (default_quic_config\<lparr>q_tls := True, q_max_streams := 1\<rparr>) True = Inr s0 \<and>
      (quic_step (default_quic_config\<lparr>q_tls := True, q_max_streams := 1\<rparr>))\<^sup>*\<^sup>* s0 s \<and>
      active (qk s) = 2 \<and> live_out (qk s) = {}"
proof -
  let ?cfg = "default_quic_config\<lparr>q_tls := True, q_max_streams := 1\<rparr>"
  let ?s = "\<lambda>t ws. \<lparr>qk = t, q_accepting = True, q_workers = ws, q_panicked = False\<rparr>"
  let ?t = transport_start
  have 1: "quic_step ?cfg (?s ?t []) (?s ?t [AAccept])"
    using quic_step.accept_conn[of "?s ?t []" ?cfg] by simp
  have 2: "quic_step ?cfg (?s ?t [AAccept]) (?s ?t [AAccept, AAccept])"
    using quic_step.accept_conn[of "?s ?t [AAccept]" ?cfg] by simp
  have 3: "quic_step ?cfg (?s ?t [AAccept, AAccept]) (?s ?t [ACheck, AAccept])"
    using quic_step.accept_stream[of 0 "?s ?t [AAccept, AAccept]" ?cfg] by simp
  have 4: "quic_step ?cfg (?s ?t [ACheck, AAccept]) (?s ?t [ACheck, ACheck])"
    using quic_step.accept_stream[of 1 "?s ?t [ACheck, AAccept]" ?cfg] by simp
  have 5: "quic_step ?cfg (?s ?t [ACheck, ACheck]) (?s ?t [ACount, ACheck])"
    using quic_step.pass[of 0 "?s ?t [ACheck, ACheck]" ?cfg] by (simp add: transport_start_def)
  have 6: "quic_step ?cfg (?s ?t [ACount, ACheck]) (?s ?t [ACount, ACount])"
    using quic_step.pass[of 1 "?s ?t [ACount, ACheck]" ?cfg] by (simp add: transport_start_def)
  have 7: "quic_step ?cfg (?s ?t [ACount, ACount]) (?s (admit ?t) [ASend 0, ACount])"
    using quic_step.count[of 0 "?s ?t [ACount, ACount]" ?cfg] by (simp add: transport_start_def)
  have 8: "quic_step ?cfg (?s (admit ?t) [ASend 0, ACount]) (?s (admit (admit ?t)) [ASend 0, ASend 1])"
    using quic_step.count[of 1 "?s (admit ?t) [ASend 0, ACount]" ?cfg]
    by (simp add: transport_start_def admit_def)
  have "(quic_step ?cfg)\<^sup>*\<^sup>* (?s ?t []) (?s (admit (admit ?t)) [ASend 0, ASend 1])"
    by (rule converse_rtranclp_into_rtranclp, rule 1, rule converse_rtranclp_into_rtranclp, rule 2,
        rule converse_rtranclp_into_rtranclp, rule 3, rule converse_rtranclp_into_rtranclp, rule 4,
        rule converse_rtranclp_into_rtranclp, rule 5, rule converse_rtranclp_into_rtranclp, rule 6,
        rule converse_rtranclp_into_rtranclp, rule 7, rule r_into_rtranclp, rule 8)
  then show "\<exists>s0 s. quic_listen ?cfg True = Inr s0 \<and> (quic_step ?cfg)\<^sup>*\<^sup>* s0 s \<and>
      active (qk s) = 2 \<and> live_out (qk s) = {}"
    by (intro exI conjI) (assumption | simp add: quic_listen_def admit_def transport_start_def)+
qed

text \<open>
  Stopping the QUIC listener can crash the process: the goroutine that accepts
  connections closes the channel when the context is cancelled, while a connection's
  goroutine may be at its send, and a send to a closed channel panics.
\<close>

theorem quic_shutdown_panic:
  "\<exists>s0 s. quic_listen (default_quic_config\<lparr>q_tls := True\<rparr>) True = Inr s0 \<and>
      (quic_step (default_quic_config\<lparr>q_tls := True\<rparr>))\<^sup>*\<^sup>* s0 s \<and> q_panicked s"
proof -
  let ?cfg = "default_quic_config\<lparr>q_tls := True\<rparr>"
  let ?s = "\<lambda>t a ws p. \<lparr>qk = t, q_accepting = a, q_workers = ws, q_panicked = p\<rparr>"
  let ?t = transport_start
  let ?u = "(admit ?t)\<lparr>cancelled := True\<rparr>"
  have 1: "quic_step ?cfg (?s ?t True [] False) (?s ?t True [AAccept] False)"
    using quic_step.accept_conn[of "?s ?t True [] False" ?cfg] by simp
  have 2: "quic_step ?cfg (?s ?t True [AAccept] False) (?s ?t True [ACheck] False)"
    using quic_step.accept_stream[of 0 "?s ?t True [AAccept] False" ?cfg] by simp
  have 3: "quic_step ?cfg (?s ?t True [ACheck] False) (?s ?t True [ACount] False)"
    using quic_step.pass[of 0 "?s ?t True [ACheck] False" ?cfg]
    by (simp add: transport_start_def default_quic_config_def)
  have 4: "quic_step ?cfg (?s ?t True [ACount] False) (?s (admit ?t) True [ASend 0] False)"
    using quic_step.count[of 0 "?s ?t True [ACount] False" ?cfg] by (simp add: transport_start_def)
  have 5: "quic_step ?cfg (?s (admit ?t) True [ASend 0] False) (?s ?u True [ASend 0] False)"
    using quic_step.cancel[of ?cfg "?s (admit ?t) True [ASend 0] False"] by simp
  have 6: "quic_step ?cfg (?s ?u True [ASend 0] False) (?s (?u\<lparr>chan_closed := True\<rparr>) False [ASend 0] False)"
    using quic_step.accept_stop[of "?s ?u True [ASend 0] False" ?cfg] by simp
  have 7: "quic_step ?cfg (?s (?u\<lparr>chan_closed := True\<rparr>) False [ASend 0] False)
      (?s (?u\<lparr>chan_closed := True\<rparr>) False [ASend 0] True)"
    using quic_step.send_panic[of 0 "?s (?u\<lparr>chan_closed := True\<rparr>) False [ASend 0] False" 0 ?cfg] by simp
  have "(quic_step ?cfg)\<^sup>*\<^sup>* (?s ?t True [] False) (?s (?u\<lparr>chan_closed := True\<rparr>) False [ASend 0] True)"
    by (rule converse_rtranclp_into_rtranclp, rule 1, rule converse_rtranclp_into_rtranclp, rule 2,
        rule converse_rtranclp_into_rtranclp, rule 3, rule converse_rtranclp_into_rtranclp, rule 4,
        rule converse_rtranclp_into_rtranclp, rule 5, rule converse_rtranclp_into_rtranclp, rule 6,
        rule r_into_rtranclp, rule 7)
  then show ?thesis
    by (intro exI conjI) (assumption | simp add: quic_listen_def)+
qed

end
