(* ===== verification/Tls.thy ===== *)
theory Tls
  imports Transport
begin

text \<open>
  The TLS configurations: \<^verbatim>\<open>security/mtls.go\<close> and the constructors of the two transports
  (\<^verbatim>\<open>NewQUICTransport\<close>, \<^verbatim>\<open>NewSOCKS5OverTLS\<close>), which copy the configuration of their caller and set
  its protocol. Configurations are objects behind pointers, so they live in a store; what a
  handshake makes of them is written out from the documentation of \<^verbatim>\<open>crypto/tls\<close>.
\<close>

section \<open>Versions and client authentication\<close>

datatype tls_version = TLS10 | TLS11 | TLS12 | TLS13

primrec version_code :: "tls_version \<Rightarrow> nat" where
  "version_code TLS10 = 0x301"
| "version_code TLS11 = 0x302"
| "version_code TLS12 = 0x303"
| "version_code TLS13 = 0x304"

lemma version_code_inj: "version_code v = version_code w \<Longrightarrow> v = w"
  by (cases v; cases w) simp_all

instantiation tls_version :: linorder
begin

definition less_eq_tls_version :: "tls_version \<Rightarrow> tls_version \<Rightarrow> bool" where
  "v \<le> w \<longleftrightarrow> version_code v \<le> version_code w"

definition less_tls_version :: "tls_version \<Rightarrow> tls_version \<Rightarrow> bool" where
  "v < w \<longleftrightarrow> version_code v < version_code w"

instance
  by standard (auto simp: less_eq_tls_version_def less_tls_version_def intro: version_code_inj)

end

lemma TLS13_greatest [simp]: "v \<le> TLS13"
  by (cases v) (simp_all add: less_eq_tls_version_def)

lemma TLS13_le [simp]: "TLS13 \<le> v \<longleftrightarrow> v = TLS13"
  by (cases v) (simp_all add: less_eq_tls_version_def)

text \<open>The constants of \<^verbatim>\<open>ClientAuthType\<close>, which \<^verbatim>\<open>crypto/tls\<close> compares by their order.\<close>

datatype client_auth =
  NoClientCert | RequestClientCert | RequireAnyClientCert | VerifyClientCertIfGiven | RequireAndVerifyClientCert

primrec auth_code :: "client_auth \<Rightarrow> nat" where
  "auth_code NoClientCert = 0"
| "auth_code RequestClientCert = 1"
| "auth_code RequireAnyClientCert = 2"
| "auth_code VerifyClientCertIfGiven = 3"
| "auth_code RequireAndVerifyClientCert = 4"

lemma auth_code_inj: "auth_code v = auth_code w \<Longrightarrow> v = w"
  by (cases v; cases w) simp_all

instantiation client_auth :: linorder
begin

definition less_eq_client_auth :: "client_auth \<Rightarrow> client_auth \<Rightarrow> bool" where
  "v \<le> w \<longleftrightarrow> auth_code v \<le> auth_code w"

definition less_client_auth :: "client_auth \<Rightarrow> client_auth \<Rightarrow> bool" where
  "v < w \<longleftrightarrow> auth_code v < auth_code w"

instance
  by standard (auto simp: less_eq_client_auth_def less_client_auth_def intro: auth_code_inj)

end

definition requires_client_cert :: "client_auth \<Rightarrow> bool" where
  "requires_client_cert a \<longleftrightarrow> a = RequireAnyClientCert \<or> a = RequireAndVerifyClientCert"

section \<open>Configurations\<close>

text \<open>The fields the program sets and those a handshake reads beside them.\<close>

record ('c, 'p) tls_config =
  certificates :: "'c list"
  min_version :: "tls_version option"
  max_version :: "tls_version option"
  client_auth_type :: client_auth
  client_cas :: "'p option"
  root_cas :: "'p option"
  server_name :: string
  insecure_skip_verify :: bool
  next_protos :: "string list"

definition empty_tls_config :: "('c, 'p) tls_config" where
  "empty_tls_config = \<lparr>certificates = [], min_version = None, max_version = None,
     client_auth_type = NoClientCert, client_cas = None, root_cas = None, server_name = '''',
     insecure_skip_verify = False, next_protos = []\<rparr>"

definition mtls_alpn :: string where
  "mtls_alpn = ''securemesh/1''"

definition server_tls_config :: "'c \<Rightarrow> 'p option \<Rightarrow> ('c, 'p) tls_config" where
  "server_tls_config cert cas =
     empty_tls_config\<lparr>certificates := [cert], min_version := Some TLS13,
       client_auth_type := RequireAndVerifyClientCert, client_cas := cas, next_protos := [mtls_alpn]\<rparr>"

definition client_tls_config :: "'c \<Rightarrow> 'p option \<Rightarrow> string \<Rightarrow> ('c, 'p) tls_config" where
  "client_tls_config cert roots name =
     empty_tls_config\<lparr>certificates := [cert], min_version := Some TLS13, root_cas := roots,
       server_name := name, next_protos := [mtls_alpn]\<rparr>"

section \<open>The constructors of the transports\<close>

text \<open>The store has the configurations in the order of their allocation; a pointer is a position.\<close>

type_synonym ('c, 'p) tls_store = "('c, 'p) tls_config list"

definition tls_clone :: "nat \<Rightarrow> ('c, 'p) tls_store \<Rightarrow> nat \<times> ('c, 'p) tls_store" where
  "tls_clone p st = (length st, st @ [st ! p])"

definition quic_alpn :: string where
  "quic_alpn = ''airbridge/1''"

definition socks_alpn :: string where
  "socks_alpn = ''airbridge-socks/1''"

text \<open>A transport: its configuration, the pointer to its TLS configuration, its counters.\<close>

record 'cfg transport =
  tr_cfg :: 'cfg
  tr_tls :: "nat option"
  tr_state :: transport_state

definition new_quic_transport ::
  "quic_config \<Rightarrow> nat option \<Rightarrow> ('c, 'p) tls_store \<Rightarrow> quic_config transport \<times> ('c, 'p) tls_store" where
  "new_quic_transport cfg tls st =
     (let (tls1, st1) = (case tls of
            Some p \<Rightarrow> (let (q, st') = tls_clone p st in (Some q, st'[q := (st' ! q)\<lparr>next_protos := [quic_alpn]\<rparr>]))
          | None \<Rightarrow> (None, st))
      in (\<lparr>tr_cfg = cfg\<lparr>q_tls := tls1 \<noteq> None\<rparr>, tr_tls = tls1, tr_state = transport_start\<rparr>, st1))"

definition new_socks_over_tls ::
  "socks_tls_config \<Rightarrow> nat option \<Rightarrow> ('c, 'p) tls_store \<Rightarrow> socks_tls_config transport \<times> ('c, 'p) tls_store" where
  "new_socks_over_tls cfg tls st =
     (let (tls1, st1) = (case tls of
            Some p \<Rightarrow> (let (q, st') = tls_clone p st in (Some q, st'[q := (st' ! q)\<lparr>next_protos := [socks_alpn]\<rparr>]))
          | None \<Rightarrow> (None, st))
      in (\<lparr>tr_cfg = cfg\<lparr>s_tls := tls1 \<noteq> None\<rparr>, tr_tls = tls1, tr_state = transport_start\<rparr>, st1))"

text \<open>A program that makes transports of both kinds, with whatever configurations it has.\<close>

datatype transport_kind = Quic quic_config | Socks socks_tls_config

primrec alpn_of :: "transport_kind \<Rightarrow> string" where
  "alpn_of (Quic cfg) = quic_alpn"
| "alpn_of (Socks cfg) = socks_alpn"

definition new_transport ::
  "transport_kind \<Rightarrow> nat option \<Rightarrow> ('c, 'p) tls_store \<Rightarrow> nat option \<times> ('c, 'p) tls_store" where
  "new_transport k tls st =
     (case k of
        Quic cfg \<Rightarrow> (let (t, st') = new_quic_transport cfg tls st in (tr_tls t, st'))
      | Socks cfg \<Rightarrow> (let (t, st') = new_socks_over_tls cfg tls st in (tr_tls t, st')))"

fun new_transports ::
  "(transport_kind \<times> nat option) list \<Rightarrow> ('c, 'p) tls_store \<Rightarrow> nat option list \<times> ('c, 'p) tls_store" where
  "new_transports [] st = ([], st)"
| "new_transports ((k, tls) # ks) st =
     (let (p, st1) = new_transport k tls st; (ps, st2) = new_transports ks st1 in (p # ps, st2))"

lemma new_transport_None [simp]: "new_transport k None st = (None, st)"
  by (cases k) (simp_all add: new_transport_def new_quic_transport_def new_socks_over_tls_def)

lemma new_transport_Some [simp]:
  "new_transport k (Some p) st = (Some (length st), st @ [(st ! p)\<lparr>next_protos := [alpn_of k]\<rparr>])"
  by (cases k) (simp_all add: new_transport_def new_quic_transport_def new_socks_over_tls_def tls_clone_def)

text \<open>
  Making transports only adds to the store: every configuration there was is as it was, and the
  transports that have one have copies of their own, which differ from the original in the protocol alone.
\<close>

definition owns :: "('c, 'p) tls_store \<Rightarrow> ('c, 'p) tls_store \<Rightarrow> transport_kind \<times> nat option \<Rightarrow> nat option \<Rightarrow> bool" where
  "owns st st' kt p \<longleftrightarrow>
     (case (snd kt, p) of
        (None, None) \<Rightarrow> True
      | (Some o1, Some q) \<Rightarrow> length st \<le> q \<and> q < length st' \<and>
          st' ! q = (st ! o1)\<lparr>next_protos := [alpn_of (fst kt)]\<rparr>
      | _ \<Rightarrow> False)"

lemma owns_None [simp]: "owns st st' (k, None) p \<longleftrightarrow> p = None"
  by (simp add: owns_def split: option.split)

lemma owns_Some [simp]:
  "owns st st' (k, Some p) q \<longleftrightarrow>
     (\<exists>j. q = Some j \<and> length st \<le> j \<and> j < length st' \<and> st' ! j = (st ! p)\<lparr>next_protos := [alpn_of k]\<rparr>)"
  by (simp add: owns_def split: option.split)

lemma new_transports_extend:
  "new_transports ks st = (ps, st') \<Longrightarrow> \<exists>more. st' = st @ more"
proof (induction ks arbitrary: st ps st')
  case (Cons kt ks)
  obtain k tls where kt: "kt = (k, tls)" by fastforce
  obtain p st1 where 1: "new_transport k tls st = (p, st1)" by fastforce
  obtain qs st2 where 2: "new_transports ks st1 = (qs, st2)" by fastforce
  from Cons.IH[OF 2] obtain more where "st2 = st1 @ more" by blast
  with Cons.prems 1 2 kt show ?case by (cases tls) auto
qed simp

definition valid_pointers :: "('c, 'p) tls_store \<Rightarrow> (transport_kind \<times> nat option) list \<Rightarrow> bool" where
  "valid_pointers st ks \<longleftrightarrow> list_all (\<lambda>(k, tls). case tls of None \<Rightarrow> True | Some p \<Rightarrow> p < length st) ks"

lemma owns_earlier:
  assumes "list_all2 (owns (st @ xs) st') ks ps" and "valid_pointers st ks"
  shows "list_all2 (owns st st') ks ps"
  using assms
  by (induction rule: list_all2_induct)
    (auto simp: valid_pointers_def nth_append split: option.splits)

lemma new_transports_own:
  "new_transports ks st = (ps, st') \<Longrightarrow> valid_pointers st ks \<Longrightarrow> list_all2 (owns st st') ks ps"
proof (induction ks arbitrary: st ps st')
  case (Cons kt ks)
  obtain k tls where kt: "kt = (k, tls)" by fastforce
  obtain qs st2 where 2: "new_transports ks (snd (new_transport k tls st)) = (qs, st2)" by fastforce
  obtain xs where xs: "snd (new_transport k tls st) = st @ xs" by (cases tls) simp_all
  from Cons.prems(2) have v: "valid_pointers st ks" by (simp add: valid_pointers_def)
  then have "valid_pointers (st @ xs) ks"
    by (auto simp: valid_pointers_def list_all_iff split: option.splits)
  from owns_earlier[OF Cons.IH[OF 2[unfolded xs] this] v]
  have "list_all2 (owns st st2) ks qs" .
  moreover obtain more where "st2 = (st @ xs) @ more" using new_transports_extend[OF 2] xs by auto
  ultimately show ?case
    using Cons.prems kt 2 xs by (cases tls) (auto simp: nth_append split: prod.splits)
qed simp

section \<open>A handshake\<close>

text \<open>
  What \<^verbatim>\<open>crypto/tls\<close> documents of a handshake over TCP (the QUIC library asks for TLS 1.3 in
  addition, and negotiates protocols in the same way). Certificates and pools are outside:
  the choice among several certificates, and the two verifications.
\<close>

record ('c, 'p) tls_env =
  te_choose :: "'c list \<Rightarrow> 'c option"
  te_verify_server :: "'p option \<Rightarrow> string \<Rightarrow> 'c \<Rightarrow> bool"
  te_verify_client :: "'p option \<Rightarrow> 'c \<Rightarrow> bool"

datatype tls_err =
  NoServerName | InvalidNextProtos | NoVersions | UnsupportedVersions | UnsupportedProtocols
| NoCertificates | ServerRejected | ClientCertRequired | ClientRejected

record 'c tls_session =
  se_version :: tls_version
  se_proto :: string
  se_client :: "'c option"

text \<open>\<^verbatim>\<open>supportedVersions\<close>, in descending order; the default minimum is TLS 1.2.\<close>

definition supported_versions :: "('c, 'p) tls_config \<Rightarrow> tls_version list" where
  "supported_versions cfg =
     filter (\<lambda>v. (case min_version cfg of None \<Rightarrow> TLS12 \<le> v | Some m \<Rightarrow> m \<le> v) \<and>
                 (case max_version cfg of None \<Rightarrow> True | Some m \<Rightarrow> v \<le> m))
       [TLS13, TLS12, TLS11, TLS10]"

definition mutual_version :: "('c, 'p) tls_config \<Rightarrow> tls_version list \<Rightarrow> tls_version option" where
  "mutual_version cfg peer = find (\<lambda>v. v \<in> set peer) (supported_versions cfg)"

text \<open>
  \<^verbatim>\<open>negotiateALPN\<close>: the first protocol of the server that the client offers; without a list on one of
  the sides, and for a client of HTTP/1.1 at a server of HTTP/2, no protocol (the empty string).
\<close>

definition negotiate_alpn :: "string list \<Rightarrow> string list \<Rightarrow> string option" where
  "negotiate_alpn server client =
     (if server = [] \<or> client = [] then Some ''''
      else case find (\<lambda>s. s \<in> set client) server of
             Some s \<Rightarrow> Some s
           | None \<Rightarrow> if ''h2'' \<in> set server \<and> ''http/1.1'' \<in> set client then Some '''' else None)"

definition pick_cert :: "('c, 'p) tls_env \<Rightarrow> 'c list \<Rightarrow> 'c option" where
  "pick_cert env cs = (case cs of [] \<Rightarrow> None | [c] \<Rightarrow> Some c | _ \<Rightarrow> te_choose env cs)"

definition client_certificate ::
  "('c, 'p) tls_env \<Rightarrow> ('c, 'p) tls_config \<Rightarrow> ('c, 'p) tls_config \<Rightarrow> tls_err + 'c option" where
  "client_certificate env server client =
     (if client_auth_type server < RequestClientCert then Inr None
      else case pick_cert env (certificates client) of
             None \<Rightarrow> if requires_client_cert (client_auth_type server) then Inl ClientCertRequired else Inr None
           | Some c \<Rightarrow> if VerifyClientCertIfGiven \<le> client_auth_type server \<and>
                          \<not> te_verify_client env (client_cas server) c
                       then Inl ClientRejected else Inr (Some c))"

definition tls_handshake ::
  "('c, 'p) tls_env \<Rightarrow> ('c, 'p) tls_config \<Rightarrow> ('c, 'p) tls_config \<Rightarrow> tls_err + 'c tls_session" where
  "tls_handshake env server client =
     (if server_name client = '''' \<and> \<not> insecure_skip_verify client then Inl NoServerName
      else if list_ex (\<lambda>p. p = [] \<or> length p > 255) (next_protos client) then Inl InvalidNextProtos
      else if supported_versions client = [] then Inl NoVersions
      else case mutual_version server (supported_versions client) of
        None \<Rightarrow> Inl UnsupportedVersions
      | Some v \<Rightarrow>
          (case negotiate_alpn (next_protos server) (next_protos client) of
             None \<Rightarrow> Inl UnsupportedProtocols
           | Some proto \<Rightarrow>
               (case pick_cert env (certificates server) of
                  None \<Rightarrow> Inl NoCertificates
                | Some sc \<Rightarrow>
                    if \<not> insecure_skip_verify client \<and> \<not> te_verify_server env (root_cas client) (server_name client) sc
                    then Inl ServerRejected
                    else (case client_certificate env server client of
                            Inl e \<Rightarrow> Inl e
                          | Inr cc \<Rightarrow> Inr \<lparr>se_version = v, se_proto = proto, se_client = cc\<rparr>))))"

lemma mutual_version_greatest:
  "mutual_version cfg peer = Some v \<longleftrightarrow>
     v \<in> set (supported_versions cfg) \<inter> set peer \<and> (\<forall>w \<in> set (supported_versions cfg) \<inter> set peer. w \<le> v)"
  by (cases v) (auto simp: mutual_version_def supported_versions_def less_eq_tls_version_def split: option.splits)

lemma handshake_Inr:
  "tls_handshake env server client = Inr s \<Longrightarrow>
     mutual_version server (supported_versions client) = Some (se_version s) \<and>
     negotiate_alpn (next_protos server) (next_protos client) = Some (se_proto s) \<and>
     client_certificate env server client = Inr (se_client s)"
  by (auto simp: tls_handshake_def split: if_splits option.splits sum.splits)

lemma supported_versions_protos [simp]:
  "supported_versions (cfg\<lparr>next_protos := ps\<rparr>) = supported_versions cfg"
  by (simp add: supported_versions_def)

lemma mutual_version_protos [simp]: "mutual_version (cfg\<lparr>next_protos := ps\<rparr>) vs = mutual_version cfg vs"
  by (simp add: mutual_version_def)

lemma alpns [simp]:
  "quic_alpn \<noteq> socks_alpn" "socks_alpn \<noteq> quic_alpn" "alpn_of k \<noteq> mtls_alpn" "mtls_alpn \<noteq> alpn_of k"
  "alpn_of k \<noteq> ''h2''" "alpn_of k \<noteq> ''''"
  by (cases k; simp add: quic_alpn_def socks_alpn_def mtls_alpn_def)+

lemma negotiate_alpn_single: "a \<noteq> ''h2'' \<Longrightarrow> negotiate_alpn [a] [b] = (if a = b then Some a else None)"
  by (simp add: negotiate_alpn_def)

lemma mtls_versions [simp]:
  "supported_versions (server_tls_config c cas) = [TLS13]" "supported_versions (client_tls_config c roots name) = [TLS13]"
  by (simp_all add: supported_versions_def server_tls_config_def client_tls_config_def empty_tls_config_def
      less_eq_tls_version_def)

section \<open>Properties\<close>

text \<open>
  C38. Transports that share configurations. A program makes transports of both kinds from any
  configurations, several of them from the same one. No configuration of the caller changes; a
  handshake between two of the transports only succeeds when they are of the same kind, on the
  protocol of that kind, and with the greatest version that both of the caller's configurations
  allow.
\<close>

theorem transport_sessions:
  assumes "new_transports ks st = (ps, st')" and "valid_pointers st ks"
    and "i < length ks" "ks ! i = (server, Some p)" "ps ! i = Some q"
    and "j < length ks" "ks ! j = (client, Some o1)" "ps ! j = Some r"
    and "tls_handshake env (st' ! q) (st' ! r) = Inr s"
  shows "take (length st) st' = st \<and> alpn_of server = alpn_of client \<and> se_proto s = alpn_of server \<and>
    mutual_version (st ! p) (supported_versions (st ! o1)) = Some (se_version s)"
proof -
  have own: "list_all2 (owns st st') ks ps" by (rule new_transports_own[OF assms(1,2)])
  have q: "st' ! q = (st ! p)\<lparr>next_protos := [alpn_of server]\<rparr>"
    using list_all2_nthD[OF own assms(3)] assms(4,5) by simp
  have r: "st' ! r = (st ! o1)\<lparr>next_protos := [alpn_of client]\<rparr>"
    using list_all2_nthD[OF own assms(6)] assms(7,8) by simp
  obtain more where "st' = st @ more" using new_transports_extend[OF assms(1)] by blast
  then have "take (length st) st' = st" by simp
  then show ?thesis
    using handshake_Inr[OF assms(9)] by (simp add: q r negotiate_alpn_single split: if_splits)
qed

definition example_env :: "(nat, nat) tls_env" where
  "example_env = \<lparr>te_choose = (\<lambda>_. None), te_verify_server = (\<lambda>p n c. p = Some c), te_verify_client = (\<lambda>p c. p = Some c)\<rparr>"

definition example_configs :: "(nat, nat) tls_store" where
  "example_configs = [empty_tls_config\<lparr>certificates := [7], root_cas := Some 7, server_name := ''node''\<rparr>]"

theorem transport_sessions_witness:
  "\<exists>ps st' s. new_transports [(Quic default_quic_config, Some 0), (Socks default_socks_tls_config, Some 0)] example_configs
      = (ps, st') \<and> st' ! 0 = example_configs ! 0 \<and>
    tls_handshake example_env (st' ! 2) (st' ! 2) = Inr s \<and> se_proto s = socks_alpn \<and>
    mutual_version (example_configs ! 0) (supported_versions (example_configs ! 0)) = Some (se_version s)"
proof -
  let ?ks = "[(Quic default_quic_config, Some 0), (Socks default_socks_tls_config, Some 0)]"
  let ?c = "example_configs ! 0"
  let ?st = "example_configs @ [?c\<lparr>next_protos := [quic_alpn]\<rparr>, ?c\<lparr>next_protos := [socks_alpn]\<rparr>]"
  have n: "new_transports ?ks example_configs = ([Some 1, Some 2], ?st)"
    by (simp add: example_configs_def)
  have h: "tls_handshake example_env (?st ! 2) (?st ! 2) = Inr \<lparr>se_version = TLS13, se_proto = socks_alpn, se_client = None\<rparr>"
    by code_simp
  have v: "valid_pointers example_configs ?ks"
    by (simp add: valid_pointers_def example_configs_def)
  from transport_sessions[OF n v _ _ _ _ _ _ h, of 1 "Socks default_socks_tls_config" 0 1 "Socks default_socks_tls_config" 0]
  show ?thesis using n h by (simp add: example_configs_def)
qed

text \<open>
  C39. The configurations of \<^verbatim>\<open>mtls.go\<close>. Between the two the outcome is exactly that of the two
  verifications. Whatever the client, and whatever protocols a transport puts into the
  server's configuration, a session has TLS 1.3 and a client certificate that was
  verified against the given authorities.
\<close>

theorem mutual_tls_sessions:
  "tls_handshake env (server_tls_config c cas) (client_tls_config d roots name) =
     (if name = '''' then Inl NoServerName
      else if \<not> te_verify_server env roots name c then Inl ServerRejected
      else if \<not> te_verify_client env cas d then Inl ClientRejected
      else Inr \<lparr>se_version = TLS13, se_proto = mtls_alpn, se_client = Some d\<rparr>) \<and>
   (tls_handshake env ((server_tls_config c cas)\<lparr>next_protos := protos\<rparr>) client = Inr s \<longrightarrow>
     se_version s = TLS13 \<and>
     (\<exists>d. se_client s = Some d \<and> pick_cert env (certificates client) = Some d \<and> te_verify_client env cas d))"
proof
  have "mutual_version (server_tls_config c cas) [TLS13] = Some TLS13"
    by (simp add: mutual_version_def)
  then show "tls_handshake env (server_tls_config c cas) (client_tls_config d roots name) =
     (if name = '''' then Inl NoServerName
      else if \<not> te_verify_server env roots name c then Inl ServerRejected
      else if \<not> te_verify_client env cas d then Inl ClientRejected
      else Inr \<lparr>se_version = TLS13, se_proto = mtls_alpn, se_client = Some d\<rparr>)"
    by (simp add: tls_handshake_def)
       (simp add: server_tls_config_def client_tls_config_def empty_tls_config_def mtls_alpn_def negotiate_alpn_single
          pick_cert_def client_certificate_def less_client_auth_def less_eq_client_auth_def)
  show "tls_handshake env ((server_tls_config c cas)\<lparr>next_protos := protos\<rparr>) client = Inr s \<longrightarrow>
     se_version s = TLS13 \<and>
     (\<exists>d. se_client s = Some d \<and> pick_cert env (certificates client) = Some d \<and> te_verify_client env cas d)"
    by (auto dest!: handshake_Inr simp: mutual_version_greatest)
       (auto simp: client_certificate_def server_tls_config_def empty_tls_config_def less_client_auth_def
          less_eq_client_auth_def requires_client_cert_def split: option.splits if_splits)
qed

theorem mutual_tls_sessions_witness:
  "tls_handshake example_env (server_tls_config 5 (Some 6)) (client_tls_config 6 (Some 5) ''node'')
     = Inr \<lparr>se_version = TLS13, se_proto = mtls_alpn, se_client = Some 6\<rparr>"
  using mutual_tls_sessions[of example_env 5 "Some 6" 6 "Some 5" "''node''" "[mtls_alpn]"]
  by (simp add: example_env_def)

text \<open>
  The transports do not ask for any of this themselves. Made from a configuration with just a
  certificate, the SOCKS5-over-TLS transport completes a handshake in TLS 1.2 with one that has no
  certificate at all. And the protocol of \<^verbatim>\<open>mtls.go\<close> is none of theirs: a client configured by \<^verbatim>\<open>ClientTLSConfig\<close>
  is refused by a transport of either kind, for the lack of a common protocol.
\<close>

theorem transport_without_mutual_tls:
  "(\<exists>st'. new_transports [(Socks cfg, Some 0), (Socks cfg', Some 1)]
        [empty_tls_config\<lparr>certificates := [c]\<rparr>,
         empty_tls_config\<lparr>insecure_skip_verify := True, max_version := Some TLS12\<rparr>] = ([Some 2, Some 3], st') \<and>
      tls_handshake env (st' ! 2) (st' ! 3) = Inr \<lparr>se_version = TLS12, se_proto = socks_alpn, se_client = None\<rparr>) \<and>
   tls_handshake env ((server_tls_config d cas)\<lparr>next_protos := [alpn_of k]\<rparr>) (client_tls_config e roots ''node'')
     = Inl UnsupportedProtocols"
proof
  let ?a = "empty_tls_config\<lparr>certificates := [c], next_protos := [socks_alpn]\<rparr> :: ('a, 'b) tls_config"
  let ?b = "empty_tls_config\<lparr>insecure_skip_verify := True, max_version := Some TLS12, next_protos := [socks_alpn]\<rparr>
      :: ('a, 'b) tls_config"
  have "supported_versions ?a = [TLS13, TLS12]" "supported_versions ?b = [TLS12]"
    by (simp_all add: supported_versions_def empty_tls_config_def less_eq_tls_version_def)
  moreover from this have "mutual_version ?a [TLS12] = Some TLS12"
    by (simp only: mutual_version_def) simp
  moreover have "negotiate_alpn [socks_alpn] [socks_alpn] = Some socks_alpn"
    by (simp add: negotiate_alpn_def)
  ultimately have "tls_handshake env ?a ?b = Inr \<lparr>se_version = TLS12, se_proto = socks_alpn, se_client = None\<rparr>"
    unfolding tls_handshake_def
    by (simp del: supported_versions_protos mutual_version_protos)
       (simp add: empty_tls_config_def pick_cert_def client_certificate_def less_client_auth_def socks_alpn_def)
  then show "\<exists>st'. new_transports [(Socks cfg, Some 0), (Socks cfg', Some 1)]
        [empty_tls_config\<lparr>certificates := [c]\<rparr>,
         empty_tls_config\<lparr>insecure_skip_verify := True, max_version := Some TLS12\<rparr>] = ([Some 2, Some 3], st') \<and>
      tls_handshake env (st' ! 2) (st' ! 3) = Inr \<lparr>se_version = TLS12, se_proto = socks_alpn, se_client = None\<rparr>"
    by simp
  have "negotiate_alpn [alpn_of k] [mtls_alpn] = None"
    by (simp add: negotiate_alpn_single)
  moreover have "mutual_version (server_tls_config d cas) [TLS13] = Some TLS13"
    by (simp add: mutual_version_def)
  ultimately show "tls_handshake env ((server_tls_config d cas)\<lparr>next_protos := [alpn_of k]\<rparr>)
      (client_tls_config e roots ''node'') = Inl UnsupportedProtocols"
    by (simp add: tls_handshake_def)
       (simp add: client_tls_config_def empty_tls_config_def mtls_alpn_def)
qed

end
