(* ===== verification/UserAgent.thy ===== *)
theory UserAgent
  imports GoStd
begin

text \<open>
  \<^verbatim>\<open>privacy/useragent.go\<close>: replacing desktop User-Agents and stripping the headers that
  reveal a desktop, on parsed requests and on raw bytes. A header map is a map from canonical
  names to value lists, as in \<^verbatim>\<open>net/http\<close>; parsing and serialising a request are
  parameters.
\<close>

section \<open>Headers\<close>

type_synonym header = "string \<rightharpoonup> string list"

text \<open>\<^verbatim>\<open>textproto.CanonicalMIMEHeaderKey\<close>: names with other than token bytes are left alone.\<close>

definition is_token_char :: "char \<Rightarrow> bool" where
  "is_token_char c =
     (let n = of_char c :: nat
      in (48 \<le> n \<and> n \<le> 57) \<or> (65 \<le> n \<and> n \<le> 90) \<or> (97 \<le> n \<and> n \<le> 122) \<or>
         c \<in> set ''!#$%&*+-.^_|~'' \<or> n = 39 \<or> n = 96)"

definition to_upper_char :: "char \<Rightarrow> char" where
  "to_upper_char c = (let n = of_char c :: nat in
     if 97 \<le> n \<and> n \<le> 122 then char_of (n - 32) else c)"

fun canonical_go :: "bool \<Rightarrow> string \<Rightarrow> string" where
  "canonical_go up [] = []"
| "canonical_go up (c # cs) =
     (let d = (if up then to_upper_char c else to_lower_char c)
      in d # canonical_go (d = CHR ''-'') cs)"

definition canonical_key :: "string \<Rightarrow> string" where
  "canonical_key s = (if list_all is_token_char s then canonical_go True s else s)"

definition hdr_get :: "header \<Rightarrow> string \<Rightarrow> string" where
  "hdr_get h k = (case h (canonical_key k) of Some (v # vs) \<Rightarrow> v | _ \<Rightarrow> [])"

definition hdr_set :: "string \<Rightarrow> string \<Rightarrow> header \<Rightarrow> header" where
  "hdr_set k v h = h(canonical_key k \<mapsto> [v])"

definition hdr_del :: "string \<Rightarrow> header \<Rightarrow> header" where
  "hdr_del k h = h(canonical_key k := None)"

section \<open>State\<close>

definition ua_chrome_mobile :: string where
  "ua_chrome_mobile =
     ''Mozilla/5.0 (Linux; Android 14; Pixel 8 Pro) AppleWebKit/537.36 (KHTML, like Gecko) Chrome/125.0.0.0 Mobile Safari/537.36''"

definition ua_safari_mobile :: string where
  "ua_safari_mobile =
     ''Mozilla/5.0 (iPhone; CPU iPhone OS 17_5 like Mac OS X) AppleWebKit/605.1.15 (KHTML, like Gecko) Version/17.5 Mobile/15E148 Safari/604.1''"

definition desktop_revealing_headers :: "string list" where
  "desktop_revealing_headers =
     [''Sec-Ch-Ua-Platform'', ''Sec-Ch-Ua-Platform-Version'', ''Sec-Ch-Ua-Model'',
      ''Sec-Ch-Ua-Full-Version'', ''Sec-Ch-Ua-Full-Version-List'', ''Sec-Ch-Ua-Arch'',
      ''Sec-Ch-Ua-Bitness'', ''Sec-Ch-Ua-Wow64'', ''X-Requested-With'']"

record ua_stats =
  requests_processed :: i64
  requests_modified :: i64
  headers_stripped :: i64

record ua_config =
  target_ua :: string
  strip_headers :: "string list"
  strip_client_hints :: bool
  ua_enabled :: bool

record ua_harmonizer =
  ua_cfg :: ua_config
  ua_st :: ua_stats

definition default_ua_config :: ua_config where
  "default_ua_config = \<lparr>target_ua = ua_chrome_mobile, strip_headers = desktop_revealing_headers,
     strip_client_hints = True, ua_enabled = True\<rparr>"

definition new_ua_harmonizer :: "ua_config \<Rightarrow> ua_harmonizer" where
  "new_ua_harmonizer cfg =
     \<lparr>ua_cfg = (if target_ua cfg = [] then cfg\<lparr>target_ua := ua_chrome_mobile\<rparr> else cfg),
      ua_st = \<lparr>requests_processed = 0, requests_modified = 0, headers_stripped = 0\<rparr>\<rparr>"

definition ua_get_stats :: "ua_harmonizer \<Rightarrow> ua_stats" where
  "ua_get_stats h = ua_st h"

definition ua_is_enabled :: "ua_harmonizer \<Rightarrow> bool" where
  "ua_is_enabled h = ua_enabled (ua_cfg h)"

definition ua_set_enabled :: "bool \<Rightarrow> ua_harmonizer \<Rightarrow> ua_harmonizer" where
  "ua_set_enabled b h = h\<lparr>ua_cfg := (ua_cfg h)\<lparr>ua_enabled := b\<rparr>\<rparr>"

section \<open>Classification\<close>

definition mobile_indicators :: "string list" where
  "mobile_indicators = [''mobile'', ''android'', ''iphone'', ''ipad'', ''ipod'']"

definition desktop_indicators :: "string list" where
  "desktop_indicators =
     [''windows nt'', ''macintosh'', ''mac os x'', ''x11; linux'', ''x11; ubuntu'',
      ''x11; fedora'', ''cros'']"

definition is_desktop_ua :: "string \<Rightarrow> bool" where
  "is_desktop_ua ua0 =
     (let ua = str_lower ua0
      in if list_ex (str_contains ua) mobile_indicators then False
         else list_ex (str_contains ua) desktop_indicators)"

definition is_http_request :: "bytes \<Rightarrow> bool" where
  "is_http_request data =
     (if length data < 4 then False
      else str_of_bytes (take 4 data) \<in>
             {''GET '', ''POST'', ''PUT '', ''DELE'', ''HEAD'', ''OPTI'', ''PATC'', ''CONN''})"

section \<open>Harmonising a request\<close>

text \<open>The loop over \<^verbatim>\<open>StripHeaders\<close>: the headers, how many were stripped.\<close>

fun strip_loop :: "string list \<Rightarrow> header \<Rightarrow> header \<times> nat" where
  "strip_loop [] h = (h, 0)"
| "strip_loop (k # ks) h =
     (if hdr_get h k \<noteq> []
      then (let (h', n) = strip_loop ks (hdr_del k h) in (h', Suc n))
      else strip_loop ks h)"

definition sec_ch_ua_mobile :: string where
  "sec_ch_ua_mobile =
     [CHR 0x22] @ ''Chromium'' @ [CHR 0x22] @ '';v='' @ [CHR 0x22] @ ''125'' @ [CHR 0x22] @ '', '' @
     [CHR 0x22] @ ''Google Chrome'' @ [CHR 0x22] @ '';v='' @ [CHR 0x22] @ ''125'' @ [CHR 0x22] @ '', '' @
     [CHR 0x22] @ ''Not-A.Brand'' @ [CHR 0x22] @ '';v='' @ [CHR 0x22] @ ''99'' @ [CHR 0x22]"

definition android_quoted :: string where
  "android_quoted = [CHR 0x22] @ ''Android'' @ [CHR 0x22]"

text \<open>
  \<^verbatim>\<open>HarmonizeHTTPRequest\<close> on the header of the request, the rest of which it does not
  touch; the nil request is the caller's \<open>None\<close>.
\<close>

definition harmonize_headers :: "ua_harmonizer \<Rightarrow> header \<Rightarrow> header \<times> ua_harmonizer" where
  "harmonize_headers h hdr =
     (let cfg = ua_cfg h;
          current = hdr_get hdr ''User-Agent'';
          m1 = (current \<noteq> [] \<and> is_desktop_ua current);
          hdr1 = (if m1 then hdr_set ''User-Agent'' (target_ua cfg) hdr else hdr);
          (hdr2, n) = (if strip_client_hints cfg then strip_loop (strip_headers cfg) hdr1 else (hdr1, 0));
          m3 = (hdr_get hdr2 ''Sec-Ch-Ua'' \<noteq> []);
          hdr3 = (if m3
                  then hdr_set ''Sec-Ch-Ua-Platform'' android_quoted
                        (hdr_set ''Sec-Ch-Ua-Mobile'' ''?1''
                          (hdr_set ''Sec-Ch-Ua'' sec_ch_ua_mobile hdr2))
                  else hdr2);
          st = ua_st h
      in (hdr3,
          h\<lparr>ua_st := st\<lparr>requests_processed := requests_processed st + 1,
             headers_stripped := headers_stripped st + of_nat n,
             requests_modified := requests_modified st + (if m1 \<or> n > 0 \<or> m3 then 1 else 0)\<rparr>\<rparr>))"

record 'r http_request =
  req_header :: header
  req_rest :: 'r

definition harmonize_http_request ::
  "ua_harmonizer \<Rightarrow> 'r http_request option \<Rightarrow> 'r http_request option \<times> ua_harmonizer" where
  "harmonize_http_request h req =
     (if \<not> ua_enabled (ua_cfg h) then (req, h)
      else case req of
             None \<Rightarrow> (None, h)
           | Some r \<Rightarrow>
               (let (hdr, h') = harmonize_headers h (req_header r)
                in (Some (r\<lparr>req_header := hdr\<rparr>), h')))"

text \<open>
  \<^verbatim>\<open>HarmonizeRawHTTP\<close>. The parser returns the request and what the buffered reader has
  left; the serialiser may fail, and the boolean of the result tells so.
\<close>

definition harmonize_raw_http ::
  "(bytes \<Rightarrow> ('r http_request \<times> bytes) option) \<Rightarrow> ('r http_request \<Rightarrow> bytes option) \<Rightarrow>
   ua_harmonizer \<Rightarrow> bytes \<Rightarrow> (bytes \<times> bool) \<times> ua_harmonizer" where
  "harmonize_raw_http read_request write_request h data =
     (if \<not> ua_enabled (ua_cfg h) then ((data, False), h)
      else if \<not> is_http_request data then ((data, False), h)
      else
        let h1 = h\<lparr>ua_st := (ua_st h)\<lparr>requests_processed := requests_processed (ua_st h) + 1\<rparr>\<rparr>
        in case read_request data of
             None \<Rightarrow> ((data, False), h1)
           | Some (req, remaining) \<Rightarrow>
               (case harmonize_http_request h1 (Some req) of
                  (None, h2) \<Rightarrow> ((data, False), h2)
                | (Some req', h2) \<Rightarrow>
                    (case write_request req' of
                       None \<Rightarrow> ((data, True), h2)
                     | Some out \<Rightarrow> ((out @ remaining, False), h2))))"

section \<open>What stripping and setting do\<close>

definition shown :: "string list option \<Rightarrow> bool" where
  "shown v = (case v of Some (x # xs) \<Rightarrow> x \<noteq> [] | _ \<Rightarrow> False)"

lemma hdr_get_shown: "hdr_get h k \<noteq> [] \<longleftrightarrow> shown (h (canonical_key k))"
  by (simp add: hdr_get_def shown_def split: option.split list.split)

lemma strip_loop_eq:
  "fst (strip_loop ks h) = (\<lambda>k. if k \<in> canonical_key ` set ks \<and> shown (h k) then None else h k)"
proof (induction ks arbitrary: h)
  case Nil
  then show ?case by simp
next
  case (Cons k ks)
  show ?case
  proof (cases "shown (h (canonical_key k))")
    case True
    then have "fst (strip_loop (k # ks) h) = fst (strip_loop ks (hdr_del k h))"
      by (simp add: hdr_get_shown split: prod.split)
    then show ?thesis
      unfolding Cons.IH using True by (auto simp: hdr_del_def shown_def)
  next
    case False
    then have "fst (strip_loop (k # ks) h) = fst (strip_loop ks h)"
      by (simp add: hdr_get_shown)
    then show ?thesis
      unfolding Cons.IH using False by auto
  qed
qed

lemma canonical_names [simp]:
  "canonical_key ''User-Agent'' = ''User-Agent''"
  "canonical_key ''Sec-Ch-Ua'' = ''Sec-Ch-Ua''"
  "canonical_key ''Sec-Ch-Ua-Mobile'' = ''Sec-Ch-Ua-Mobile''"
  "canonical_key ''Sec-Ch-Ua-Platform'' = ''Sec-Ch-Ua-Platform''"
  by code_simp+

text \<open>The three stages of \<open>harmonize_headers\<close>.\<close>

definition replace_agent :: "string \<Rightarrow> header \<Rightarrow> header" where
  "replace_agent target hdr =
     (if is_desktop_ua (hdr_get hdr ''User-Agent'') then hdr(''User-Agent'' \<mapsto> [target]) else hdr)"

definition strip_hints :: "ua_config \<Rightarrow> header \<Rightarrow> header" where
  "strip_hints cfg hdr =
     (\<lambda>k. if strip_client_hints cfg \<and> k \<in> canonical_key ` set (strip_headers cfg) \<and> shown (hdr k)
          then None else hdr k)"

definition set_hints :: "header \<Rightarrow> header" where
  "set_hints hdr =
     (if shown (hdr ''Sec-Ch-Ua'')
      then hdr(''Sec-Ch-Ua'' \<mapsto> [sec_ch_ua_mobile], ''Sec-Ch-Ua-Mobile'' \<mapsto> [''?1''],
               ''Sec-Ch-Ua-Platform'' \<mapsto> [android_quoted])
      else hdr)"

lemma not_desktop_Nil [simp]: "\<not> is_desktop_ua []"
  by (simp add: is_desktop_ua_def desktop_indicators_def str_lower_def)

lemma harmonize_headers_stages:
  "fst (harmonize_headers h hdr)
     = set_hints (strip_hints (ua_cfg h) (replace_agent (target_ua (ua_cfg h)) hdr))"
proof -
  have s: "strip_hints (ua_cfg h) g
      = fst (if strip_client_hints (ua_cfg h) then strip_loop (strip_headers (ua_cfg h)) g else (g, 0))" for g
    by (auto simp: strip_hints_def strip_loop_eq)
  have r: "replace_agent t hdr = (if hdr_get hdr ''User-Agent'' \<noteq> [] \<and> is_desktop_ua (hdr_get hdr ''User-Agent'')
      then hdr_set ''User-Agent'' t hdr else hdr)" for t
    by (auto simp: replace_agent_def hdr_set_def)
  have t: "set_hints g = (if hdr_get g ''Sec-Ch-Ua'' \<noteq> []
      then hdr_set ''Sec-Ch-Ua-Platform'' android_quoted
             (hdr_set ''Sec-Ch-Ua-Mobile'' ''?1'' (hdr_set ''Sec-Ch-Ua'' sec_ch_ua_mobile g))
      else g)" for g
    by (simp add: set_hints_def hdr_set_def hdr_get_shown)
  show ?thesis
    unfolding s r t harmonize_headers_def Let_def by (simp split: prod.split)
qed

lemma harmonize_headers_cfg: "ua_cfg (snd (harmonize_headers h hdr)) = ua_cfg h"
  by (simp add: harmonize_headers_def Let_def split: prod.split)

lemma hint_names_distinct:
  "''Sec-Ch-Ua'' \<noteq> ''Sec-Ch-Ua-Mobile''" "''Sec-Ch-Ua'' \<noteq> ''Sec-Ch-Ua-Platform''"
  "''Sec-Ch-Ua-Mobile'' \<noteq> ''Sec-Ch-Ua-Platform''" "''User-Agent'' \<noteq> ''Sec-Ch-Ua''"
  "''User-Agent'' \<noteq> ''Sec-Ch-Ua-Mobile''" "''User-Agent'' \<noteq> ''Sec-Ch-Ua-Platform''"
  by simp_all

lemma shown_hint_values: "sec_ch_ua_mobile \<noteq> []" "android_quoted \<noteq> []"
  by (simp_all add: sec_ch_ua_mobile_def android_quoted_def)

lemma agent_after:
  assumes "\<not> is_desktop_ua (target_ua cfg)"
  shows "\<not> is_desktop_ua (hdr_get (set_hints (strip_hints cfg (replace_agent (target_ua cfg) hdr))) ''User-Agent'')"
  using assms
  by (auto simp: hdr_get_def set_hints_def strip_hints_def replace_agent_def shown_def
      split: option.splits list.splits)

text \<open>Stripping and setting again changes nothing.\<close>

lemma hints_idem: "set_hints (strip_hints cfg (set_hints (strip_hints cfg hdr))) = set_hints (strip_hints cfg hdr)"
proof (cases "shown (strip_hints cfg hdr ''Sec-Ch-Ua'')")
  case True
  then have k: "\<not> (strip_client_hints cfg \<and> ''Sec-Ch-Ua'' \<in> canonical_key ` set (strip_headers cfg))"
    by (auto simp: strip_hints_def shown_def split: if_splits)
  then show ?thesis
    using True by (auto simp: set_hints_def strip_hints_def shown_def fun_eq_iff shown_hint_values
        split: if_splits)
next
  case False
  then show ?thesis
    by (auto simp: set_hints_def strip_hints_def fun_eq_iff shown_def split: if_splits)
qed

lemma replace_agent_off: "\<not> is_desktop_ua (hdr_get g ''User-Agent'') \<Longrightarrow> replace_agent t g = g"
  by (simp add: replace_agent_def)

section \<open>Properties\<close>

text \<open>
  C20. After harmonisation nothing shows a desktop. For an enabled harmonizer that strips client
  hints and whose target is not itself a desktop agent, the request that leaves has no
  desktop User-Agent; every header to strip is empty, or one of the three client hints, which
  then carry the mobile values; every other header and the rest of the request are as they
  were; and harmonising again changes no header.
\<close>

theorem harmonize_hides_desktop:
  assumes "ua_enabled (ua_cfg h)" and "strip_client_hints (ua_cfg h)"
    and "\<not> is_desktop_ua (target_ua (ua_cfg h))"
    and "harmonize_http_request h (Some r) = (Some r', h')"
  shows "\<not> is_desktop_ua (hdr_get (req_header r') ''User-Agent'') \<and>
    (\<forall>k \<in> canonical_key ` set (strip_headers (ua_cfg h)).
       \<not> shown (req_header r' k) \<or>
       (k, req_header r' k) \<in> {(''Sec-Ch-Ua'', Some [sec_ch_ua_mobile]),
          (''Sec-Ch-Ua-Mobile'', Some [''?1'']), (''Sec-Ch-Ua-Platform'', Some [android_quoted])}) \<and>
    (\<forall>k. k \<notin> canonical_key ` set (strip_headers (ua_cfg h)) \<union>
           {''User-Agent'', ''Sec-Ch-Ua'', ''Sec-Ch-Ua-Mobile'', ''Sec-Ch-Ua-Platform''} \<longrightarrow>
         req_header r' k = req_header r k) \<and>
    req_rest r' = req_rest r \<and>
    fst (harmonize_http_request h' (Some r')) = Some r'"
proof -
  let ?g = "set_hints (strip_hints (ua_cfg h) (replace_agent (target_ua (ua_cfg h)) (req_header r)))"
  have f: "fst (harmonize_headers h (req_header r)) = ?g"
    by (rule harmonize_headers_stages)
  have r': "r' = r\<lparr>req_header := ?g\<rparr>" and h': "h' = snd (harmonize_headers h (req_header r))"
    using assms(1,4) f by (auto simp: harmonize_http_request_def split: prod.splits)
  have cfg: "ua_cfg h' = ua_cfg h"
    by (simp add: h' harmonize_headers_cfg)
  have a: "\<not> is_desktop_ua (hdr_get ?g ''User-Agent'')"
    by (rule agent_after[OF assms(3)])
  have "fst (harmonize_headers h' ?g) = ?g"
    unfolding harmonize_headers_stages cfg replace_agent_off[OF a] by (rule hints_idem)
  then have i: "fst (harmonize_http_request h' (Some r')) = Some r'"
    using assms(1)
    by (cases "harmonize_headers h' ?g") (simp add: harmonize_http_request_def cfg r')
  have s: "\<not> shown (?g k) \<or> (k, ?g k) \<in> {(''Sec-Ch-Ua'', Some [sec_ch_ua_mobile]),
          (''Sec-Ch-Ua-Mobile'', Some [''?1'']), (''Sec-Ch-Ua-Platform'', Some [android_quoted])}"
    if "k \<in> canonical_key ` set (strip_headers (ua_cfg h))" for k
    using that assms(2) by (auto simp: set_hints_def strip_hints_def shown_def)
  have o: "?g k = req_header r k"
    if "k \<notin> canonical_key ` set (strip_headers (ua_cfg h)) \<union>
           {''User-Agent'', ''Sec-Ch-Ua'', ''Sec-Ch-Ua-Mobile'', ''Sec-Ch-Ua-Platform''}" for k
    using that by (simp add: set_hints_def strip_hints_def replace_agent_def)
  show ?thesis
    using a i s o by (simp add: r')
qed

theorem harmonize_hides_desktop_witness:
  "\<not> is_desktop_ua (hdr_get (req_header (the (fst (harmonize_http_request
      (new_ua_harmonizer default_ua_config)
      (Some \<lparr>req_header = [''User-Agent'' \<mapsto> [''X (Windows NT 10.0)'']], req_rest = ()\<rparr>)))))
    ''User-Agent'')"
proof -
  let ?h = "new_ua_harmonizer default_ua_config"
    and ?r = "\<lparr>req_header = [''User-Agent'' \<mapsto> [''X (Windows NT 10.0)'']], req_rest = ()\<rparr>"
  have n: "ua_chrome_mobile \<noteq> []"
    by (simp add: ua_chrome_mobile_def)
  have h: "ua_enabled (ua_cfg ?h)" "strip_client_hints (ua_cfg ?h)" "target_ua (ua_cfg ?h) = ua_chrome_mobile"
    using n by (simp_all add: new_ua_harmonizer_def default_ua_config_def)
  have "is_desktop_ua ua_chrome_mobile = False"
    by code_simp
  then have t: "\<not> is_desktop_ua (target_ua (ua_cfg ?h))"
    unfolding h(3) by blast
  obtain r' h' where r: "harmonize_http_request ?h (Some ?r) = (Some r', h')"
    using h(1) by (cases "harmonize_headers ?h (req_header ?r)") (simp add: harmonize_http_request_def)
  from harmonize_hides_desktop [OF h(1,2) t r, THEN conjunct1] show ?thesis
    unfolding r by simp
qed

text \<open>
  Raw bytes. \<open>HarmonizeRawHTTP\<close> returns its argument byte for byte when it is off, when
  the bytes do not start like a request (a TLS handshake, say) or do not parse; otherwise the
  serialisation of the harmonised request followed by the bytes the parser left, or the
  argument and an error when it cannot be serialised. A request it rewrites is counted
  twice in \<open>RequestsProcessed\<close>.
\<close>

theorem harmonize_raw_exact:
  "fst (harmonize_raw_http rd wr h data) =
     (if ua_enabled (ua_cfg h) \<and> is_http_request data
      then case rd data of
             None \<Rightarrow> (data, False)
           | Some (req, rest) \<Rightarrow>
               (case wr (req\<lparr>req_header := set_hints (strip_hints (ua_cfg h)
                           (replace_agent (target_ua (ua_cfg h)) (req_header req)))\<rparr>) of
                  None \<Rightarrow> (data, True) | Some out \<Rightarrow> (out @ rest, False))
      else (data, False)) \<and>
   requests_processed (ua_st (snd (harmonize_raw_http rd wr h data))) =
     requests_processed (ua_st h) +
     (if ua_enabled (ua_cfg h) \<and> is_http_request data then (if rd data = None then 1 else 2) else 0)"
proof (cases "ua_enabled (ua_cfg h) \<and> is_http_request data")
  case False
  then show ?thesis by (auto simp: harmonize_raw_http_def)
next
  case True
  let ?h1 = "h\<lparr>ua_st := (ua_st h)\<lparr>requests_processed := requests_processed (ua_st h) + 1\<rparr>\<rparr>"
  show ?thesis
  proof (cases "rd data")
    case None
    with True show ?thesis by (simp add: harmonize_raw_http_def Let_def)
  next
    case (Some p)
    obtain req rest where p: "p = (req, rest)" by fastforce
    obtain g h2 where g: "harmonize_headers ?h1 (req_header req) = (g, h2)" by fastforce
    have g': "g = set_hints (strip_hints (ua_cfg h) (replace_agent (target_ua (ua_cfg h)) (req_header req)))"
      using harmonize_headers_stages[of ?h1 "req_header req"] g by simp
    have c: "requests_processed (ua_st h2) = requests_processed (ua_st h) + 2"
      using g by (auto simp: harmonize_headers_def Let_def split: prod.splits)
    show ?thesis
      using True Some p g c
      by (simp add: harmonize_raw_http_def harmonize_http_request_def Let_def g'[symmetric]
          split: option.split)
  qed
qed

section \<open>As an engine\<close>

interpretation ua_engine: engine ua_set_enabled ua_is_enabled
  "\<lambda>h d. let (r, h') = harmonize_raw_http rd wr h d in (fst r, h')" for rd wr
  by unfold_locales (simp_all add: ua_set_enabled_def ua_is_enabled_def harmonize_raw_http_def)

end
