(* ===== verification/RateLimiter.thy ===== *)
theory RateLimiter
  imports Prelude
begin

text \<open>
  \<^verbatim>\<open>proxy/rate_limiter.go\<close>: the token bucket, its blocking wait, and the writer and reader
  that charge it. Times are nanoseconds. The bucket takes its two floating point computations as
  arguments: \<open>toks e r\<close> is \<^verbatim>\<open>int64(elapsed.Seconds() * float64(bytesPerSec))\<close>, computed by \<open>go_toks\<close> of theory RateBound, and
  \<open>wt d r\<close> is the duration of the sleep for a deficit of \<open>d\<close>. The wait is a loop that may run forever, so it
  takes fuel, one unit per turn; \<open>extra\<close> is how much longer than asked each sleep lasts.
\<close>

section \<open>The bucket\<close>

record rate_limiter =
  bytes_per_sec :: int
  tokens :: int
  max_burst :: int
  last_refill :: int
  rl_enabled :: bool

definition new_rate_limiter :: "int \<Rightarrow> int \<Rightarrow> int \<Rightarrow> rate_limiter" where
  "new_rate_limiter now zero_time b =
     (if b \<le> 0
      then \<lparr>bytes_per_sec = 0, tokens = 0, max_burst = 0, last_refill = zero_time, rl_enabled = False\<rparr>
      else \<lparr>bytes_per_sec = b, tokens = b, max_burst = b, last_refill = now, rl_enabled = True\<rparr>)"

definition rl_is_enabled :: "rate_limiter \<Rightarrow> bool" where
  "rl_is_enabled rl = rl_enabled rl"

definition set_rate :: "int \<Rightarrow> rate_limiter \<Rightarrow> rate_limiter" where
  "set_rate b rl =
     (if b \<le> 0 then rl\<lparr>rl_enabled := False\<rparr>
      else rl\<lparr>bytes_per_sec := b, max_burst := b, rl_enabled := True\<rparr>)"

type_synonym tok_fun = "int \<Rightarrow> int \<Rightarrow> int"

definition refill :: "tok_fun \<Rightarrow> int \<Rightarrow> rate_limiter \<Rightarrow> rate_limiter" where
  "refill toks now rl =
     (let new_tokens = toks (now - last_refill rl) (bytes_per_sec rl)
      in if new_tokens > 0
         then rl\<lparr>tokens := (if tokens rl + new_tokens > max_burst rl then max_burst rl
                            else tokens rl + new_tokens),
                 last_refill := now\<rparr>
         else rl)"

text \<open>One turn of the loop of \<^verbatim>\<open>Wait\<close>, under the lock: whether the tokens were taken.\<close>

definition wait_turn :: "tok_fun \<Rightarrow> int \<Rightarrow> int \<Rightarrow> rate_limiter \<Rightarrow> bool \<times> rate_limiter" where
  "wait_turn toks now n rl =
     (let rl1 = refill toks now rl
      in if tokens rl1 \<ge> n then (True, rl1\<lparr>tokens := tokens rl1 - n\<rparr>) else (False, rl1))"

definition wait_time :: "tok_fun \<Rightarrow> int \<Rightarrow> rate_limiter \<Rightarrow> int" where
  "wait_time wt n rl =
     (let w = wt (n - tokens rl) (bytes_per_sec rl) in if w < 1000000 then 1000000 else w)"

fun wait_loop ::
  "tok_fun \<Rightarrow> tok_fun \<Rightarrow> (nat \<Rightarrow> nat) \<Rightarrow> nat \<Rightarrow> int \<Rightarrow> int \<Rightarrow> rate_limiter \<Rightarrow> (int \<times> rate_limiter) option" where
  "wait_loop toks wt extra 0 now n rl = None"
| "wait_loop toks wt extra (Suc fuel) now n rl =
     (case wait_turn toks now n rl of
        (True, rl') \<Rightarrow> Some (now, rl')
      | (False, rl') \<Rightarrow>
          wait_loop toks wt extra fuel (now + wait_time wt n rl' + int (extra fuel)) n rl')"

definition rl_wait ::
  "tok_fun \<Rightarrow> tok_fun \<Rightarrow> (nat \<Rightarrow> nat) \<Rightarrow> nat \<Rightarrow> int \<Rightarrow> int \<Rightarrow> rate_limiter \<Rightarrow> (int \<times> rate_limiter) option" where
  "rl_wait toks wt extra fuel now n rl =
     (if \<not> rl_enabled rl \<or> n \<le> 0 then Some (now, rl)
      else wait_loop toks wt extra fuel now n rl)"

section \<open>The limited writer and reader\<close>

text \<open>
  The limiter may be nil. \<open>wait\<close> stands for \<^verbatim>\<open>limiter.Wait\<close>; its \<open>None\<close> is a call that
  does not return.
\<close>

definition rate_limited_write ::
  "(int \<Rightarrow> 'l \<Rightarrow> 'l option) \<Rightarrow> ('l \<Rightarrow> bool) \<Rightarrow> 'w writer \<Rightarrow> 'l option \<Rightarrow> bytes \<Rightarrow> 'w \<Rightarrow>
   ((nat \<times> io_err option) \<times> 'w \<times> 'l option) option" where
  "rate_limited_write wait enabled wr limiter p w =
     (case limiter of
        None \<Rightarrow> (case wr p w of (r, w') \<Rightarrow> Some (r, w', None))
      | Some l \<Rightarrow>
          if enabled l
          then (case wait (int (length p)) l of
                  None \<Rightarrow> None
                | Some l' \<Rightarrow> (case wr p w of (r, w') \<Rightarrow> Some (r, w', Some l')))
          else (case wr p w of (r, w') \<Rightarrow> Some (r, w', Some l)))"

definition rate_limited_read ::
  "(int \<Rightarrow> 'l \<Rightarrow> 'l option) \<Rightarrow> ('l \<Rightarrow> bool) \<Rightarrow> ('r \<Rightarrow> (bytes \<times> bool) \<times> 'r) \<Rightarrow> 'l option \<Rightarrow> 'r \<Rightarrow>
   ((bytes \<times> bool) \<times> 'r \<times> 'l option) option" where
  "rate_limited_read wait enabled rd limiter r =
     (case rd r of
        ((data, err), r') \<Rightarrow>
          (case limiter of
             None \<Rightarrow> Some ((data, err), r', None)
           | Some l \<Rightarrow>
               if data \<noteq> [] \<and> enabled l
               then (case wait (int (length data)) l of
                       None \<Rightarrow> None
                     | Some l' \<Rightarrow> Some ((data, err), r', Some l'))
               else Some ((data, err), r', Some l)))"

section \<open>Lemmas\<close>

lemma refill_fields [simp]:
  "bytes_per_sec (refill toks now rl) = bytes_per_sec rl"
  "max_burst (refill toks now rl) = max_burst rl"
  "rl_enabled (refill toks now rl) = rl_enabled rl"
  by (simp_all add: refill_def Let_def)

lemma refill_le_burst: "tokens rl \<le> max_burst rl \<Longrightarrow> tokens (refill toks now rl) \<le> max_burst rl"
  by (simp add: refill_def Let_def)

lemma wait_turn_fields:
  "wait_turn toks now n rl = (b, rl') \<Longrightarrow>
   bytes_per_sec rl' = bytes_per_sec rl \<and> max_burst rl' = max_burst rl \<and> rl_enabled rl' = rl_enabled rl"
  by (auto simp: wait_turn_def Let_def split: if_splits)

text \<open>A request larger than the bucket finds it too small, whatever the clock says.\<close>

lemma wait_loop_oversize:
  "max_burst rl < n \<Longrightarrow> tokens rl \<le> max_burst rl \<Longrightarrow> wait_loop toks wt extra fuel now n rl = None"
proof (induction toks wt extra fuel now n rl rule: wait_loop.induct)
  case (2 toks wt extra fuel now n rl)
  have t: "tokens (refill toks now rl) < n"
    using 2(2,3) refill_le_burst[of rl toks now] by simp
  then have w: "wait_turn toks now n rl = (False, refill toks now rl)"
    by (simp add: wait_turn_def Let_def)
  have "wait_loop toks wt extra fuel
      (now + wait_time wt n (refill toks now rl) + int (extra fuel)) n (refill toks now rl) = None"
    using 2(1)[OF w[symmetric] refl] 2(2,3) refill_le_burst[of rl toks now] w by simp
  with w show ?case by simp
qed simp

text \<open>What the bucket holds covers what it grants.\<close>

definition bucket_ok :: "rate_limiter \<Rightarrow> bool" where
  "bucket_ok rl \<longleftrightarrow> 0 \<le> tokens rl \<and> tokens rl \<le> max_burst rl"

lemma wait_turn_bucket: "bucket_ok rl \<Longrightarrow> wait_turn toks now n rl = (b, rl') \<Longrightarrow> 0 \<le> n \<Longrightarrow> bucket_ok rl'"
  by (auto simp: bucket_ok_def wait_turn_def refill_def Let_def split: if_splits)

text \<open>
  Turns of any number of goroutines, in the order in which they hold the lock: the times and
  the sizes asked for; the result is what was granted in all.
\<close>

fun turns :: "tok_fun \<Rightarrow> (int \<times> int) list \<Rightarrow> rate_limiter \<Rightarrow> int \<times> rate_limiter" where
  "turns toks [] rl = (0, rl)"
| "turns toks ((now, n) # ts) rl =
     (let (ok, rl1) = wait_turn toks now n rl; (g, rl2) = turns toks ts rl1
      in ((if ok then n else 0) + g, rl2))"

section \<open>Properties\<close>

text \<open>The rate in exact arithmetic, for the witnesses.\<close>

definition exact_toks :: tok_fun where
  "exact_toks e r = (if 0 \<le> e \<and> 0 \<le> r then e * r div 1000000000 else 0)"

definition exact_wt :: tok_fun where
  "exact_wt d r = d * 1000000000 div r"

text \<open>
  A request for more than one burst never returns: on an enabled limiter, \<open>Wait(n)\<close> with
  \<open>n\<close> above \<open>maxBurst\<close>, that is above one second's worth of bytes, loops for every amount of
  fuel and every clock. The relay waits for up to its buffer of 32768 bytes at once, so a
  limit below that can hang a connection.
\<close>

theorem wait_oversize_never_returns:
  assumes "rl_enabled rl" and "bucket_ok rl" and "max_burst rl < n"
  shows "rl_wait toks wt extra fuel now n rl = None"
proof -
  have "0 < n" using assms(2,3) by (simp add: bucket_ok_def)
  with assms wait_loop_oversize[of rl n] show ?thesis
    by (simp add: rl_wait_def bucket_ok_def)
qed

theorem wait_oversize_never_returns_witness:
  "rl_wait exact_toks exact_wt (\<lambda>_. 0) 1000 0 32768 (new_rate_limiter 0 0 16384) = None"
  by (rule wait_oversize_never_returns) (simp_all add: new_rate_limiter_def bucket_ok_def)


text \<open>
  What is assumed of the floating point: sleeping twice for the computed time (at least a
  millisecond each) yields at least the deficit. It holds in exact arithmetic.
\<close>

definition two_sleeps :: "tok_fun \<Rightarrow> tok_fun \<Rightarrow> bool" where
  "two_sleeps toks wt \<longleftrightarrow>
     (\<forall>d r e. 0 < d \<longrightarrow> 0 < r \<longrightarrow> 2 * max 1000000 (wt d r) \<le> e \<longrightarrow> d \<le> toks e r)"

lemma exact_two_sleeps: "two_sleeps exact_toks exact_wt"
  unfolding two_sleeps_def
proof (intro allI impI)
  fix d r e :: int
  assume d: "0 < d" and r: "0 < r" and e: "2 * max 1000000 (exact_wt d r) \<le> e"
  let ?q = "d * 1000000000 div r"
  have q: "2 * ?q \<le> e" "2000000 \<le> e"
    using e by (simp_all add: exact_wt_def)
  have m: "d * 1000000000 = r * ?q + d * 1000000000 mod r" "d * 1000000000 mod r < r"
    using r by simp_all
  have "d * 1000000000 \<le> e * r"
  proof (cases "1 \<le> ?q")
    case True
    have "d * 1000000000 \<le> r * ?q + r" using m by linarith
    also have "\<dots> \<le> r * ?q + r * ?q" using True r by simp
    also have "\<dots> = r * (2 * ?q)" by simp
    also have "\<dots> \<le> r * e" using q(1) r by (intro mult_left_mono) auto
    finally show ?thesis by (simp add: mult.commute)
  next
    case False
    moreover have "0 \<le> ?q" using d r by (simp add: pos_imp_zdiv_nonneg_iff)
    ultimately have "?q = 0" by linarith
    with m have "d * 1000000000 < r" by simp
    also have "r \<le> e * r" using q(2) r by simp
    finally show ?thesis by simp
  qed
  then have "d \<le> e * r div 1000000000"
    using zdiv_mono1[of "d * 1000000000" "e * r" 1000000000] by simp
  then show "d \<le> exact_toks e r"
    using q(2) r by (simp add: exact_toks_def)
qed

lemma wait_turn_cases:
  assumes "wait_turn toks now n rl = (b, rl1)" and "n \<le> max_burst rl" and "last_refill rl \<le> now"
    and "n - tokens rl \<le> D"
  shows "b \<or> (n - tokens rl1 \<le> D \<and> 0 < n - tokens rl1 \<and> last_refill rl1 \<le> now \<and>
    max_burst rl1 = max_burst rl \<and> bytes_per_sec rl1 = bytes_per_sec rl \<and>
    (rl1 = rl \<or> n - tokens rl1 \<le> D - 1))"
  using assms by (auto simp: wait_turn_def refill_def Let_def split: if_splits)

lemma wait_loop_returns:
  assumes s: "two_sleeps toks wt"
  shows "n \<le> max_burst rl \<Longrightarrow> 0 < bytes_per_sec rl \<Longrightarrow> last_refill rl \<le> now \<Longrightarrow>
    n - tokens rl \<le> int D \<Longrightarrow> \<exists>r. wait_loop toks wt extra (2 * D + 1 + k) now n rl = Some r"
proof (induction D arbitrary: now rl k)
  case 0
  then have "tokens (refill toks now rl) \<ge> n"
    by (auto simp: refill_def Let_def)
  then show ?case by (simp add: wait_turn_def Let_def)
next
  case (Suc D)
  obtain b1 rl1 where 1: "wait_turn toks now n rl = (b1, rl1)" by fastforce
  show ?case
  proof (cases b1)
    case True
    with 1 show ?thesis by simp
  next
    case False
    let ?now1 = "now + wait_time wt n rl1 + int (extra (2 * D + 2 + k))"
    have r1: "n - tokens rl1 \<le> int (Suc D)" "0 < n - tokens rl1" "last_refill rl1 \<le> now"
      "max_burst rl1 = max_burst rl" "bytes_per_sec rl1 = bytes_per_sec rl"
      using wait_turn_cases[OF 1 Suc.prems(1,3,4)] False by auto
    have w: "1000000 \<le> wait_time wt n rl1" "wt (n - tokens rl1) (bytes_per_sec rl1) \<le> wait_time wt n rl1"
      by (simp_all add: wait_time_def Let_def)
    have t1: "last_refill rl1 \<le> ?now1"
      using w r1(3) by linarith
    obtain b2 rl2 where 2: "wait_turn toks ?now1 n rl1 = (b2, rl2)" by fastforce
    show ?thesis
    proof (cases b2)
      case True
      with 1 2 False show ?thesis by simp
    next
      case nb2: False
      let ?now2 = "?now1 + wait_time wt n rl2 + int (extra (2 * D + 1 + k))"
      have r2: "n \<le> max_burst rl1" "last_refill rl2 \<le> ?now1" "max_burst rl2 = max_burst rl1"
        "bytes_per_sec rl2 = bytes_per_sec rl1" "rl2 = rl1 \<or> n - tokens rl2 \<le> int (Suc D) - 1"
        using wait_turn_cases[OF 2 _ t1 r1(1)] nb2 Suc.prems(1) r1(4) by auto
      have step: "wait_loop toks wt extra (2 * Suc D + 1 + k) now n rl
          = wait_loop toks wt extra (2 * D + 1 + k) ?now2 n rl2"
        using 1 2 False nb2 by simp
      have t2: "last_refill rl2 \<le> ?now2"
        using r2(2) by (simp add: wait_time_def Let_def)
      from r2(5) show ?thesis
      proof
        assume e: "rl2 = rl1"
        have "2 * max 1000000 (wt (n - tokens rl1) (bytes_per_sec rl1)) \<le> ?now2 - last_refill rl1"
          using w r1(3) by (auto simp: e wait_time_def Let_def max_def)
        then have "n - tokens rl1 \<le> toks (?now2 - last_refill rl1) (bytes_per_sec rl1)"
          using s r1(2,5) Suc.prems(2) unfolding two_sleeps_def by simp
        then have "wait_turn toks ?now2 n rl2 = (True, (refill toks ?now2 rl1)\<lparr>tokens := tokens (refill toks ?now2 rl1) - n\<rparr>)"
          using r2(1) r1(2) by (simp add: e wait_turn_def refill_def Let_def)
        then show ?thesis unfolding step by simp
      next
        assume "n - tokens rl2 \<le> int (Suc D) - 1"
        then show ?thesis
          unfolding step using Suc.IH[of rl2 ?now2 k] r2 r1 Suc.prems t2 by simp
      qed
    qed
  qed
qed



end
