(* ===== verification/Relay.thy ===== *)
theory Relay
  imports Fragment UserAgent RateLimiter
begin

text \<open>
  The relay of \<^verbatim>\<open>proxy/socks5.go\<close>: the fragmenting writer, the reader that harmonises the
  first bytes of a connection, the copy loop, and the client-to-target and target-to-client
  directions built from them with the rate limiter. A source is the list of segments in which the
  bytes arrive; a read returns at most the buffer's length of the first one.
\<close>

section \<open>fragmentingWriter\<close>

type_synonym 'w fw_state = "fragmenter option \<times> nat \<times> 'w"

definition fragmenting_write :: "'w writer \<Rightarrow> entropy \<Rightarrow> 'w fw_state writer" where
  "fragmenting_write wr ent p s =
     (case s of (fo, k, w) \<Rightarrow>
        (case fo of
           None \<Rightarrow> (let (r, w') = wr p w in (r, (None, k, w')))
         | Some f \<Rightarrow>
             if \<not> frag_is_enabled f then (let (r, w') = wr p w in (r, (Some f, k, w')))
             else (case fragment ent k f p of
                     (Inl e, k', f') \<Rightarrow> (let (r, w') = wr p w in (r, (Some f', k', w')))
                   | (Inr fs, k', f') \<Rightarrow>
                       if fs = [] then (let (r, w') = wr p w in (r, (Some f', k', w')))
                       else (let (r, w') = write_frags wr fs w in (r, (Some f', k', w'))))))"

lemma fragment_random_cfg: "fragment_random ent k f p = (fs, k', f') \<Longrightarrow> frag_cfg f' = frag_cfg f"
  by (auto simp: fragment_random_def split: prod.splits)

lemma fragment_tls_record_cfg:
  "fragment_tls_record ent k f p = (fs, k', f') \<Longrightarrow> frag_cfg f' = frag_cfg f"
  by (auto simp: fragment_tls_record_def Let_def split: if_splits prod.splits
      dest: fragment_random_cfg dest!: fragment_random_cfg)

lemma fragment_cfg: "fragment ent k f p = (r, k', f') \<Longrightarrow> frag_cfg f' = frag_cfg f"
  by (auto simp: fragment_def fragment_fixed_def Let_def
      split: if_splits strategy.splits prod.splits
      dest!: fragment_random_cfg fragment_tls_record_cfg)

definition fw_usable :: "('w \<Rightarrow> bool) \<Rightarrow> 'w fw_state \<Rightarrow> bool" where
  "fw_usable usable s =
     (case s of (fo, k, w) \<Rightarrow>
        usable w \<and> (case fo of None \<Rightarrow> True | Some f \<Rightarrow> frag_wf f \<and> plain_strategy f))"

context io_writer
begin

lemma plain_write_through:
  assumes "usable w" and "(let (r, w') = wr p w in (r, (fo, k, w'))) = ((n, e), s')"
  shows "\<exists>w'. s' = (fo, k, w') \<and> sink w' = sink w @ take n p \<and> n \<le> length p \<and>
    (e = None \<longrightarrow> n = length p) \<and> usable w' \<and> (e \<noteq> None \<longrightarrow> broken w')"
proof -
  obtain w' where 1: "wr p w = ((n, e), w')" and s': "s' = (fo, k, w')"
    using assms(2) by (cases "wr p w") auto
  show ?thesis
    using s' write_sink[OF assms(1) 1] write_count[OF assms(1) 1] write_usable[OF assms(1) 1]
      write_short[OF assms(1), of p n w'] write_broken[OF assms(1), of p n _ w'] 1
    by (cases e) auto
qed

lemma fragmenting_write_ok:
  assumes u: "fw_usable usable s" and w: "fragmenting_write wr ent p s = ((n, e), s')"
  shows "sink (snd (snd s')) = sink (snd (snd s)) @ take n p \<and> n \<le> length p \<and>
    (e = None \<longrightarrow> n = length p) \<and> fw_usable usable s' \<and>
    (e \<noteq> None \<longrightarrow> broken (snd (snd s')))"
proof -
  obtain fo k v where s: "s = (fo, k, v)" by (cases s)
  have v: "usable v" using u by (simp add: s fw_usable_def)
  show ?thesis
  proof (cases fo)
    case None
    with w s plain_write_through[OF v, of p None k n e s'] show ?thesis
      by (auto simp: fragmenting_write_def fw_usable_def)
  next
    case f: (Some f)
    show ?thesis
    proof (cases "frag_is_enabled f")
      case False
      with w s f u plain_write_through[OF v, of p "Some f" k n e s'] show ?thesis
        by (auto simp: fragmenting_write_def fw_usable_def)
    next
      case True
      obtain r k1 f1 where r: "fragment ent k f p = (r, k1, f1)" by (metis prod.exhaust)
      have f1: "frag_wf f1" "plain_strategy f1" "frag_wf f" "plain_strategy f"
        using fragment_cfg[OF r] u by (simp_all add: s f fw_usable_def frag_wf_def plain_strategy_def)
      show ?thesis
      proof (cases "\<exists>fs. r = Inr fs \<and> fs \<noteq> []")
        case False
        then have "(let (r, w') = wr p v in (r, (Some f1, k1, w'))) = ((n, e), s')"
          using w s f True r by (cases r) (auto simp: fragmenting_write_def)
        from plain_write_through[OF v this] f1 s show ?thesis
          by (auto simp: fw_usable_def)
      next
        case fs: True
        then obtain fs where fs: "r = Inr fs" "fs \<noteq> []" by blast
        obtain m d w1 where 1: "write_frags wr fs v = ((m, d), w1)" by (metis prod.exhaust)
        have "concat fs = p"
          using fragment_plain_pieces[OF f1(3,4)] r fs by blast
        with write_frags_sink[OF v 1] w s f True r fs 1 f1 show ?thesis
          by (auto simp: fragmenting_write_def fw_usable_def)
      qed
    qed
  qed
qed

lemma fragmenting_io_writer:
  "io_writer (fragmenting_write wr ent) (\<lambda>s. sink (snd (snd s))) (fw_usable usable)
     (\<lambda>s. broken (snd (snd s)))"
  by unfold_locales (use fragmenting_write_ok in blast)+

end

interpretation frag_conn: io_writer "fragmenting_write conn_write ent" "\<lambda>s. outp (snd (snd s))"
    "fw_usable (\<lambda>c. True)" "\<lambda>s. wcap (snd (snd s)) = 0" for ent
  by (rule conn_writer.fragmenting_io_writer)

section \<open>Readers\<close>

text \<open>
  The contract of \<^verbatim>\<open>io.Reader\<close> as the loop uses it: what a read returns are the next
  bytes, and it reports an error only at the end.
\<close>

type_synonym 'r reader = "nat \<Rightarrow> 'r \<Rightarrow> (bytes \<times> bool) \<times> 'r"

locale io_reader =
  fixes rd :: "'r reader"
    and pending :: "'r \<Rightarrow> bytes"
    and ready :: "'r \<Rightarrow> bool"
  assumes read_pending: "ready r \<Longrightarrow> 0 < k \<Longrightarrow> rd k r = ((data, err), r') \<Longrightarrow>
      pending r = data @ pending r' \<and> length data \<le> k \<and> ready r'"
    and read_progress: "ready r \<Longrightarrow> 0 < k \<Longrightarrow> rd k r = ((data, err), r') \<Longrightarrow>
      (if err then data = [] \<and> pending r = [] else data \<noteq> [])"

fun source_read :: "bytes list reader" where
  "source_read k [] = (([], True), [])"
| "source_read k (c # cs) =
     (if length c \<le> k then ((c, False), cs) else ((take k c, False), drop k c # cs))"

interpretation source: io_reader source_read concat "\<lambda>cs. [] \<notin> set cs"
proof
  fix r :: "bytes list" and k data err r'
  assume "[] \<notin> set r" and "0 < k" and "source_read k r = ((data, err), r')"
  then show "concat r = data @ concat r' \<and> length data \<le> k \<and> [] \<notin> set r'"
    and "if err then data = [] \<and> concat r = [] else data \<noteq> []"
    by (cases r; auto split: if_splits)+
qed

text \<open>\<^verbatim>\<open>uaHarmonizingReader\<close>; \<open>harmonize\<close> is the call of \<^verbatim>\<open>HarmonizeRawHTTP\<close>.\<close>

record 'r ua_reader =
  ur_src :: 'r
  ur_uah :: "ua_harmonizer option"
  ur_inspected :: bool
  ur_buf :: bytes
  ur_offset :: nat

type_synonym harmonize_fun = "ua_harmonizer \<Rightarrow> bytes \<Rightarrow> (bytes \<times> bool) \<times> ua_harmonizer"

text \<open>Copying out of the buffer from the offset on.\<close>

definition take_buffered :: "nat \<Rightarrow> 'r ua_reader \<Rightarrow> bytes \<times> 'r ua_reader" where
  "take_buffered k u =
     (let data = take k (drop (ur_offset u) (ur_buf u));
          off = ur_offset u + length data
      in (data, u\<lparr>ur_offset := off, ur_buf := (if off \<ge> length (ur_buf u) then [] else ur_buf u)\<rparr>))"

definition ua_read :: "'r reader \<Rightarrow> harmonize_fun \<Rightarrow> 'r ua_reader reader" where
  "ua_read rd harmonize k u =
     (if (case ur_uah u of None \<Rightarrow> True | Some h \<Rightarrow> \<not> ua_is_enabled h) \<or> ur_inspected u
      then (if ur_buf u \<noteq> []
            then (let (data, u') = take_buffered k u in ((data, False), u'))
            else (case rd k (ur_src u) of (r, src') \<Rightarrow> (r, u\<lparr>ur_src := src'\<rparr>)))
      else
        let u1 = u\<lparr>ur_inspected := True\<rparr>
        in case rd 4096 (ur_src u) of
             ((temp, err), src') \<Rightarrow>
               if temp \<noteq> []
               then (case harmonize (the (ur_uah u)) temp of
                       ((harmonized, herr), h') \<Rightarrow>
                         let data = (if \<not> herr \<and> harmonized \<noteq> [] then harmonized else temp);
                             u2 = u1\<lparr>ur_src := src', ur_uah := Some h', ur_buf := data, ur_offset := 0\<rparr>;
                             (out, u3) = take_buffered k u2
                         in ((out, err), u3))
               else ((temp, err), u1\<lparr>ur_src := src'\<rparr>))"

section \<open>The copy loop\<close>

text \<open>
  One direction of the relay. The state holds both ends; \<open>None\<close> is a loop that has not ended
  when the fuel is used up, or a read or write that does not return.
\<close>

fun relay_copy ::
  "nat \<Rightarrow> ('s \<Rightarrow> ((bytes \<times> bool) \<times> 's) option) \<Rightarrow>
   (bytes \<Rightarrow> 's \<Rightarrow> ((nat \<times> io_err option) \<times> 's) option) \<Rightarrow> nat \<Rightarrow> 's \<Rightarrow> (nat \<times> 's) option" where
  "relay_copy 0 rd wr acc s = None"
| "relay_copy (Suc fuel) rd wr acc s =
     (case rd s of
        None \<Rightarrow> None
      | Some ((data, err), s1) \<Rightarrow>
          if data \<noteq> []
          then (case wr data s1 of
                  None \<Rightarrow> None
                | Some ((nw, ew), s2) \<Rightarrow>
                    if ew \<noteq> None then Some (acc + nw, s2)
                    else if length data \<noteq> nw then Some (acc + nw, s2)
                    else if err then Some (acc + nw, s2)
                    else relay_copy fuel rd wr (acc + nw) s2)
          else if err then Some (acc, s1)
          else relay_copy fuel rd wr acc s1)"

text \<open>
  The two ends and the limiter with its clock. The wrapping of reader and writer is decided
  when the relay starts (\<open>limited\<close>); both wrappers use the same limiter.
\<close>

record ('r, 'w) relay_state =
  rs_reader :: 'r
  rs_writer :: 'w
  rs_limiter :: "int \<times> rate_limiter"

definition relay_read ::
  "(int \<Rightarrow> int \<times> rate_limiter \<Rightarrow> (int \<times> rate_limiter) option) \<Rightarrow> bool \<Rightarrow> nat \<Rightarrow> 'r reader \<Rightarrow>
   ('r, 'w) relay_state \<Rightarrow> ((bytes \<times> bool) \<times> ('r, 'w) relay_state) option" where
  "relay_read wait limited k rd s =
     (if limited
      then (case rate_limited_read wait (\<lambda>(now, l). rl_is_enabled l) (rd k) (Some (rs_limiter s)) (rs_reader s) of
              Some (r, rd', Some l) \<Rightarrow> Some (r, s\<lparr>rs_reader := rd', rs_limiter := l\<rparr>)
            | _ \<Rightarrow> None)
      else (case rd k (rs_reader s) of (r, rd') \<Rightarrow> Some (r, s\<lparr>rs_reader := rd'\<rparr>)))"

definition relay_write ::
  "(int \<Rightarrow> int \<times> rate_limiter \<Rightarrow> (int \<times> rate_limiter) option) \<Rightarrow> bool \<Rightarrow> 'w writer \<Rightarrow> bytes \<Rightarrow>
   ('r, 'w) relay_state \<Rightarrow> ((nat \<times> io_err option) \<times> ('r, 'w) relay_state) option" where
  "relay_write wait limited wr p s =
     (if limited
      then (case rate_limited_write wait (\<lambda>(now, l). rl_is_enabled l) wr (Some (rs_limiter s)) p (rs_writer s) of
              Some (r, w', Some l) \<Rightarrow> Some (r, s\<lparr>rs_writer := w', rs_limiter := l\<rparr>)
            | _ \<Rightarrow> None)
      else (case wr p (rs_writer s) of (r, w') \<Rightarrow> Some (r, s\<lparr>rs_writer := w'\<rparr>)))"

definition relay_client_to_target ::
  "(int \<Rightarrow> int \<times> rate_limiter \<Rightarrow> (int \<times> rate_limiter) option) \<Rightarrow> entropy \<Rightarrow> harmonize_fun \<Rightarrow> nat \<Rightarrow>
   nat \<Rightarrow> (bytes list ua_reader, conn fw_state) relay_state \<Rightarrow>
   (nat \<times> (bytes list ua_reader, conn fw_state) relay_state) option" where
  "relay_client_to_target wait ent harmonize buf_size fuel s =
     (let limited = rl_is_enabled (snd (rs_limiter s))
      in relay_copy fuel (relay_read wait limited buf_size (ua_read source_read harmonize))
           (relay_write wait limited (fragmenting_write conn_write ent)) 0 s)"

text \<open>The other direction wraps only its writer.\<close>

definition relay_target_to_client ::
  "(int \<Rightarrow> int \<times> rate_limiter \<Rightarrow> (int \<times> rate_limiter) option) \<Rightarrow> nat \<Rightarrow> nat \<Rightarrow>
   (bytes list, conn) relay_state \<Rightarrow> (nat \<times> (bytes list, conn) relay_state) option" where
  "relay_target_to_client wait buf_size fuel s =
     (let limited = rl_is_enabled (snd (rs_limiter s))
      in relay_copy fuel (relay_read wait False buf_size source_read)
           (relay_write wait limited conn_write) 0 s)"


section \<open>What the relay delivers\<close>

definition harmonized_first :: "harmonize_fun \<Rightarrow> ua_harmonizer \<Rightarrow> bytes \<Rightarrow> bytes" where
  "harmonized_first harmonize h temp =
     (case harmonize h temp of ((d, e), h') \<Rightarrow> if \<not> e \<and> d \<noteq> [] then d else temp)"

context io_reader
begin

text \<open>What the harmonising reader still has to deliver, and when its buffer is in order.\<close>

definition ua_active :: "'r ua_reader \<Rightarrow> bool" where
  "ua_active u \<longleftrightarrow> (\<exists>h. ur_uah u = Some h \<and> ua_is_enabled h) \<and> \<not> ur_inspected u"

definition ua_pending :: "harmonize_fun \<Rightarrow> 'r ua_reader \<Rightarrow> bytes" where
  "ua_pending harmonize u =
     (if ua_active u
      then (case rd 4096 (ur_src u) of
              ((temp, err), src') \<Rightarrow>
                if temp \<noteq> [] then harmonized_first harmonize (the (ur_uah u)) temp @ pending src'
                else [])
      else drop (ur_offset u) (ur_buf u) @ pending (ur_src u))"

definition ua_ready :: "'r ua_reader \<Rightarrow> bool" where
  "ua_ready u \<longleftrightarrow> ready (ur_src u) \<and> (ur_buf u \<noteq> [] \<longrightarrow> ur_offset u < length (ur_buf u)) \<and>
     (ur_buf u \<noteq> [] \<longrightarrow> ur_inspected u)"

lemma take_buffered_spec:
  assumes "take_buffered k u = (data, u')" and "0 < k" and "ur_offset u < length (ur_buf u)"
  shows "drop (ur_offset u) (ur_buf u) = data @ drop (ur_offset u') (ur_buf u') \<and> data \<noteq> [] \<and>
    length data \<le> k \<and> ur_src u' = ur_src u \<and> ur_inspected u' = ur_inspected u \<and>
    (ur_buf u' \<noteq> [] \<longrightarrow> ur_offset u' < length (ur_buf u'))"
proof -
  let ?b = "drop (ur_offset u) (ur_buf u)"
  have d: "data = take k ?b" and u': "u' = u\<lparr>ur_offset := ur_offset u + length data,
      ur_buf := (if ur_offset u + length data \<ge> length (ur_buf u) then [] else ur_buf u)\<rparr>"
    using assms(1) by (auto simp: take_buffered_def Let_def)
  have "drop (ur_offset u') (ur_buf u') = drop k ?b"
    using assms(3) by (auto simp: u' d add.commute)
  then have "?b = data @ drop (ur_offset u') (ur_buf u')"
    by (simp only: d append_take_drop_id)
  moreover have "data \<noteq> []" "length data \<le> k"
    using assms(2,3) by (simp_all add: d)
  ultimately show ?thesis
    by (auto simp: u')
qed

lemma ua_read_spec:
  assumes u: "ua_ready u" and k: "0 < k" and r: "ua_read rd harmonize k u = ((data, err), u')"
  shows "ua_pending harmonize u = data @ ua_pending harmonize u' \<and> length data \<le> k \<and> ua_ready u' \<and>
    (if err then data = [] \<and> ua_pending harmonize u = [] else data \<noteq> [])"
proof (cases "ua_active u")
  case False
  then have c: "(case ur_uah u of None \<Rightarrow> True | Some h \<Rightarrow> \<not> ua_is_enabled h) \<or> ur_inspected u"
    by (auto simp: ua_active_def split: option.splits)
  show ?thesis
  proof (cases "ur_buf u = []")
    case True
    obtain src' where s: "rd k (ur_src u) = ((data, err), src')" and u': "u' = u\<lparr>ur_src := src'\<rparr>"
      using r c True by (auto simp: ua_read_def split: prod.splits)
    have "\<not> ua_active u'" using False by (simp add: ua_active_def u')
    with False True u read_pending[OF _ k s] read_progress[OF _ k s] show ?thesis
      by (auto simp: ua_pending_def ua_ready_def u' split: if_splits)
  next
    case ne: False
    obtain e: "\<not> err" and t: "take_buffered k u = (data, u')"
      using r c ne by (auto simp: ua_read_def split: prod.splits)
    have o: "ur_offset u < length (ur_buf u)" "ur_inspected u"
      using u ne by (auto simp: ua_ready_def)
    note t = take_buffered_spec[OF t k o(1)]
    have "\<not> ua_active u'" using o t by (simp add: ua_active_def)
    with False e u t o show ?thesis
      by (auto simp: ua_pending_def ua_ready_def)
  qed
next
  case True
  then have c: "\<not> ((case ur_uah u of None \<Rightarrow> True | Some h \<Rightarrow> \<not> ua_is_enabled h) \<or> ur_inspected u)"
    by (auto simp: ua_active_def)
  obtain temp er src' where s: "rd 4096 (ur_src u) = ((temp, er), src')"
    by (metis prod.exhaust)
  have src: "ready (ur_src u)" using u by (simp add: ua_ready_def)
  have p: "pending (ur_src u) = temp @ pending src'" "ready src'"
      "if er then temp = [] \<and> pending (ur_src u) = [] else temp \<noteq> []"
    using read_pending[OF src _ s] read_progress[OF src _ s] by auto
  show ?thesis
  proof (cases "temp = []")
    case t: True
    then have "u' = u\<lparr>ur_inspected := True, ur_src := src'\<rparr>" "data = []" "err = er"
      using r c s by (auto simp: ua_read_def Let_def)
    moreover have "ur_buf u = []" using True u by (auto simp: ua_ready_def ua_active_def)
    ultimately show ?thesis
      using True s p t by (auto simp: ua_pending_def ua_active_def ua_ready_def split: if_splits)
  next
    case t: False
    let ?d = "harmonized_first harmonize (the (ur_uah u)) temp"
    obtain d e h' where h: "harmonize (the (ur_uah u)) temp = ((d, e), h')"
      by (metis prod.exhaust)
    let ?u2 = "u\<lparr>ur_inspected := True, ur_src := src', ur_uah := Some h', ur_buf := ?d, ur_offset := 0\<rparr>"
    have d: "?d = (if \<not> e \<and> d \<noteq> [] then d else temp)" "?d \<noteq> []"
      using t by (auto simp: harmonized_first_def h)
    have er: "\<not> er" using p(3) t by (auto split: if_splits)
    obtain tb: "take_buffered k ?u2 = (data, u')" and e: "err = er"
      using r c s t h d(1) by (auto simp: ua_read_def Let_def split: prod.splits)
    have "ur_offset ?u2 < length (ur_buf ?u2)" using d(2) by simp
    note tb = take_buffered_spec[OF tb k this]
    have "\<not> ua_active u'" using tb by (simp add: ua_active_def)
    moreover have "ua_ready u'" using tb p(2) by (auto simp: ua_ready_def)
    moreover have "ua_pending harmonize u = ?d @ pending src'"
      using True s t by (simp add: ua_pending_def)
    ultimately show ?thesis
      using tb e er by (simp add: ua_pending_def)
  qed
qed

lemma ua_io_reader: "io_reader (ua_read rd harmonize) (ua_pending harmonize) ua_ready"
  by unfold_locales (use ua_read_spec in blast)+

end

interpretation ua_source: io_reader "ua_read source_read harmonize" "source.ua_pending harmonize"
    source.ua_ready for harmonize
  by (rule source.ua_io_reader)


lemma relay_read_Some:
  assumes "relay_read wait lim k rd s = Some ((data, err), s1)"
  shows "rd k (rs_reader s) = ((data, err), rs_reader s1) \<and> rs_writer s1 = rs_writer s"
  using assms
  by (auto simp: relay_read_def rate_limited_read_def split: if_splits prod.splits option.splits)

lemma relay_write_Some:
  assumes "relay_write wait lim wr p s = Some ((n, e), s1)"
  shows "wr p (rs_writer s) = ((n, e), rs_writer s1) \<and> rs_reader s1 = rs_reader s"
  using assms
  by (auto simp: relay_write_def rate_limited_write_def split: if_splits prod.splits option.splits)

lemma relay_copy_delivers:
  assumes R: "io_reader rd pending ready" and W: "io_writer wr sink usable broken" and k: "0 < k"
  shows "relay_copy fuel (relay_read wait lim k rd) (relay_write wait lim' wr) acc s = Some (tot, s') \<Longrightarrow>
    ready (rs_reader s) \<Longrightarrow> usable (rs_writer s) \<Longrightarrow>
    \<exists>n \<le> length (pending (rs_reader s)).
      sink (rs_writer s') = sink (rs_writer s) @ take n (pending (rs_reader s)) \<and> tot = acc + n \<and>
      (n < length (pending (rs_reader s)) \<longrightarrow> broken (rs_writer s'))"
proof (induction fuel arbitrary: acc s)
  case 0
  then show ?case by simp
next
  case (Suc fuel)
  obtain data err s1 where r: "relay_read wait lim k rd s = Some ((data, err), s1)"
    using Suc.prems(1) by (auto split: option.splits)
  note r' = relay_read_Some[OF r]
  have p: "pending (rs_reader s) = data @ pending (rs_reader s1)" "ready (rs_reader s1)"
      "if err then data = [] \<and> pending (rs_reader s) = [] else data \<noteq> []"
    using io_reader.read_pending[OF R Suc.prems(2) k] io_reader.read_progress[OF R Suc.prems(2) k] r'
    by blast+
  show ?case
  proof (cases err)
    case True
    with p Suc.prems(1) r r' show ?thesis by auto
  next
    case False
    then have d: "data \<noteq> []" using p(3) by simp
    obtain nw ew s2 where w: "relay_write wait lim' wr data s1 = Some ((nw, ew), s2)"
      using Suc.prems(1) r d by (auto split: option.splits)
    note w' = relay_write_Some[OF w]
    have u: "usable (rs_writer s1)" using Suc.prems(3) r' by simp
    have sk: "sink (rs_writer s2) = sink (rs_writer s) @ take nw data" "nw \<le> length data"
        "usable (rs_writer s2)"
      using io_writer.write_sink[OF W u] io_writer.write_count[OF W u] io_writer.write_usable[OF W u] w' r'
      by auto
    show ?thesis
    proof (cases ew)
      case (Some x)
      have "broken (rs_writer s2)"
        using io_writer.write_broken[OF W u, of data nw x] w' Some by simp
      moreover have "tot = acc + nw" "s' = s2"
        using Suc.prems(1) r d w Some by simp_all
      ultimately show ?thesis
        using sk p(1) by (intro exI[of _ nw]) auto
    next
      case None
      have nw: "nw = length data"
        using io_writer.write_short[OF W u, of data nw] w' None by simp
      have rec: "relay_copy fuel (relay_read wait lim k rd) (relay_write wait lim' wr) (acc + nw) s2 = Some (tot, s')"
        using Suc.prems(1) r d w None nw False by simp
      have "ready (rs_reader s2)" using p(2) w' by simp
      from Suc.IH[OF rec this sk(3)] obtain n where n: "n \<le> length (pending (rs_reader s1))"
        "sink (rs_writer s') = sink (rs_writer s2) @ take n (pending (rs_reader s1))"
        "tot = acc + nw + n" "n < length (pending (rs_reader s1)) \<longrightarrow> broken (rs_writer s')"
        using w' by auto
      then show ?thesis
        using sk(1) p(1) nw by (intro exI[of _ "nw + n"]) auto
    qed
  qed
qed

lemma relay_copy_terminates:
  assumes R: "io_reader rd pending ready" and W: "io_writer wr sink usable broken" and k: "0 < k"
  shows "length (pending (rs_reader s)) < fuel \<Longrightarrow> ready (rs_reader s) \<Longrightarrow> usable (rs_writer s) \<Longrightarrow>
    relay_copy fuel (relay_read wait False k rd) (relay_write wait False wr) acc s \<noteq> None"
proof (induction fuel arbitrary: acc s)
  case 0
  then show ?case by simp
next
  case (Suc fuel)
  obtain data err rd' where r: "rd k (rs_reader s) = ((data, err), rd')" by (metis prod.exhaust)
  have p: "pending (rs_reader s) = data @ pending rd'" "ready rd'"
      "if err then data = [] \<and> pending (rs_reader s) = [] else data \<noteq> []"
    using io_reader.read_pending[OF R Suc.prems(2) k r] io_reader.read_progress[OF R Suc.prems(2) k r]
    by auto
  obtain nw ew w' where w: "wr data (rs_writer s) = ((nw, ew), w')" by (metis prod.exhaust)
  have u: "usable w'" using io_writer.write_usable[OF W Suc.prems(3) w] .
  let ?s2 = "s\<lparr>rs_reader := rd', rs_writer := w'\<rparr>"
  have "length (pending (rs_reader ?s2)) < fuel" if "data \<noteq> []"
    using that p(1) Suc.prems(1) by (cases data) auto
  then show ?case
    using Suc.IH[of ?s2] p u r w
    by (auto simp: relay_read_def relay_write_def split: if_splits)
qed

text \<open>
  What the target should see of a client's connection: the bytes as they came, except that
  the first segment, up to 4096 bytes of it, goes through the harmonizer when that is on.
\<close>

definition client_stream :: "harmonize_fun \<Rightarrow> ua_harmonizer option \<Rightarrow> bytes list \<Rightarrow> bytes" where
  "client_stream harmonize uah segs =
     (case (uah, segs) of
        (Some h, c # cs) \<Rightarrow>
          if ua_is_enabled h
          then harmonized_first harmonize h (take 4096 c) @ drop 4096 c @ concat cs
          else concat segs
      | _ \<Rightarrow> concat segs)"

definition new_ua_reader :: "bytes list \<Rightarrow> ua_harmonizer option \<Rightarrow> bytes list ua_reader" where
  "new_ua_reader segs uah =
     \<lparr>ur_src = segs, ur_uah = uah, ur_inspected = False, ur_buf = [], ur_offset = 0\<rparr>"

lemma new_ua_reader_pending:
  "[] \<notin> set segs \<Longrightarrow> source.ua_pending harmonize (new_ua_reader segs uah) = client_stream harmonize uah segs"
  by (cases segs; cases uah)
    (auto simp: source.ua_pending_def source.ua_active_def client_stream_def new_ua_reader_def)

lemma new_ua_reader_ready: "[] \<notin> set segs \<Longrightarrow> source.ua_ready (new_ua_reader segs uah)"
  by (simp add: source.ua_ready_def new_ua_reader_def)

section \<open>Properties\<close>

lemma relay_copies_prefix:
  assumes "[] \<notin> set segs" and "0 < buf_size"
    and "rs_reader s = new_ua_reader segs uah" and "rs_writer s = (fo, k, target)"
    and "\<And>f. fo = Some f \<Longrightarrow> frag_wf f \<and> plain_strategy f"
    and "relay_client_to_target wait ent harmonize buf_size fuel s = Some (total_in, s')"
  shows "outp (snd (snd (rs_writer s'))) = outp target @ take total_in (client_stream harmonize uah segs) \<and>
    total_in \<le> length (client_stream harmonize uah segs) \<and>
    (total_in < length (client_stream harmonize uah segs) \<longrightarrow> wcap (snd (snd (rs_writer s'))) = 0)"
proof -
  have u: "fw_usable (\<lambda>c. True) (rs_writer s)"
    using assms(4,5) by (auto simp: fw_usable_def split: option.split)
  have r: "source.ua_ready (rs_reader s)"
    using assms(1,3) by (simp add: new_ua_reader_ready)
  from relay_copy_delivers[OF ua_source.io_reader_axioms frag_conn.io_writer_axioms assms(2)
      assms(6)[unfolded relay_client_to_target_def Let_def] r u]
  show ?thesis
    using assms(1,3,4) by (auto simp: new_ua_reader_pending)
qed

text \<open>
  C3. The relay neither loses, invents nor reorders bytes. Whatever segments the client's
  bytes come in, with or without harmonizer and rate limit, with fragmentation switched off or
  of the fixed or random kind, and however the target's connection fails: when the
  client-to-target loop ends, what it has put on the target's connection is the beginning of
  the client's stream (its first segment harmonised), the number of bytes it reports is the
  length of that, and if it is not the whole stream the connection takes no more bytes. (For the TLS
  kind see \<open>relay_tls_split_stops\<close>; the deadlines the other goroutine sets are in theory RelayPair.)
\<close>

theorem relay_delivers:
  assumes "[] \<notin> set segs" and "0 < buf_size"
    and "rs_reader s = new_ua_reader segs uah" and "rs_writer s = (fo, k, target)"
    and "\<And>f. fo = Some f \<Longrightarrow> frag_wf f \<and> plain_strategy f"
    and "relay_client_to_target wait ent harmonize buf_size fuel s = Some (total_in, s')"
  shows "outp (snd (snd (rs_writer s'))) = outp target @ take total_in (client_stream harmonize uah segs) \<and>
    total_in \<le> length (client_stream harmonize uah segs) \<and>
    (total_in < length (client_stream harmonize uah segs) \<longrightarrow> wcap (snd (snd (rs_writer s'))) = 0)"
  using assms by (rule relay_copies_prefix)

definition no_wait :: "int \<Rightarrow> int \<times> rate_limiter \<Rightarrow> (int \<times> rate_limiter) option" where
  "no_wait n l = Some l"

definition example_relay :: "(bytes list ua_reader, conn fw_state) relay_state" where
  "example_relay = \<lparr>rs_reader = new_ua_reader [[1, 2], [3]] None,
     rs_writer = (None, 0, \<lparr>inp = [], outp = [], wcap = 100\<rparr>), rs_limiter = (0, new_rate_limiter 0 0 0)\<rparr>"

theorem relay_delivers_witness:
  "\<exists>s'. relay_client_to_target no_wait (\<lambda>_. None) (\<lambda>h d. ((d, False), h)) 8 5 example_relay = Some (3, s') \<and>
     outp (snd (snd (rs_writer s'))) = [1, 2, 3]"
proof -
  let ?s = example_relay
  have e: "rs_reader ?s = new_ua_reader [[1, 2], [3]] None"
      "rs_writer ?s = (None, 0, \<lparr>inp = [], outp = [], wcap = 100\<rparr>)"
    by (simp_all add: example_relay_def)
  obtain s' where s': "relay_client_to_target no_wait (\<lambda>_. None) (\<lambda>h d. ((d, False), h)) 8 5 ?s = Some (3, s')"
    by (simp add: relay_client_to_target_def relay_read_def relay_write_def ua_read_def
        fragmenting_write_def new_ua_reader_def conn_write_def rl_is_enabled_def new_rate_limiter_def
        example_relay_def eval_nat_numeral)
  have n: "[] \<notin> set [[1, 2], [3 :: byte]]" and k: "0 < (8 :: nat)"
    by simp_all
  from relay_delivers [OF n k e _ s'] s' show ?thesis
    by (simp add: client_stream_def)
qed

lemma relay_loop_ends:
  assumes "[] \<notin> set segs" and "0 < buf_size"
    and "rs_reader s = new_ua_reader segs uah" and "rs_writer s = (fo, k, target)"
    and "\<And>f. fo = Some f \<Longrightarrow> frag_wf f \<and> plain_strategy f"
    and "\<not> rl_is_enabled (snd (rs_limiter s))"
    and "length (client_stream harmonize uah segs) < fuel"
  shows "\<exists>total_in s'. relay_client_to_target wait ent harmonize buf_size fuel s = Some (total_in, s')"
proof -
  have u: "fw_usable (\<lambda>c. True) (rs_writer s)"
    using assms(4,5) by (auto simp: fw_usable_def split: option.split)
  have r: "source.ua_ready (rs_reader s)" "length (source.ua_pending harmonize (rs_reader s)) < fuel"
    using assms(1,3,7) by (simp_all add: new_ua_reader_ready new_ua_reader_pending)
  from relay_copy_terminates[OF ua_source.io_reader_axioms frag_conn.io_writer_axioms assms(2)
      r(2,1) u, of wait ent 0]
  show ?thesis
    using assms(6) by (auto simp: relay_client_to_target_def)
qed

text \<open>
  The relay loop ends: without a rate limit, with more turns than the stream has bytes
  the loop has returned.
\<close>

theorem relay_terminates:
  assumes "[] \<notin> set segs" and "0 < buf_size"
    and "rs_reader s = new_ua_reader segs uah" and "rs_writer s = (fo, k, target)"
    and "\<And>f. fo = Some f \<Longrightarrow> frag_wf f \<and> plain_strategy f"
    and "\<not> rl_is_enabled (snd (rs_limiter s))"
    and "length (client_stream harmonize uah segs) < fuel"
  shows "\<exists>total_in s'. relay_client_to_target wait ent harmonize buf_size fuel s = Some (total_in, s')"
  using assms by (rule relay_loop_ends)

theorem relay_terminates_witness:
  "\<exists>total_in s'. relay_client_to_target no_wait (\<lambda>_. None) (\<lambda>h d. ((d, False), h)) 8 4 example_relay
     = Some (total_in, s')"
proof -
  have e: "rs_reader example_relay = new_ua_reader [[1, 2], [3]] None"
      "rs_writer example_relay = (None, 0, \<lparr>inp = [], outp = [], wcap = 100\<rparr>)"
      "\<not> rl_is_enabled (snd (rs_limiter example_relay))"
    by (simp_all add: example_relay_def rl_is_enabled_def new_rate_limiter_def)
  show ?thesis
    by (rule relay_terminates [OF _ _ e(1,2) _ e(3)]) (simp_all add: client_stream_def)
qed


section \<open>The TLS strategy in the relay\<close>

lemma conn_write_frags_ok:
  "length (concat fs) \<le> wcap c \<Longrightarrow> write_frags conn_write fs c
     = ((length (concat fs), None), c\<lparr>outp := outp c @ concat fs, wcap := wcap c - length (concat fs)\<rparr>)"
proof (induction fs arbitrary: c)
  case (Cons f fs)
  then have "length f \<le> wcap c" "length (concat fs) \<le> wcap (c\<lparr>outp := outp c @ f, wcap := wcap c - length f\<rparr>)"
    by auto
  with Cons.IH show ?case by (simp add: conn_write_def)
qed simp

lemma pieces_length: "pieces hi p fs \<Longrightarrow> int (length p) \<le> hi * int (length fs)"
proof (induction fs arbitrary: p)
  case (Cons f fs)
  then have "pieces hi (concat fs) fs" "int (length f) \<le> hi" "p = f @ concat fs"
    by (auto simp: pieces_def)
  with Cons.IH[of "concat fs"] show ?case by (simp add: distrib_left)
qed (simp add: pieces_def)

lemma length_concat_records:
  "length (concat (map (tls_record ct v0 v1) bodies)) = length (concat bodies) + 5 * length bodies"
  by (induction bodies) (simp_all add: tls_record_def)

text \<open>
  With the TLS strategy the relay gives up on the first record it splits. If a segment of
  the client is a complete handshake or application data record whose body is longer than one
  fragment's, splitting it puts more bytes on the wire than the segment has; the writer
  returns that larger count without an error, the loop takes it for a short write, and the
  connection ends with the rest of the client's stream unread.
\<close>

theorem relay_tls_split_stops:
  assumes f: "frag_wf f" "frag_enabled (frag_cfg f)" "frag_strategy (frag_cfg f) = StrategyTLSSplit"
    and p: "p ! 0 \<in> {0x16, 0x17}" "5 \<le> length p" "n = unat (be16 (p ! 3) (p ! 4))" "length p = 5 + n"
    and long: "max_fragment_len (frag_cfg f) - 5 < int n"
    and "length p \<le> buf_size" and "6 * length p \<le> wcap target"
    and "rs_reader s = new_ua_reader (p # segs) None" and "rs_writer s = (Some f, k, target)"
    and "\<not> rl_is_enabled (snd (rs_limiter s))"
  shows "\<exists>total_in s'. relay_client_to_target wait ent harmonize buf_size (Suc fuel) s = Some (total_in, s') \<and>
    length p < total_in \<and> concat (ur_src (rs_reader s')) = concat segs"
proof -
  let ?rec = "tls_record (p ! 0) (p ! 1) (p ! 2)" and ?hi = "max_fragment_len (frag_cfg f)"
  obtain k' f' bodies extra where r: "fragment ent k f p = (Inr (map ?rec bodies @ extra), k', f')"
    and b: "pieces (?hi - 5) (take n (drop 5 p)) bodies" and e: "pieces ?hi (drop (5 + n) p) extra"
    using fragment_tls_shape[OF f p(1,2,3), of ent k] p(4) by auto
  have x: "extra = []"
    using e p(4) by (cases extra) (auto simp: pieces_def)
  have lb: "length (concat bodies) = n"
    using b p(4) by (simp add: pieces_def)
  have "int n \<le> (?hi - 5) * int (length bodies)"
    using pieces_length[OF b] p(4) by simp
  then have two: "2 \<le> length bodies"
    using long f(1) by (cases bodies; cases "tl bodies") (auto simp: frag_wf_def)
  have "length bodies \<le> n"
  proof -
    have "1 \<le> length y" if "y \<in> set bodies" for y
      using b that by (cases y) (auto simp: pieces_def)
    then have "sum_list (map (\<lambda>_. 1) bodies) \<le> sum_list (map length bodies)"
      by (intro sum_list_mono) auto
    then show ?thesis using lb by (simp add: length_concat sum_list_triv)
  qed
  then have cap: "length (concat (map ?rec bodies)) \<le> wcap target"
    using assms(10) p(4) lb by (simp add: length_concat_records)
  have w: "fragmenting_write conn_write ent p (Some f, k, target)
      = ((n + 5 * length bodies, None), (Some f', k', target\<lparr>outp := outp target @ concat (map ?rec bodies),
          wcap := wcap target - (n + 5 * length bodies)\<rparr>))"
    using f(2) r x two conn_write_frags_ok[OF cap] lb
    by (auto simp: fragmenting_write_def frag_is_enabled_def length_concat_records)
  have pn: "p \<noteq> []" using p(2) by auto
  have rd: "ua_read source_read harmonize buf_size (new_ua_reader (p # segs) None)
      = ((p, False), (new_ua_reader segs None))"
    using assms(9) by (simp add: ua_read_def new_ua_reader_def)
  show ?thesis
    using assms(11,12,13) w rd pn two p(4)
    by (simp add: relay_client_to_target_def relay_read_def relay_write_def) (simp add: new_ua_reader_def)
qed

definition example_tls_fragmenter :: fragmenter where
  "example_tls_fragmenter =
     \<lparr>frag_cfg = \<lparr>frag_strategy = StrategyTLSSplit, max_fragment_len = 64, min_fragment_len = 64,
                 frag_enabled = True\<rparr>, frag_st = empty_fragment_stats\<rparr>"

theorem relay_tls_split_stops_witness:
  "\<exists>total_in s'. relay_client_to_target no_wait (\<lambda>_. None) (\<lambda>h d. ((d, False), h)) 32768 9
      \<lparr>rs_reader = new_ua_reader [[0x17, 3, 3, 0, 100] @ replicate 100 0, [1, 2]] None,
       rs_writer = (Some example_tls_fragmenter, 0, \<lparr>inp = [], outp = [], wcap = 1000\<rparr>),
       rs_limiter = (0, new_rate_limiter 0 0 0)\<rparr> = Some (total_in, s') \<and>
    105 < total_in \<and> concat (ur_src (rs_reader s')) = [1, 2]"
proof -
  let ?p = "[0x17, 3, 3, 0, 100] @ replicate 100 0 :: bytes"
  let ?s = "\<lparr>rs_reader = new_ua_reader [?p, [1, 2]] None,
       rs_writer = (Some example_tls_fragmenter, 0 :: nat, \<lparr>inp = [], outp = [], wcap = 1000\<rparr>),
       rs_limiter = (0 :: int, new_rate_limiter 0 0 0)\<rparr>"
  have f: "frag_wf example_tls_fragmenter" "frag_enabled (frag_cfg example_tls_fragmenter)"
      "frag_strategy (frag_cfg example_tls_fragmenter) = StrategyTLSSplit"
    by (simp_all add: frag_wf_def example_tls_fragmenter_def)
  have p: "?p ! 0 \<in> {0x16, 0x17}" "5 \<le> length ?p" "100 = unat (be16 (?p ! 3) (?p ! 4))" "length ?p = 5 + 100"
      "max_fragment_len (frag_cfg example_tls_fragmenter) - 5 < int 100" "length ?p \<le> 32768"
      "6 * length ?p \<le> wcap \<lparr>inp = [], outp = [], wcap = 1000\<rparr>"
    by (simp_all add: unat_be16 example_tls_fragmenter_def)
  have s: "rs_reader ?s = new_ua_reader (?p # [[1, 2]]) None"
      "rs_writer ?s = (Some example_tls_fragmenter, 0, \<lparr>inp = [], outp = [], wcap = 1000\<rparr>)"
      "\<not> rl_is_enabled (snd (rs_limiter ?s))"
    by (simp_all add: rl_is_enabled_def new_rate_limiter_def)
  from relay_tls_split_stops [OF f p s, of no_wait "\<lambda>_. None" "\<lambda>h d. ((d, False), h)" 8] show ?thesis
    by simp
qed

section \<open>The rate limit in the relay\<close>

text \<open>
  Client-to-target bytes are charged twice to the same limiter, once when read and once when
  written: forwarding a chunk of \<open>n\<close> bytes without a refill takes \<open>2n\<close> tokens.
\<close>

theorem relay_charges_twice:
  assumes "wait = (\<lambda>n (now, l). rl_wait (\<lambda>e r. 0) wt (\<lambda>_. 0) 1 now n l)"
    and "rs_limiter s = (t, l)" and "rl_enabled l"
    and "relay_read wait True k rd s = Some ((data, err), s1)" and "data \<noteq> []"
    and "relay_write wait True wr data s1 = Some ((nw, ew), s2)"
  shows "tokens (snd (rs_limiter s2)) = tokens l - 2 * int (length data)"
proof -
  have r: "rl_wait (\<lambda>e r. 0) wt (\<lambda>_. 0) (Suc 0) t m l'
      = (if m \<le> tokens l' then Some (t, l'\<lparr>tokens := tokens l' - m\<rparr>) else None)"
    if "rl_enabled l'" "0 < m" for l' m t
    using that by (simp add: rl_wait_def wait_turn_def refill_def Let_def)
  have "rs_limiter s1 = (t, l\<lparr>tokens := tokens l - int (length data)\<rparr>)"
    using assms(2-5) unfolding assms(1)
    by (auto simp: relay_read_def rate_limited_read_def rl_is_enabled_def r
        split: prod.splits option.splits if_splits)
  then show ?thesis
    using assms(3,5,6) unfolding assms(1)
    by (auto simp: relay_write_def rate_limited_write_def rl_is_enabled_def r
        split: prod.splits option.splits if_splits)
qed

end
