(* ===== verification/RelayPair.thy ===== *)
theory RelayPair
  imports Relay
begin

text \<open>
  The two directions of the relay of \<^verbatim>\<open>proxy/socks5.go\<close> side by side, in small steps: both
  goroutines with their wrapped readers and writers (harmonizer, fragmenter, rate limiter), the
  deferred calls that end them (\<^verbatim>\<open>wg.Done\<close>, \<^verbatim>\<open>cancel\<close>, \<^verbatim>\<open>closeSockets\<close>), the watchdog on the
  context, and what happens around them: the two ends send and close when they like, the server
  stops, time passes, and other connections use the same limiter.
\<close>

section \<open>One direction\<close>

text \<open>
  Where a goroutine is: before \<^verbatim>\<open>Read\<close>, in the limiter after it, before \<^verbatim>\<open>Write\<close>, in the limiter
  before it, in the writes (how much this \<^verbatim>\<open>Write\<close> has passed on, what is left, the length of the
  chunk), out of the loop, then with \<^verbatim>\<open>wg.Done\<close>, \<^verbatim>\<open>cancel\<close> and \<^verbatim>\<open>closeSockets\<close> called. The flag is
  the error the read returned beside its data.
\<close>

datatype copy_pc =
  PRead | PWaitRead bytes bool | PChunk bytes bool | PWaitWrite bytes bool
| PSend nat bytes nat bool | PEnd | PDone | PCancelled | PClosed

text \<open>
  The source of the reader has what has arrived and is not read yet; \<open>p_came\<close> is all that has
  arrived, \<open>p_eof\<close> says that the sender has closed, \<open>p_out\<close> is what was passed on, \<open>p_failed\<close> a
  failure of a connection other than a deadline. Whether reader and writer are wrapped by the
  limiter is decided at the start.
\<close>

record pipe =
  p_pc :: copy_pc
  p_rd :: "bytes list ua_reader"
  p_frag :: "fragmenter option \<times> nat"
  p_lim_rd :: bool
  p_lim_wr :: bool
  p_eof :: bool
  p_out :: bytes
  p_total :: nat
  p_failed :: bool
  p_uah :: "ua_harmonizer option"
  p_came :: "bytes list"

definition new_pipe ::
  "ua_harmonizer option \<Rightarrow> fragmenter option \<times> nat \<Rightarrow> bool \<Rightarrow> bool \<Rightarrow> bytes list \<Rightarrow> pipe" where
  "new_pipe uah fo lim_rd lim_wr segs =
     \<lparr>p_pc = PRead, p_rd = new_ua_reader segs uah, p_frag = fo, p_lim_rd = lim_rd, p_lim_wr = lim_wr,
      p_eof = False, p_out = [], p_total = 0, p_failed = False, p_uah = uah, p_came = segs\<rparr>"

text \<open>What both goroutines and the watchdog share.\<close>

record shared =
  sh_limiter :: rate_limiter
  sh_now :: int
  expired :: bool
  ctx_done :: bool

text \<open>The library and the configuration: random numbers, the harmonizer, tokens accrued, the buffer.\<close>

record relay_env =
  re_ent :: entropy
  re_harmonize :: harmonize_fun
  re_toks :: tok_fun
  re_buf :: nat

text \<open>The writes \<^verbatim>\<open>fragmentingWriter.Write\<close> makes for a chunk.\<close>

definition split_chunk :: "entropy \<Rightarrow> fragmenter option \<times> nat \<Rightarrow> bytes \<Rightarrow> bytes list \<times> fragmenter option \<times> nat" where
  "split_chunk ent fk p =
     (case fk of
        (None, k) \<Rightarrow> ([p], None, k)
      | (Some f, k) \<Rightarrow>
          if \<not> frag_is_enabled f then ([p], Some f, k)
          else (case fragment ent k f p of
                  (Inl e, k', f') \<Rightarrow> ([p], Some f', k')
                | (Inr fs, k', f') \<Rightarrow> (if fs = [] then [p] else fs, Some f', k')))"

definition after_read :: "bool \<Rightarrow> bytes \<Rightarrow> bool \<Rightarrow> copy_pc" where
  "after_read limited data err =
     (if data = [] then (if err then PEnd else PRead)
      else if limited then PWaitRead data err else PChunk data err)"

definition start_writes :: "relay_env \<Rightarrow> bytes \<Rightarrow> bool \<Rightarrow> pipe \<Rightarrow> pipe" where
  "start_writes env data err p =
     (let (fs, fk) = split_chunk (re_ent env) (p_frag p) data
      in p\<lparr>p_frag := fk, p_pc := PSend 0 (concat fs) (length data) err\<rparr>)"

text \<open>
  A step of a goroutine. A read that can return does: with buffered bytes, or, unless the deadline
  has passed, with bytes that have arrived or at the end of the stream. Writes pass their bytes on
  in pieces, until the deadline passes or the connection fails.
\<close>

inductive pipe_step :: "relay_env \<Rightarrow> pipe \<times> shared \<Rightarrow> pipe \<times> shared \<Rightarrow> bool" for env where
  read_some: "p_pc p = PRead \<Longrightarrow>
    ur_buf (p_rd p) \<noteq> [] \<or> \<not> expired h \<and> (ur_src (p_rd p) \<noteq> [] \<or> p_eof p) \<Longrightarrow>
    ua_read source_read (re_harmonize env) (re_buf env) (p_rd p) = ((data, err), r) \<Longrightarrow>
    pipe_step env (p, h)
      (p\<lparr>p_rd := r, p_pc := after_read (p_lim_rd p \<and> rl_is_enabled (sh_limiter h)) data err\<rparr>, h)"
| read_fails: "p_pc p = PRead \<Longrightarrow> ur_buf (p_rd p) = [] \<Longrightarrow> \<not> expired h \<Longrightarrow>
    pipe_step env (p, h) (p\<lparr>p_pc := PEnd, p_failed := True\<rparr>, h)"
| read_late: "p_pc p = PRead \<Longrightarrow> ur_buf (p_rd p) = [] \<Longrightarrow> expired h \<Longrightarrow>
    pipe_step env (p, h) (p\<lparr>p_pc := PEnd\<rparr>, h)"
| wait_read: "p_pc p = PWaitRead data err \<Longrightarrow>
    wait_turn (re_toks env) (sh_now h) (int (length data)) (sh_limiter h) = (ok, l) \<Longrightarrow>
    pipe_step env (p, h) (p\<lparr>p_pc := (if ok then PChunk data err else p_pc p)\<rparr>, h\<lparr>sh_limiter := l\<rparr>)"
| chunk_limited: "p_pc p = PChunk data err \<Longrightarrow> p_lim_wr p \<and> rl_is_enabled (sh_limiter h) \<Longrightarrow>
    pipe_step env (p, h) (p\<lparr>p_pc := PWaitWrite data err\<rparr>, h)"
| chunk: "p_pc p = PChunk data err \<Longrightarrow> \<not> (p_lim_wr p \<and> rl_is_enabled (sh_limiter h)) \<Longrightarrow>
    pipe_step env (p, h) (start_writes env data err p, h)"
| wait_write: "p_pc p = PWaitWrite data err \<Longrightarrow>
    wait_turn (re_toks env) (sh_now h) (int (length data)) (sh_limiter h) = (ok, l) \<Longrightarrow>
    pipe_step env (p, h) (if ok then start_writes env data err p else p, h\<lparr>sh_limiter := l\<rparr>)"
| send: "p_pc p = PSend n rest nr err \<Longrightarrow> \<not> expired h \<Longrightarrow> 0 < m \<Longrightarrow> m \<le> length rest \<Longrightarrow>
    pipe_step env (p, h)
      (p\<lparr>p_out := p_out p @ take m rest, p_total := p_total p + m, p_pc := PSend (n + m) (drop m rest) nr err\<rparr>, h)"
| send_fails: "p_pc p = PSend n rest nr err \<Longrightarrow> rest \<noteq> [] \<Longrightarrow> \<not> expired h \<Longrightarrow>
    pipe_step env (p, h) (p\<lparr>p_pc := PEnd, p_failed := True\<rparr>, h)"
| send_late: "p_pc p = PSend n rest nr err \<Longrightarrow> rest \<noteq> [] \<Longrightarrow> expired h \<Longrightarrow>
    pipe_step env (p, h) (p\<lparr>p_pc := PEnd\<rparr>, h)"
| sent: "p_pc p = PSend n [] nr err \<Longrightarrow>
    pipe_step env (p, h) (p\<lparr>p_pc := (if nr \<noteq> n \<or> err then PEnd else PRead)\<rparr>, h)"
| finish: "p_pc p = PEnd \<Longrightarrow> pipe_step env (p, h) (p\<lparr>p_pc := PDone\<rparr>, h)"
| cancel: "p_pc p = PDone \<Longrightarrow> pipe_step env (p, h) (p\<lparr>p_pc := PCancelled\<rparr>, h\<lparr>ctx_done := True\<rparr>)"
| close_sockets: "p_pc p = PCancelled \<Longrightarrow> pipe_step env (p, h) (p\<lparr>p_pc := PClosed\<rparr>, h\<lparr>expired := True\<rparr>)"

section \<open>Both directions\<close>

record relay_pair =
  up :: pipe
  down :: pipe
  shared :: shared

text \<open>
  The start of \<^verbatim>\<open>relay\<close>: only the client's side has a harmonizer and a fragmenter, and only its
  reader is limited; both writers are. The code asks the limiter whether it is on once for each of the
  three; here it is asked once for all of them.
\<close>

definition relay_begin ::
  "ua_harmonizer option \<Rightarrow> fragmenter option \<times> nat \<Rightarrow> rate_limiter \<Rightarrow> int \<Rightarrow> bytes list \<Rightarrow> relay_pair" where
  "relay_begin uah fo l t segs =
     (let lim = rl_is_enabled l
      in \<lparr>up = new_pipe uah fo lim lim segs, down = new_pipe None (None, 0) False lim [],
          shared = \<lparr>sh_limiter = l, sh_now = t, expired = False, ctx_done = False\<rparr>\<rparr>)"

definition relay_start :: "relay_pair \<Rightarrow> bool" where
  "relay_start s \<longleftrightarrow> (\<exists>uah fo l t segs. [] \<notin> set segs \<and> s = relay_begin uah fo l t segs)"

text \<open>The steps of the two goroutines and of the watchdog.\<close>

inductive up_step :: "relay_env \<Rightarrow> relay_pair \<Rightarrow> relay_pair \<Rightarrow> bool" for env where
  up_step: "pipe_step env (up s, shared s) (p, h) \<Longrightarrow> up_step env s (s\<lparr>up := p, shared := h\<rparr>)"

inductive down_step :: "relay_env \<Rightarrow> relay_pair \<Rightarrow> relay_pair \<Rightarrow> bool" for env where
  down_step: "pipe_step env (down s, shared s) (p, h) \<Longrightarrow> down_step env s (s\<lparr>down := p, shared := h\<rparr>)"

inductive watchdog_step :: "relay_pair \<Rightarrow> relay_pair \<Rightarrow> bool" where
  watchdog_step: "ctx_done (shared s) \<Longrightarrow> \<not> expired (shared s) \<Longrightarrow>
    watchdog_step s (s\<lparr>shared := (shared s)\<lparr>expired := True\<rparr>\<rparr>)"

text \<open>What client and target do; a segment is not empty.\<close>

definition pipe_send :: "bytes \<Rightarrow> pipe \<Rightarrow> pipe" where
  "pipe_send x p =
     (if p_eof p \<or> x = [] then p
      else p\<lparr>p_rd := (p_rd p)\<lparr>ur_src := ur_src (p_rd p) @ [x]\<rparr>, p_came := p_came p @ [x]\<rparr>)"

definition pipe_eof :: "pipe \<Rightarrow> pipe" where
  "pipe_eof p = p\<lparr>p_eof := True\<rparr>"

inductive peer_step :: "relay_pair \<Rightarrow> relay_pair \<Rightarrow> bool" where
  client_sends: "peer_step s (s\<lparr>up := pipe_send x (up s)\<rparr>)"
| client_closes: "peer_step s (s\<lparr>up := pipe_eof (up s)\<rparr>)"
| target_sends: "peer_step s (s\<lparr>down := pipe_send x (down s)\<rparr>)"
| target_closes: "peer_step s (s\<lparr>down := pipe_eof (down s)\<rparr>)"

text \<open>Time, the other connections that share the limiter, and the calls that change it or stop the server.\<close>

inductive around_step :: "relay_env \<Rightarrow> relay_pair \<Rightarrow> relay_pair \<Rightarrow> bool" for env where
  time_passes: "sh_now (shared s) \<le> t \<Longrightarrow> around_step env s (s\<lparr>shared := (shared s)\<lparr>sh_now := t\<rparr>\<rparr>)"
| others_wait: "0 \<le> n \<Longrightarrow>
    around_step env s (s\<lparr>shared := (shared s)\<lparr>sh_limiter :=
      snd (wait_turn (re_toks env) (sh_now (shared s)) n (sh_limiter (shared s)))\<rparr>\<rparr>)"
| server_stops: "around_step env s (s\<lparr>shared := (shared s)\<lparr>ctx_done := True\<rparr>\<rparr>)"

inductive retune_step :: "relay_pair \<Rightarrow> relay_pair \<Rightarrow> bool" where
  retune_step: "retune_step s (s\<lparr>shared := (shared s)\<lparr>sh_limiter := set_rate b (sh_limiter (shared s))\<rparr>\<rparr>)"

inductive session_step :: "relay_env \<Rightarrow> relay_pair \<Rightarrow> relay_pair \<Rightarrow> bool" for env where
  by_up: "up_step env s t \<Longrightarrow> session_step env s t"
| by_down: "down_step env s t \<Longrightarrow> session_step env s t"
| by_watchdog: "watchdog_step s t \<Longrightarrow> session_step env s t"
| by_peer: "peer_step s t \<Longrightarrow> session_step env s t"
| by_around: "around_step env s t \<Longrightarrow> session_step env s t"
| by_retune: "retune_step s t \<Longrightarrow> session_step env s t"

definition ended :: "copy_pc \<Rightarrow> bool" where
  "ended c = (c \<in> {PEnd, PDone, PCancelled, PClosed})"

lemma ended_simps [simp]:
  "ended PEnd" "ended PDone" "ended PCancelled" "ended PClosed" "\<not> ended PRead" "\<not> ended (PWaitRead d e)"
  "\<not> ended (PChunk d e)" "\<not> ended (PWaitWrite d e)" "\<not> ended (PSend n r m e)"
  by (simp_all add: ended_def)

text \<open>\<^verbatim>\<open>wg.Wait\<close> has returned.\<close>

definition relay_returned :: "relay_pair \<Rightarrow> bool" where
  "relay_returned s \<longleftrightarrow>
     p_pc (up s) \<in> {PDone, PCancelled, PClosed} \<and> p_pc (down s) \<in> {PDone, PCancelled, PClosed}"

section \<open>What is delivered\<close>

definition plain_frag :: "fragmenter option \<times> nat \<Rightarrow> bool" where
  "plain_frag fk \<longleftrightarrow> (case fst fk of None \<Rightarrow> True | Some f \<Rightarrow> frag_wf f \<and> plain_strategy f)"

lemma split_chunk_plain:
  assumes "plain_frag fk" and "split_chunk ent fk p = (fs, fk')"
  shows "concat fs = p" and "plain_frag fk'"
proof -
  have "concat fs = p \<and> plain_frag fk'"
  proof (cases fk)
    case (Pair fo k)
    show ?thesis
    proof (cases fo)
      case None
      with assms Pair show ?thesis by (auto simp: split_chunk_def plain_frag_def)
    next
      case (Some f)
      obtain r k1 f1 where r: "fragment ent k f p = (r, k1, f1)" by (metis prod.exhaust)
      have "frag_wf f" "plain_strategy f" "frag_cfg f1 = frag_cfg f"
        using assms(1) Pair Some fragment_cfg[OF r] by (auto simp: plain_frag_def)
      with assms(2) Pair Some r fragment_plain_pieces[of f ent k p _ k1 f1] show ?thesis
        by (auto simp: split_chunk_def plain_frag_def frag_wf_def plain_strategy_def
            split: if_splits sum.splits)
    qed
  qed
  then show "concat fs = p" and "plain_frag fk'" by auto
qed

text \<open>The writes are those of \<open>fragmenting_write\<close> of theory Relay, made one after the other.\<close>

lemma write_frags_single: "write_frags wr [p] w = wr p w"
  by (cases "wr p w") (auto split: option.splits prod.splits)

lemma fragmenting_write_split:
  "fragmenting_write wr ent p (fo, k, w) =
     (let (fs, fk) = split_chunk ent (fo, k) p; (r, w') = write_frags wr fs w in (r, (fst fk, snd fk, w')))"
  by (auto simp: fragmenting_write_def split_chunk_def write_frags_single simp del: write_frags.simps
      split: option.splits sum.splits prod.splits)

definition pipe_stream :: "harmonize_fun \<Rightarrow> pipe \<Rightarrow> bytes" where
  "pipe_stream harm p = client_stream harm (p_uah p) (p_came p)"

lemma client_stream_snoc:
  "came \<noteq> [] \<or> (\<forall>h. uah = Some h \<longrightarrow> \<not> ua_is_enabled h) \<Longrightarrow>
   client_stream harm uah (came @ [x]) = client_stream harm uah came @ x"
  by (cases came; cases uah) (auto simp: client_stream_def)

lemma client_stream_Nil [simp]: "client_stream harm uah [] = []"
  by (simp add: client_stream_def split: option.split)

lemma client_stream_grows: "\<exists>y. client_stream harm uah (came @ [x]) = client_stream harm uah came @ y"
  by (cases "came = []") (auto simp: client_stream_snoc)

lemma active_snoc: "source.ua_active (u\<lparr>ur_src := c\<rparr>) = source.ua_active u"
  by (simp add: source.ua_active_def)

lemma pending_snoc:
  "\<not> source.ua_active u \<Longrightarrow>
   source.ua_pending harm (u\<lparr>ur_src := ur_src u @ [x]\<rparr>) = source.ua_pending harm u @ x"
  by (simp add: source.ua_pending_def active_snoc)

lemma ready_snoc: "x \<noteq> [] \<Longrightarrow> source.ua_ready (u\<lparr>ur_src := ur_src u @ [x]\<rparr>) = source.ua_ready u"
  by (auto simp: source.ua_ready_def)

lemma ua_read_inactive: "ua_read source_read harm k u = (r, u') \<Longrightarrow> \<not> source.ua_active u'"
  by (auto simp: ua_read_def source.ua_active_def take_buffered_def Let_def
      split: if_splits option.splits prod.splits)

definition reader_ok :: "pipe \<Rightarrow> bool" where
  "reader_ok p \<longleftrightarrow>
     source.ua_ready (p_rd p) \<and> [] \<notin> set (p_came p) \<and>
     (if source.ua_active (p_rd p)
      then p_rd p = new_ua_reader (p_came p) (p_uah p) \<and> p_out p = [] \<and> (p_pc p = PRead \<or> ended (p_pc p))
      else p_came p = [] \<longrightarrow> p_eof p \<or> (\<forall>h. p_uah p = Some h \<longrightarrow> \<not> ua_is_enabled h))"

definition pipe_ok :: "harmonize_fun \<Rightarrow> bool \<Rightarrow> pipe \<Rightarrow> bool" where
  "pipe_ok harm expd p \<longleftrightarrow>
     reader_ok p \<and> plain_frag (p_frag p) \<and> p_total p = length (p_out p) \<and>
     (let todo = source.ua_pending harm (p_rd p); all = pipe_stream harm p in
      case p_pc p of
        PRead \<Rightarrow> all = p_out p @ todo
      | PWaitRead d err \<Rightarrow> all = p_out p @ d @ todo \<and> \<not> err
      | PChunk d err \<Rightarrow> all = p_out p @ d @ todo \<and> \<not> err
      | PWaitWrite d err \<Rightarrow> all = p_out p @ d @ todo \<and> \<not> err
      | PSend n rest nr err \<Rightarrow> all = p_out p @ rest @ todo \<and> n + length rest = nr \<and> \<not> err
      | _ \<Rightarrow> (\<exists>rest. all = p_out p @ rest \<and> (\<not> expd \<and> \<not> p_failed p \<longrightarrow> p_eof p \<and> rest = [])))"

lemma ua_read_source:
  assumes "source.ua_ready u" and "0 < k" and "ua_read source_read harm k u = ((data, err), u')"
  shows "source.ua_pending harm u = data @ source.ua_pending harm u'" and "source.ua_ready u'"
    and "if err then data = [] \<and> source.ua_pending harm u = [] else data \<noteq> []"
  using source.ua_read_spec[OF assms] by auto

lemma source_read_err: "source_read k c = ((d, True), c') \<Longrightarrow> c = []"
  by (cases c) (auto split: if_splits)

lemma ua_read_err:
  "source.ua_ready u \<Longrightarrow> ua_read source_read harm k u = ((data, True), u') \<Longrightarrow> ur_src u = [] \<and> ur_buf u = []"
  by (auto simp: ua_read_def source.ua_ready_def Let_def dest: source_read_err
      split: if_splits option.splits prod.splits)

lemma read_step_ok:
  assumes ok: "pipe_ok harm (expired h) p" and k: "0 < k" and pc: "p_pc p = PRead"
    and guard: "ur_buf (p_rd p) \<noteq> [] \<or> \<not> expired h \<and> (ur_src (p_rd p) \<noteq> [] \<or> p_eof p)"
    and rd: "ua_read source_read harm k (p_rd p) = ((data, err), r)"
  shows "pipe_ok harm (expired h) (p\<lparr>p_rd := r, p_pc := after_read lim data err\<rparr>)"
proof -
  have ready: "source.ua_ready (p_rd p)" using ok by (simp add: pipe_ok_def reader_ok_def)
  note r = ua_read_source[OF ready k rd] ua_read_inactive[OF rd]
  have e: "p_eof p" if err
    using guard ua_read_err[OF ready, of harm k data r] rd that by auto
  have came: "p_came p = [] \<longrightarrow> p_eof p \<or> (\<forall>h. p_uah p = Some h \<longrightarrow> \<not> ua_is_enabled h)"
  proof (cases "source.ua_active (p_rd p)")
    case True
    then have n: "p_rd p = new_ua_reader (p_came p) (p_uah p)"
      using ok by (simp add: pipe_ok_def reader_ok_def)
    show ?thesis using guard by (auto simp: n new_ua_reader_def)
  qed (use ok in \<open>simp add: pipe_ok_def reader_ok_def\<close>)
  have d: "err \<longleftrightarrow> data = []" using r(3) by (auto split: if_splits)
  have "pipe_stream harm p = p_out p @ data @ source.ua_pending harm r"
    using ok pc r(1) by (simp add: pipe_ok_def Let_def)
  moreover have "pipe_stream harm (p\<lparr>p_rd := r, p_pc := c\<rparr>) = pipe_stream harm p" for c
    by (simp add: pipe_stream_def)
  moreover have "reader_ok (p\<lparr>p_rd := r, p_pc := c\<rparr>)" for c
    using ok came r(2,4) by (simp add: pipe_ok_def reader_ok_def)
  moreover have "source.ua_pending harm r = []" "data = []" if err
    using that r(1,3) by auto
  ultimately show ?thesis
    using ok e d by (cases "data = []") (simp_all add: pipe_ok_def after_read_def)
qed

lemma start_writes_ok:
  assumes "pipe_ok (re_harmonize env) e p" and "p_pc p = PChunk data err \<or> p_pc p = PWaitWrite data err"
  shows "pipe_ok (re_harmonize env) e (start_writes env data err p)"
proof -
  obtain fs fk where s: "split_chunk (re_ent env) (p_frag p) data = (fs, fk)" by (metis prod.exhaust)
  have "plain_frag (p_frag p)" using assms(1) by (simp add: pipe_ok_def)
  note split_chunk_plain[OF this s]
  with assms s show ?thesis
    by (auto simp: start_writes_def pipe_ok_def reader_ok_def pipe_stream_def split: if_splits)
qed

lemma pipe_step_ok:
  assumes "pipe_step env (p, h) (q, g)" and "0 < re_buf env" and "pipe_ok (re_harmonize env) (expired h) p"
  shows "pipe_ok (re_harmonize env) (expired g) q"
  using assms
proof (induction "(p, h)" "(q, g)" rule: pipe_step.induct)
  case read_some
  then show ?case by (auto intro: read_step_ok)
next
  case (chunk data err)
  then show ?case by (auto intro: start_writes_ok)
next
  case (wait_write data err ok l)
  then show ?case by (auto intro: start_writes_ok)
qed (auto simp: pipe_ok_def reader_ok_def pipe_stream_def Let_def)

lemma pipe_ok_late: "pipe_ok harm e p \<Longrightarrow> (e \<longrightarrow> e') \<Longrightarrow> pipe_ok harm e' p"
  by (cases "p_pc p") (auto simp: pipe_ok_def Let_def)

lemma pipe_step_expired: "pipe_step env (p, h) (q, g) \<Longrightarrow> expired h \<Longrightarrow> expired g"
  by (induction "(p, h)" "(q, g)" rule: pipe_step.induct) auto

lemma pipe_step_ctx: "pipe_step env (p, h) (q, g) \<Longrightarrow> ctx_done h \<Longrightarrow> ctx_done g"
  by (induction "(p, h)" "(q, g)" rule: pipe_step.induct) auto

lemma pipe_ok_eof: "pipe_ok harm e p \<Longrightarrow> pipe_ok harm e (pipe_eof p)"
  by (cases "p_pc p") (auto simp: pipe_ok_def reader_ok_def pipe_eof_def pipe_stream_def Let_def)

lemma reader_ok_send: "reader_ok p \<Longrightarrow> reader_ok (pipe_send x p)"
  by (auto simp: reader_ok_def pipe_send_def ready_snoc active_snoc) (simp_all add: new_ua_reader_def)

lemma pipe_stream_send:
  "\<exists>y. pipe_stream harm (pipe_send x p) = pipe_stream harm p @ y"
  using client_stream_grows[of harm "p_uah p" "p_came p" x] by (auto simp: pipe_stream_def pipe_send_def)

lemma pipe_stream_pending_send:
  assumes "reader_ok p" and "pipe_stream harm p = xs @ source.ua_pending harm (p_rd p)"
    and "source.ua_active (p_rd p) \<longrightarrow> xs = []"
  shows "pipe_stream harm (pipe_send x p) = xs @ source.ua_pending harm (p_rd (pipe_send x p))"
proof (cases "p_eof p \<or> x = []")
  case False
  show ?thesis
  proof (cases "source.ua_active (p_rd p)")
    case True
    with assms(1) have n: "p_rd p = new_ua_reader (p_came p) (p_uah p)" and c: "[] \<notin> set (p_came p)"
      by (simp_all add: reader_ok_def)
    have "(p_rd p)\<lparr>ur_src := ur_src (p_rd p) @ [x]\<rparr> = new_ua_reader (p_came p @ [x]) (p_uah p)"
      by (simp add: n new_ua_reader_def)
    moreover have "[] \<notin> set (p_came p @ [x])" using c False by auto
    ultimately show ?thesis
      using False True assms(3) new_ua_reader_pending[of "p_came p @ [x]" harm "p_uah p"]
      by (simp add: pipe_send_def pipe_stream_def)
  next
    case inactive: False
    with False assms show ?thesis
      by (auto simp: pipe_send_def pipe_stream_def reader_ok_def pending_snoc client_stream_snoc)
  qed
qed (use assms in \<open>simp add: pipe_send_def\<close>)

lemma pipe_ok_send:
  assumes "pipe_ok harm e p"
  shows "pipe_ok harm e (pipe_send x p)"
proof -
  have r: "reader_ok p" using assms by (simp add: pipe_ok_def)
  have f: "p_frag (pipe_send x p) = p_frag p" "p_total (pipe_send x p) = p_total p" "p_out (pipe_send x p) = p_out p"
    "p_pc (pipe_send x p) = p_pc p" "p_failed (pipe_send x p) = p_failed p" "p_eof (pipe_send x p) = p_eof p"
    "p_eof p \<longrightarrow> pipe_send x p = p"
    by (simp_all add: pipe_send_def)
  obtain y where y: "pipe_stream harm (pipe_send x p) = pipe_stream harm p @ y"
    using pipe_stream_send by blast
  have run: "pipe_stream harm (pipe_send x p) = xs @ source.ua_pending harm (p_rd (pipe_send x p))"
    if "pipe_stream harm p = xs @ source.ua_pending harm (p_rd p)" "\<not> ended (p_pc p)" "p_pc p = PRead \<longrightarrow> xs = p_out p" for xs
    using pipe_stream_pending_send[OF r that(1), of x] that(2,3) r by (auto simp: reader_ok_def split: if_splits)
  show ?thesis
    using assms reader_ok_send[OF r] f y
      run[of "p_out p"] run[of "p_out p @ d" for d]
    by (cases "p_pc p") (auto simp: pipe_ok_def Let_def)
qed

section \<open>The invariant of a session\<close>

definition relay_inv :: "harmonize_fun \<Rightarrow> bool \<Rightarrow> relay_pair \<Rightarrow> bool" where
  "relay_inv harm plain s \<longleftrightarrow>
     (plain \<longrightarrow> pipe_ok harm (expired (shared s)) (up s)) \<and> pipe_ok harm (expired (shared s)) (down s)"

lemma new_pipe_ok: "[] \<notin> set segs \<Longrightarrow> plain_frag fo \<Longrightarrow> pipe_ok harm e (new_pipe uah fo a b segs)"
  by (auto simp: pipe_ok_def reader_ok_def new_pipe_def pipe_stream_def new_ua_reader_ready new_ua_reader_pending
      source.ua_active_def) (auto simp: new_ua_reader_def)

lemma session_step_inv:
  assumes "session_step env s t" and "0 < re_buf env" and "relay_inv (re_harmonize env) plain s"
  shows "relay_inv (re_harmonize env) plain t"
  using assms
proof (induction rule: session_step.induct)
  case (by_up s t)
  then obtain p h where u: "pipe_step env (up s, shared s) (p, h)" "t = s\<lparr>up := p, shared := h\<rparr>"
    by (auto elim: up_step.cases)
  with by_up.prems pipe_step_ok[OF u(1)] pipe_step_expired[OF u(1)] show ?case
    by (auto simp: relay_inv_def elim: pipe_ok_late)
next
  case (by_down s t)
  then obtain p h where u: "pipe_step env (down s, shared s) (p, h)" "t = s\<lparr>down := p, shared := h\<rparr>"
    by (auto elim: down_step.cases)
  with by_down.prems pipe_step_ok[OF u(1)] pipe_step_expired[OF u(1)] show ?case
    by (auto simp: relay_inv_def elim: pipe_ok_late)
next
  case (by_watchdog s t)
  then show ?case by (auto simp: relay_inv_def elim!: watchdog_step.cases elim: pipe_ok_late)
next
  case (by_peer s t)
  then show ?case by (auto simp: relay_inv_def elim!: peer_step.cases intro: pipe_ok_send pipe_ok_eof)
next
  case (by_around s t)
  then show ?case by (auto simp: relay_inv_def elim!: around_step.cases)
next
  case (by_retune s t)
  then show ?case by (auto simp: relay_inv_def elim!: retune_step.cases)
qed

interpretation relay_ts: transition_system
  "\<lambda>s. relay_start s \<and> 0 < re_buf env \<and> (plain \<longrightarrow> plain_frag (p_frag (up s)))" "session_step env"
  "\<lambda>s. 0 < re_buf env \<and> relay_inv (re_harmonize env) plain s" for env plain
proof
  show "0 < re_buf env \<and> relay_inv (re_harmonize env) plain s"
    if "relay_start s \<and> 0 < re_buf env \<and> (plain \<longrightarrow> plain_frag (p_frag (up s)))" for s
    using that by (auto simp: relay_start_def relay_begin_def relay_inv_def Let_def new_pipe_ok)
      (auto simp: new_pipe_def plain_frag_def intro!: new_pipe_ok[unfolded new_pipe_def])
  show "0 < re_buf env \<and> relay_inv (re_harmonize env) plain t"
    if "0 < re_buf env \<and> relay_inv (re_harmonize env) plain s" "session_step env s t" for s t
    using that session_step_inv by blast
qed

section \<open>The end of a session\<close>

text \<open>
  A bound on the steps of a goroutine that is out of its loop, or whose deadline has passed while it has
  no limiter to wait for: buffered bytes of the harmonizer can still be read.
\<close>

definition left :: "pipe \<Rightarrow> nat" where
  "left p =
     (let b = 8 * (length (ur_buf (p_rd p)) - ur_offset (p_rd p)) in
      case p_pc p of
        PRead \<Rightarrow> b + 4 | PWaitRead d e \<Rightarrow> b + 12 | PChunk d e \<Rightarrow> b + 11 | PWaitWrite d e \<Rightarrow> b + 11
      | PSend n rest nr e \<Rightarrow> b + 10 | PEnd \<Rightarrow> 3 | PDone \<Rightarrow> 2 | PCancelled \<Rightarrow> 1 | PClosed \<Rightarrow> 0)"

definition unlimited :: "pipe \<Rightarrow> bool" where
  "unlimited p \<longleftrightarrow> source.ua_ready (p_rd p) \<and> \<not> p_lim_rd p \<and> \<not> p_lim_wr p \<and>
     (case p_pc p of PWaitRead d e \<Rightarrow> False | PWaitWrite d e \<Rightarrow> False | _ \<Rightarrow> True)"

lemma left_0: "left p = 0 \<longleftrightarrow> p_pc p = PClosed"
  by (simp add: left_def Let_def split: copy_pc.split)

lemma start_writes_fields [simp]:
  "p_rd (start_writes env data err p) = p_rd p" "p_lim_rd (start_writes env data err p) = p_lim_rd p"
  "p_lim_wr (start_writes env data err p) = p_lim_wr p"
  by (auto simp: start_writes_def split: prod.split)

lemma start_writes_pc:
  obtains n rest nr where "p_pc (start_writes env data err p) = PSend n rest nr err"
  by (cases "split_chunk (re_ent env) (p_frag p) data") (simp add: start_writes_def)

lemma unlimited_step:
  assumes "pipe_step env (p, h) (q, g)" and "0 < re_buf env" and "unlimited p"
  shows "unlimited q"
  using assms
proof (induction "(p, h)" "(q, g)" rule: pipe_step.induct)
  case (read_some data err r)
  then have "source.ua_ready r" using ua_read_source(2) unfolding unlimited_def by blast
  with read_some show ?case by (auto simp: unlimited_def after_read_def)
next
  case (chunk data err)
  obtain n rest nr where "p_pc (start_writes env data err p) = PSend n rest nr err" by (rule start_writes_pc)
  with chunk show ?case by (auto simp: unlimited_def)
qed (auto simp: unlimited_def)

lemma buffered_read:
  assumes "source.ua_ready u" and "0 < k" and "ur_buf u \<noteq> []" and "ua_read source_read harm k u = ((data, err), u')"
  shows "data \<noteq> [] \<and> length (ur_buf u') - ur_offset u' < length (ur_buf u) - ur_offset u"
proof -
  have o: "ur_offset u < length (ur_buf u)" "ur_inspected u"
    using assms(1,3) by (auto simp: source.ua_ready_def)
  then have t: "take_buffered k u = (data, u')"
    using assms(3,4) by (auto simp: ua_read_def split: prod.splits)
  from source.take_buffered_spec[OF t assms(2) o(1)]
  have d: "drop (ur_offset u) (ur_buf u) = data @ drop (ur_offset u') (ur_buf u')" "data \<noteq> []" by auto
  from arg_cong[OF d(1), of length] d(2) show ?thesis by (cases data) auto
qed

lemma late_step:
  assumes "pipe_step env (p, h) (q, g)" and "0 < re_buf env" and "ended (p_pc p) \<or> expired h \<and> unlimited p"
  shows "left q < left p \<and> (ended (p_pc p) \<longrightarrow> ended (p_pc q))"
  using assms
proof (induction "(p, h)" "(q, g)" rule: pipe_step.induct)
  case (read_some data err r)
  then have "source.ua_ready (p_rd p)" "ur_buf (p_rd p) \<noteq> []" by (auto simp: unlimited_def)
  from buffered_read[OF this(1) read_some.prems(1) this(2) read_some.hyps(3)] read_some show ?case
    by (auto simp: left_def after_read_def unlimited_def Let_def)
next
  case (chunk data err)
  obtain n rest nr where "p_pc (start_writes env data err p) = PSend n rest nr err" by (rule start_writes_pc)
  with chunk show ?case by (auto simp: left_def Let_def)
qed (auto simp: left_def unlimited_def Let_def)

lemma late_enabled:
  assumes "0 < left p" and "ended (p_pc p) \<or> expired h \<and> unlimited p"
  shows "\<exists>x. pipe_step env (p, h) x"
proof -
  have read: "\<exists>x. pipe_step env (p, h) x" if "p_pc p = PRead" "expired h"
  proof (cases "ur_buf (p_rd p) = []")
    case True
    with read_late[of p h env] that show ?thesis by blast
  next
    case False
    obtain data err r where "ua_read source_read (re_harmonize env) (re_buf env) (p_rd p) = ((data, err), r)"
      by (metis prod.exhaust)
    with read_some[of p h env data err r] False that show ?thesis by blast
  qed
  show ?thesis
  proof (cases "p_pc p")
    case (PSend n rest nr err)
    with assms(2) sent[of p n nr err env h] send_late[of p n rest nr err h env] show ?thesis
      by (cases "rest = []") auto
  next
    case (PChunk d e)
    with assms(2) chunk[of p d e h env] show ?thesis by (auto simp: unlimited_def)
  qed (use assms read finish[of p env h] cancel[of p env h] close_sockets[of p env h] in
      \<open>auto simp: unlimited_def left_0[unfolded left_def Let_def] left_def\<close>)
qed

text \<open>What the others do to a direction leaves all this as it is.\<close>

definition untouched :: "pipe \<Rightarrow> pipe \<Rightarrow> bool" where
  "untouched p q \<longleftrightarrow> p_pc q = p_pc p \<and> left q = left p \<and> (unlimited p \<longrightarrow> unlimited q)"

lemma untouched_peer [simp]: "untouched p p" "untouched p (pipe_send x p)" "untouched p (pipe_eof p)"
  by (auto simp: untouched_def pipe_send_def pipe_eof_def left_def unlimited_def ready_snoc split: copy_pc.splits)

lemma session_step_sides:
  assumes "session_step env s t"
  shows "up_step env s t \<or> untouched (up s) (up t)" and "down_step env s t \<or> untouched (down s) (down t)"
    and "expired (shared s) \<Longrightarrow> expired (shared t)" and "ctx_done (shared s) \<Longrightarrow> ctx_done (shared t)"
  using assms
  by (induction rule: session_step.induct)
    (auto elim!: up_step.cases down_step.cases watchdog_step.cases peer_step.cases around_step.cases retune_step.cases
      dest: pipe_step_expired pipe_step_ctx)

definition live_inv :: "relay_pair \<Rightarrow> bool" where
  "live_inv s \<longleftrightarrow> unlimited (up s) \<and> unlimited (down s) \<and>
     (p_pc (up s) = PClosed \<or> p_pc (down s) = PClosed \<longrightarrow> expired (shared s))"

lemma pipe_step_closed:
  "pipe_step env (p, h) (q, g) \<Longrightarrow> p_pc q = PClosed \<Longrightarrow> expired g"
  by (induction "(p, h)" "(q, g)" rule: pipe_step.induct)
    (auto simp: after_read_def start_writes_def split: if_splits prod.splits)

lemma live_inv_step:
  assumes "session_step env s t" and "0 < re_buf env" and "live_inv s"
  shows "live_inv t"
proof -
  have u: "unlimited (up t) \<and> (p_pc (up t) = PClosed \<longrightarrow> expired (shared t))"
    using session_step_sides(1,3)[OF assms(1)] assms(2,3)
    by (auto simp: live_inv_def untouched_def elim!: up_step.cases dest: pipe_step_closed unlimited_step)
  have "unlimited (down t) \<and> (p_pc (down t) = PClosed \<longrightarrow> expired (shared t))"
    using session_step_sides(2,3)[OF assms(1)] assms(2,3)
    by (auto simp: live_inv_def untouched_def elim!: down_step.cases dest: pipe_step_closed unlimited_step)
  with u show ?thesis by (simp add: live_inv_def)
qed

text \<open>A run of a session in which both goroutines and the watchdog get their turns.\<close>

definition fair_session :: "relay_env \<Rightarrow> (nat \<Rightarrow> relay_pair) \<Rightarrow> bool" where
  "fair_session env r \<longleftrightarrow>
     (\<forall>i. session_step env (r i) (r (Suc i))) \<and>
     fair_for (up_step env) r \<and> fair_for (down_step env) r \<and> fair_for watchdog_step r"

lemma up_lowers:
  "up_step env s t \<Longrightarrow> 0 < re_buf env \<Longrightarrow> ended (p_pc (up s)) \<or> expired (shared s) \<and> unlimited (up s) \<Longrightarrow>
   left (up t) < left (up s) \<and> (ended (p_pc (up s)) \<longrightarrow> ended (p_pc (up t)))"
  by (auto elim!: up_step.cases dest: late_step)

lemma down_lowers:
  "down_step env s t \<Longrightarrow> 0 < re_buf env \<Longrightarrow> ended (p_pc (down s)) \<or> expired (shared s) \<and> unlimited (down s) \<Longrightarrow>
   left (down t) < left (down s) \<and> (ended (p_pc (down s)) \<longrightarrow> ended (p_pc (down t)))"
  by (auto elim!: down_step.cases dest: late_step)

lemma up_enabled:
  assumes "0 < left (up s)" and "ended (p_pc (up s)) \<or> expired (shared s) \<and> unlimited (up s)"
  shows "\<exists>t. up_step env s t"
proof -
  obtain p h where "pipe_step env (up s, shared s) (p, h)"
    using late_enabled[OF assms, of env] by (metis prod.exhaust)
  then show ?thesis by (blast intro: up_step.intros)
qed

lemma down_enabled:
  assumes "0 < left (down s)" and "ended (p_pc (down s)) \<or> expired (shared s) \<and> unlimited (down s)"
  shows "\<exists>t. down_step env s t"
proof -
  obtain p h where "pipe_step env (down s, shared s) (p, h)"
    using late_enabled[OF assms, of env] by (metis prod.exhaust)
  then show ?thesis by (blast intro: down_step.intros)
qed

lemma fair_live:
  assumes "fair_session env r" and "0 < re_buf env" and "live_inv (r 0)"
  shows "live_inv (r k)"
proof (induction k)
  case (Suc k)
  from assms(1) have "session_step env (r k) (r (Suc k))" by (simp add: fair_session_def)
  with Suc assms(2) show ?case by (blast intro: live_inv_step)
qed (use assms(3) in simp)

text \<open>A goroutine that is out of its loop, or late, comes to its end.\<close>

lemma up_ends:
  assumes run: "fair_session env r" and buf: "0 < re_buf env" and live: "live_inv (r 0)"
    and start: "ended (p_pc (up (r i))) \<or> expired (shared (r i))"
  shows "\<exists>j \<ge> i. p_pc (up (r j)) = PClosed"
proof -
  let ?P = "\<lambda>s. unlimited (up s) \<and> (ended (p_pc (up s)) \<or> expired (shared s))"
  have step: "session_step env (r j) (r (Suc j))" for j
    using run by (simp add: fair_session_def)
  have P: "?P (r (Suc j))" if "?P (r j)" for j
    using session_step_sides(1,3)[OF step[of j]] that up_lowers[of env "r j" "r (Suc j)"] buf
      fair_live[OF run buf live, of "Suc j"]
    by (auto simp: untouched_def live_inv_def)
  have "\<exists>j \<ge> i. ?P (r j) \<and> left (up (r j)) = 0"
  proof (rule run_descends[where act = "up_step env"])
    show "fair_for (up_step env) r" using run by (simp add: fair_session_def)
    show "?P (r j) \<Longrightarrow> ?P (r (Suc j))" for j by (rule P)
    show lower: "up_step env (r j) (r (Suc j)) \<Longrightarrow> left (up (r (Suc j))) < left (up (r j))" if "?P (r j)" for j
      using up_lowers[of env "r j" "r (Suc j)"] buf that by blast
    show "left (up (r (Suc j))) \<le> left (up (r j))" if "?P (r j)" for j
      using session_step_sides(1)[OF step[of j]] lower[OF that] by (auto simp: untouched_def)
    show "?P (r j) \<Longrightarrow> 0 < left (up (r j)) \<Longrightarrow> \<exists>t. up_step env (r j) t" for j
      using up_enabled by blast
    show "?P (r i)" using start fair_live[OF run buf live, of i] by (simp add: live_inv_def)
  qed
  then show ?thesis by (auto simp: left_0)
qed

lemma down_ends:
  assumes run: "fair_session env r" and buf: "0 < re_buf env" and live: "live_inv (r 0)"
    and start: "ended (p_pc (down (r i))) \<or> expired (shared (r i))"
  shows "\<exists>j \<ge> i. p_pc (down (r j)) = PClosed"
proof -
  let ?P = "\<lambda>s. unlimited (down s) \<and> (ended (p_pc (down s)) \<or> expired (shared s))"
  have step: "session_step env (r j) (r (Suc j))" for j
    using run by (simp add: fair_session_def)
  have P: "?P (r (Suc j))" if "?P (r j)" for j
    using session_step_sides(2,3)[OF step[of j]] that down_lowers[of env "r j" "r (Suc j)"] buf
      fair_live[OF run buf live, of "Suc j"]
    by (auto simp: untouched_def live_inv_def)
  have "\<exists>j \<ge> i. ?P (r j) \<and> left (down (r j)) = 0"
  proof (rule run_descends[where act = "down_step env"])
    show "fair_for (down_step env) r" using run by (simp add: fair_session_def)
    show "?P (r j) \<Longrightarrow> ?P (r (Suc j))" for j by (rule P)
    show lower: "down_step env (r j) (r (Suc j)) \<Longrightarrow> left (down (r (Suc j))) < left (down (r j))" if "?P (r j)" for j
      using down_lowers[of env "r j" "r (Suc j)"] buf that by blast
    show "left (down (r (Suc j))) \<le> left (down (r j))" if "?P (r j)" for j
      using session_step_sides(2)[OF step[of j]] lower[OF that] by (auto simp: untouched_def)
    show "?P (r j) \<Longrightarrow> 0 < left (down (r j)) \<Longrightarrow> \<exists>t. down_step env (r j) t" for j
      using down_enabled by blast
    show "?P (r i)" using start fair_live[OF run buf live, of i] by (simp add: live_inv_def)
  qed
  then show ?thesis by (auto simp: left_0)
qed

lemma watchdog_fires:
  assumes run: "fair_session env r" and start: "ctx_done (shared (r i))"
  shows "\<exists>j \<ge> i. expired (shared (r j))"
proof -
  have step: "session_step env (r j) (r (Suc j))" for j
    using run by (simp add: fair_session_def)
  have "\<exists>j \<ge> i. ctx_done (shared (r j)) \<and> (if expired (shared (r j)) then 0 else 1 :: nat) = 0"
  proof (rule run_descends[where act = watchdog_step])
    show "fair_for watchdog_step r" using run by (simp add: fair_session_def)
    show "ctx_done (shared (r j)) \<Longrightarrow> ctx_done (shared (r (Suc j)))" for j
      by (rule session_step_sides(4)[OF step])
    show "watchdog_step (r j) (r (Suc j)) \<Longrightarrow> (if expired (shared (r (Suc j))) then 0 else 1)
        < (if expired (shared (r j)) then 0 else 1 :: nat)" for j
      by (auto elim: watchdog_step.cases)
    show "(if expired (shared (r (Suc j))) then 0 else 1) \<le> (if expired (shared (r j)) then 0 else 1 :: nat)" for j
      using session_step_sides(3)[OF step[of j]] by auto
    show "ctx_done (shared (r j)) \<Longrightarrow> 0 < (if expired (shared (r j)) then 0 else 1 :: nat) \<Longrightarrow>
        \<exists>t. watchdog_step (r j) t" for j
      by (auto intro: watchdog_step.intros split: if_splits)
    show "ctx_done (shared (r i))" by (rule start)
  qed
  then show ?thesis by (auto split: if_splits)
qed

lemma closed_stays:
  assumes "session_step env s t"
  shows "p_pc (up s) = PClosed \<Longrightarrow> p_pc (up t) = PClosed" and "p_pc (down s) = PClosed \<Longrightarrow> p_pc (down t) = PClosed"
proof -
  have no: "\<not> pipe_step env (p, h) x" if "p_pc p = PClosed" for p h x
    using that by (cases x) (auto elim: pipe_step.cases)
  show "p_pc (up s) = PClosed \<Longrightarrow> p_pc (up t) = PClosed"
    using session_step_sides(1)[OF assms] no by (auto simp: untouched_def elim: up_step.cases)
  show "p_pc (down s) = PClosed \<Longrightarrow> p_pc (down t) = PClosed"
    using session_step_sides(2)[OF assms] no by (auto simp: untouched_def elim: down_step.cases)
qed

lemma fair_session_returns:
  assumes run: "fair_session env r" and buf: "0 < re_buf env" and live: "live_inv (r 0)"
    and start: "ended (p_pc (up (r i))) \<or> ended (p_pc (down (r i))) \<or> ctx_done (shared (r i))"
  shows "\<exists>j \<ge> i. \<forall>k \<ge> j. relay_returned (r k)"
proof -
  have step: "session_step env (r j) (r (Suc j))" for j
    using run by (simp add: fair_session_def)
  have late: "expired (shared (r k))" if "p_pc (up (r k)) = PClosed \<or> p_pc (down (r k)) = PClosed" for k
    using fair_live[OF run buf live, of k] that by (simp add: live_inv_def)
  obtain j where j: "i \<le> j" "expired (shared (r j))"
    using start up_ends[OF run buf live, of i] down_ends[OF run buf live, of i] watchdog_fires[OF run, of i] late
    by blast
  obtain a where a: "j \<le> a" "p_pc (up (r a)) = PClosed" using up_ends[OF run buf live, of j] j by blast
  obtain b where b: "j \<le> b" "p_pc (down (r b)) = PClosed" using down_ends[OF run buf live, of j] j by blast
  have "p_pc (up (r k)) = PClosed" if "a \<le> k" for k
    using run_keeps[of a "\<lambda>s. p_pc (up s) = PClosed" r k] closed_stays(1)[OF step] a that by blast
  moreover have "p_pc (down (r k)) = PClosed" if "b \<le> k" for k
    using run_keeps[of b "\<lambda>s. p_pc (down s) = PClosed" r k] closed_stays(2)[OF step] b that by blast
  ultimately have "relay_returned (r k)" if "max a b \<le> k" for k
    using that by (simp add: relay_returned_def)
  with j(1) a(1) show ?thesis by (intro exI[of _ "max a b"]) auto
qed

lemma begin_live: "\<not> rl_is_enabled l \<Longrightarrow> [] \<notin> set segs \<Longrightarrow> live_inv (relay_begin uah fo l t segs)"
  by (simp add: live_inv_def relay_begin_def new_pipe_def unlimited_def new_ua_reader_ready)

section \<open>Properties\<close>

definition pipe_report :: "harmonize_fun \<Rightarrow> bool \<Rightarrow> pipe \<Rightarrow> bool" where
  "pipe_report harm expd p \<longleftrightarrow>
     p_total p = length (p_out p) \<and>
     (\<exists>rest. pipe_stream harm p = p_out p @ rest \<and>
        (ended (p_pc p) \<and> \<not> expd \<and> \<not> p_failed p \<longrightarrow> p_eof p \<and> rest = []))"

lemma pipe_ok_report: "pipe_ok harm e p \<Longrightarrow> pipe_report harm e p"
  by (cases "p_pc p") (auto simp: pipe_ok_def pipe_report_def Let_def)

lemma pipe_step_uah: "pipe_step env (p, h) (q, g) \<Longrightarrow> p_uah q = p_uah p"
  by (induction "(p, h)" "(q, g)" rule: pipe_step.induct) (auto simp: start_writes_def split: prod.splits)

lemma session_step_uah:
  "session_step env s t \<Longrightarrow> p_uah (up t) = p_uah (up s) \<and> p_uah (down t) = p_uah (down s)"
  by (induction rule: session_step.induct)
    (auto elim!: up_step.cases down_step.cases watchdog_step.cases peer_step.cases around_step.cases retune_step.cases
      simp: pipe_send_def pipe_eof_def dest: pipe_step_uah)

lemma session_steps_uah:
  "(session_step env)\<^sup>*\<^sup>* s t \<Longrightarrow> p_uah (up t) = p_uah (up s) \<and> p_uah (down t) = p_uah (down s)"
  by (induction rule: rtranclp_induct) (auto dest: session_step_uah)

lemma session_reports:
  assumes "relay_start s0" and "0 < re_buf env" and "(session_step env)\<^sup>*\<^sup>* s0 s"
  shows "pipe_report (re_harmonize env) (expired (shared s)) (down s)"
    and "pipe_stream (re_harmonize env) (down s) = concat (p_came (down s))"
    and "plain_frag (p_frag (up s0)) \<Longrightarrow> pipe_report (re_harmonize env) (expired (shared s)) (up s)"
proof -
  have "relay_inv (re_harmonize env) (plain_frag (p_frag (up s0))) s"
    using relay_ts.inv_reachable[of s0 env "plain_frag (p_frag (up s0))" s] assms by blast
  then show "pipe_report (re_harmonize env) (expired (shared s)) (down s)"
    "plain_frag (p_frag (up s0)) \<Longrightarrow> pipe_report (re_harmonize env) (expired (shared s)) (up s)"
    by (simp_all add: relay_inv_def pipe_ok_report)
  have "p_uah (down s0) = None"
    using assms(1) by (auto simp: relay_start_def relay_begin_def new_pipe_def Let_def)
  then show "pipe_stream (re_harmonize env) (down s) = concat (p_came (down s))"
    using session_steps_uah[OF assms(3)] by (simp add: pipe_stream_def client_stream_def)
qed

text \<open>
  C4. What a relayed session delivers, at any moment and in every interleaving of the two
  goroutines, the watchdog, both ends, the other users of the limiter and a stop of the server. To
  the client a beginning of what the target sent has been delivered; to the target, if the fragmenter
  is off or of the fixed or random kind, a beginning of what the client sent with its first segment
  harmonised. The count of a direction is the length of that, and if its loop has ended, no deadline
  was set and no connection failed, then the sender has closed and all of it has been delivered.
\<close>

theorem relay_session_ok:
  assumes "relay_start s0" and "0 < re_buf env" and "(session_step env)\<^sup>*\<^sup>* s0 s"
  shows "pipe_report (re_harmonize env) (expired (shared s)) (down s) \<and>
    pipe_stream (re_harmonize env) (down s) = concat (p_came (down s)) \<and>
    (plain_frag (p_frag (up s0)) \<longrightarrow>
       pipe_report (re_harmonize env) (expired (shared s)) (up s) \<and>
       pipe_stream (re_harmonize env) (up s) = client_stream (re_harmonize env) (p_uah (up s0)) (p_came (up s)))"
  using session_reports[OF assms] session_steps_uah[OF assms(3)] by (simp add: pipe_stream_def)

section \<open>Sessions that show something\<close>

text \<open>Steps without a failure of the server or of the limiter: the relay itself and the two ends.\<close>

definition quiet_step :: "relay_env \<Rightarrow> relay_pair \<Rightarrow> relay_pair \<Rightarrow> bool" where
  "quiet_step env s t \<longleftrightarrow> up_step env s t \<or> down_step env s t \<or> watchdog_step s t \<or> peer_step s t"

lemma quiet_session: "(quiet_step env)\<^sup>*\<^sup>* s t \<Longrightarrow> (session_step env)\<^sup>*\<^sup>* s t"
  by (rule rtranclp_mono[THEN predicate2D, rotated]) (auto simp: quiet_step_def intro: session_step.intros)

lemma up_turns:
  "(pipe_step env)\<^sup>*\<^sup>* (p, h) (q, g) \<Longrightarrow>
   (quiet_step env)\<^sup>*\<^sup>* (s\<lparr>up := p, shared := h\<rparr>) (s\<lparr>up := q, shared := g\<rparr>)"
proof (induction "(q, g)" arbitrary: q g rule: rtranclp_induct)
  case (step y)
  obtain p1 h1 where y: "y = (p1, h1)" by fastforce
  have "up_step env (s\<lparr>up := p1, shared := h1\<rparr>) (s\<lparr>up := q, shared := g\<rparr>)"
    using up_step.up_step[of env "s\<lparr>up := p1, shared := h1\<rparr>" q g] step.hyps(2) y by simp
  with step.hyps(3)[OF y] show ?case
    by (meson quiet_step_def rtranclp.rtrancl_into_rtrancl)
qed simp

lemma down_turns:
  "(pipe_step env)\<^sup>*\<^sup>* (p, h) (q, g) \<Longrightarrow>
   (quiet_step env)\<^sup>*\<^sup>* (s\<lparr>down := p, shared := h\<rparr>) (s\<lparr>down := q, shared := g\<rparr>)"
proof (induction "(q, g)" arbitrary: q g rule: rtranclp_induct)
  case (step y)
  obtain p1 h1 where y: "y = (p1, h1)" by fastforce
  have "down_step env (s\<lparr>down := p1, shared := h1\<rparr>) (s\<lparr>down := q, shared := g\<rparr>)"
    using down_step.down_step[of env "s\<lparr>down := p1, shared := h1\<rparr>" q g] step.hyps(2) y by simp
  with step.hyps(3)[OF y] show ?case
    by (meson quiet_step_def rtranclp.rtrancl_into_rtrancl)
qed simp

text \<open>A direction without limiter and engines copies all that has arrived.\<close>

definition copying :: "bytes list \<Rightarrow> bool \<Rightarrow> bytes list \<Rightarrow> bytes \<Rightarrow> pipe" where
  "copying segs eof came x =
     (new_pipe None (None, 0) False False segs)\<lparr>p_eof := eof, p_came := came, p_out := x, p_total := length x\<rparr>"

lemma four_steps: "r a b \<Longrightarrow> r b c \<Longrightarrow> r c d \<Longrightarrow> r d e \<Longrightarrow> r\<^sup>*\<^sup>* a e"
proof -
  assume "r a b" and "r b c" and "r c d" and last: "r d e"
  then have "r\<^sup>*\<^sup>* a d" by (intro rtranclp.rtrancl_into_rtrancl[OF rtranclp.rtrancl_into_rtrancl[OF r_into_rtranclp]])
  then show ?thesis using last by (rule rtranclp.rtrancl_into_rtrancl)
qed

lemma copy_chunk:
  assumes "source_read (re_buf env) segs = ((data, False), rest)" and "data \<noteq> []" and "segs \<noteq> []" and "\<not> expired h"
  shows "(pipe_step env)\<^sup>*\<^sup>* (copying segs eof came x, h) (copying rest eof came (x @ data), h)"
proof -
  let ?p = "copying segs eof came x"
  let ?q = "?p\<lparr>p_rd := new_ua_reader rest None, p_pc := PChunk data False\<rparr>"
  let ?r = "?q\<lparr>p_pc := PSend 0 data (length data) False\<rparr>"
  let ?s = "?r\<lparr>p_out := x @ data, p_total := length x + length data, p_pc := PSend (length data) [] (length data) False\<rparr>"
  note defs = copying_def new_pipe_def new_ua_reader_def
  have "ua_read source_read (re_harmonize env) (re_buf env) (p_rd ?p) = ((data, False), new_ua_reader rest None)"
    using assms(1) by (simp add: ua_read_def defs)
  then have 1: "pipe_step env (?p, h) (?q, h)"
    using read_some[of ?p h env data False] assms(2,3,4) by (simp add: defs after_read_def)
  have 2: "pipe_step env (?q, h) (?r, h)"
    using chunk[of ?q data False h env] by (simp add: defs start_writes_def split_chunk_def)
  have 3: "pipe_step env (?r, h) (?s, h)"
    using send[of ?r 0 data "length data" False h "length data" env] assms(2,4) by (simp add: defs)
  have 4: "pipe_step env (?s, h) (?s\<lparr>p_pc := PRead\<rparr>, h)"
    using sent[of ?s "length data" "length data" False env h] by (simp add: defs)
  have "?s\<lparr>p_pc := PRead\<rparr> = copying rest eof came (x @ data)" by (simp add: defs)
  with 4 have 5: "pipe_step env (?s, h) (copying rest eof came (x @ data), h)" by simp
  show ?thesis
    by (rule four_steps[where r = "pipe_step env", OF 1 2 3 5])
qed

lemma copies_all:
  assumes "0 < re_buf env" and "\<not> expired h"
  shows "[] \<notin> set segs \<Longrightarrow> (pipe_step env)\<^sup>*\<^sup>* (copying segs eof came x, h) (copying [] eof came (x @ concat segs), h)"
proof (induction "length (concat segs)" arbitrary: segs x rule: less_induct)
  case less
  show ?case
  proof (cases "segs = []")
    case False
    obtain data err rest where r: "source_read (re_buf env) segs = ((data, err), rest)" by (metis prod.exhaust)
    have err: "\<not> err" using source_read_err[of "re_buf env" segs data rest] r False by (cases err) auto
    from source.read_pending[OF less.prems assms(1) r] source.read_progress[OF less.prems assms(1) r] err
    have d: "concat segs = data @ concat rest" "[] \<notin> set rest" "data \<noteq> []"
      by (auto split: if_splits)
    from less.hyps[of rest "x @ data"] d copy_chunk[of env segs data rest h eof came x] r False err assms(2)
    show ?thesis by (auto intro: rtranclp_trans)
  qed simp
qed

lemma copying_ends:
  assumes "\<not> expired h" and "p = copying [] True came x"
  shows "(pipe_step env)\<^sup>*\<^sup>* (p, h) (p\<lparr>p_pc := PClosed\<rparr>, h\<lparr>ctx_done := True, expired := True\<rparr>)"
proof -
  let ?e = "p\<lparr>p_pc := PEnd\<rparr>"
  have "ua_read source_read (re_harmonize env) (re_buf env) (p_rd p) = (([], True), p_rd p)"
    by (simp add: assms(2) copying_def new_pipe_def new_ua_reader_def ua_read_def)
  then have 1: "pipe_step env (p, h) (?e, h)"
    using read_some[of p h env "[]" True "p_rd p"] assms by (simp add: after_read_def) (simp add: copying_def new_pipe_def)
  have 2: "pipe_step env (?e, h) (p\<lparr>p_pc := PDone\<rparr>, h)"
    using finish[of ?e env h] by simp
  have 3: "pipe_step env (p\<lparr>p_pc := PDone\<rparr>, h) (p\<lparr>p_pc := PCancelled\<rparr>, h\<lparr>ctx_done := True\<rparr>)"
    using cancel[of "p\<lparr>p_pc := PDone\<rparr>" env h] by simp
  have 4: "pipe_step env (p\<lparr>p_pc := PCancelled\<rparr>, h\<lparr>ctx_done := True\<rparr>)
      (p\<lparr>p_pc := PClosed\<rparr>, h\<lparr>ctx_done := True, expired := True\<rparr>)"
    using close_sockets[of "p\<lparr>p_pc := PCancelled\<rparr>" env "h\<lparr>ctx_done := True\<rparr>"] by simp
  show ?thesis
    by (rule four_steps[where r = "pipe_step env", OF 1 2 3 4])
qed

lemma late_reader_ends:
  assumes "expired h" and "p_pc p = PRead" and "ur_buf (p_rd p) = []"
  shows "(pipe_step env)\<^sup>*\<^sup>* (p, h) (p\<lparr>p_pc := PClosed\<rparr>, h\<lparr>ctx_done := True\<rparr>)"
proof -
  have 1: "pipe_step env (p, h) (p\<lparr>p_pc := PEnd\<rparr>, h)"
    using read_late[of p h env] assms by simp
  have 2: "pipe_step env (p\<lparr>p_pc := PEnd\<rparr>, h) (p\<lparr>p_pc := PDone\<rparr>, h)"
    using finish[of "p\<lparr>p_pc := PEnd\<rparr>" env h] by simp
  have 3: "pipe_step env (p\<lparr>p_pc := PDone\<rparr>, h) (p\<lparr>p_pc := PCancelled\<rparr>, h\<lparr>ctx_done := True\<rparr>)"
    using cancel[of "p\<lparr>p_pc := PDone\<rparr>" env h] by simp
  have 4: "pipe_step env (p\<lparr>p_pc := PCancelled\<rparr>, h\<lparr>ctx_done := True\<rparr>) (p\<lparr>p_pc := PClosed\<rparr>, h\<lparr>ctx_done := True\<rparr>)"
    using close_sockets[of "p\<lparr>p_pc := PCancelled\<rparr>" env "h\<lparr>ctx_done := True\<rparr>"] assms(1)
    by (cases h) simp
  show ?thesis
    by (rule four_steps[where r = "pipe_step env", OF 1 2 3 4])
qed

text \<open>From the moment the deadlines are set nothing more is passed on.\<close>

lemma late_pipe_out: "pipe_step env (p, h) (q, g) \<Longrightarrow> expired h \<Longrightarrow> p_out q = p_out p"
  by (induction "(p, h)" "(q, g)" rule: pipe_step.induct) (auto simp: start_writes_def split: prod.splits)

lemma late_step_out:
  "session_step env s t \<Longrightarrow> expired (shared s) \<Longrightarrow>
   expired (shared t) \<and> p_out (up t) = p_out (up s) \<and> p_out (down t) = p_out (down s)"
  by (induction rule: session_step.induct)
    (auto elim!: up_step.cases down_step.cases watchdog_step.cases peer_step.cases around_step.cases retune_step.cases
      simp: pipe_send_def pipe_eof_def dest: pipe_step_expired late_pipe_out)

lemma late_steps_out:
  "(session_step env)\<^sup>*\<^sup>* s t \<Longrightarrow> expired (shared s) \<Longrightarrow>
   expired (shared t) \<and> p_out (up t) = p_out (up s) \<and> p_out (down t) = p_out (down s)"
  by (induction rule: rtranclp_induct) (auto dest: late_step_out)

definition closed_late :: "relay_pair \<Rightarrow> bool" where
  "closed_late s \<longleftrightarrow> (p_pc (up s) = PClosed \<or> p_pc (down s) = PClosed \<longrightarrow> expired (shared s))"

lemma closed_late_step: "session_step env s t \<Longrightarrow> closed_late s \<Longrightarrow> closed_late t"
  using session_step_sides[of env s t]
  by (auto simp: closed_late_def untouched_def elim!: up_step.cases down_step.cases dest: pipe_step_closed)

lemma closed_late_begin: "closed_late (relay_begin uah fo l t segs)"
  by (simp add: closed_late_def relay_begin_def new_pipe_def Let_def)

lemma closed_late_reachable:
  assumes "relay_start s0" and "(session_step env)\<^sup>*\<^sup>* s0 s"
  shows "closed_late s"
proof -
  have "closed_late s0" using assms(1) closed_late_begin by (auto simp: relay_start_def)
  with assms(2) show ?thesis by (induction rule: rtranclp_induct) (auto intro: closed_late_step)
qed

text \<open>
  The run of a client that sends its request, closes its side and waits for a response which the
  target sends after it has got the whole request.
\<close>

definition segs_of :: "bytes \<Rightarrow> bytes list" where
  "segs_of x = (if x = [] then [] else [x])"

lemma segs_of [simp]: "concat (segs_of x) = x" "[] \<notin> set (segs_of x)"
  by (simp_all add: segs_of_def)

definition asked :: "rate_limiter \<Rightarrow> int \<Rightarrow> bytes \<Rightarrow> relay_pair" where
  "asked l t req =
     \<lparr>up = copying (segs_of req) True (segs_of req) [], down = copying [] False [] [],
      shared = \<lparr>sh_limiter = l, sh_now = t, expired = False, ctx_done = False\<rparr>\<rparr>"

definition passed_on :: "rate_limiter \<Rightarrow> int \<Rightarrow> bytes \<Rightarrow> bytes \<Rightarrow> relay_pair" where
  "passed_on l t req resp =
     \<lparr>up = (copying [] True (segs_of req) req)\<lparr>p_pc := PClosed\<rparr>,
      down = copying (segs_of resp) False (segs_of resp) [],
      shared = \<lparr>sh_limiter = l, sh_now = t, expired = True, ctx_done = True\<rparr>\<rparr>"

definition cut_off :: "rate_limiter \<Rightarrow> int \<Rightarrow> bytes \<Rightarrow> bytes \<Rightarrow> relay_pair" where
  "cut_off l t req resp =
     (passed_on l t req resp)\<lparr>down := (copying (segs_of resp) False (segs_of resp) [])\<lparr>p_pc := PClosed\<rparr>\<rparr>"

lemma asks:
  assumes "\<not> rl_is_enabled l"
  shows "(quiet_step env)\<^sup>*\<^sup>* (relay_begin None (None, 0) l t []) (asked l t req)"
proof -
  let ?s = "relay_begin None (None, 0) l t []"
  have 1: "quiet_step env ?s (?s\<lparr>up := pipe_send req (up ?s)\<rparr>)"
    by (simp add: quiet_step_def client_sends)
  have 2: "quiet_step env (?s\<lparr>up := pipe_send req (up ?s)\<rparr>) (?s\<lparr>up := pipe_eof (pipe_send req (up ?s))\<rparr>)"
    using client_closes[of "?s\<lparr>up := pipe_send req (up ?s)\<rparr>"] by (simp add: quiet_step_def)
  have "?s\<lparr>up := pipe_eof (pipe_send req (up ?s))\<rparr> = asked l t req"
    using assms by (simp add: relay_begin_def asked_def copying_def new_pipe_def pipe_send_def pipe_eof_def
        new_ua_reader_def segs_of_def Let_def)
  with 1 2 show ?thesis by (metis rtranclp.rtrancl_refl rtranclp.rtrancl_into_rtrancl)
qed

lemma passes_on:
  assumes "0 < re_buf env"
  shows "(quiet_step env)\<^sup>*\<^sup>* (asked l t req) (passed_on l t req resp)"
proof -
  let ?h = "shared (asked l t req)"
  let ?p = "copying [] True (segs_of req) req"
  have h: "\<not> expired ?h" by (simp add: asked_def)
  have "(pipe_step env)\<^sup>*\<^sup>* (up (asked l t req), ?h) (?p, ?h)"
    using copies_all[OF assms h, of "segs_of req" True "segs_of req" "[]"] by (simp add: asked_def)
  also have "(pipe_step env)\<^sup>*\<^sup>* (?p, ?h) (?p\<lparr>p_pc := PClosed\<rparr>, ?h\<lparr>ctx_done := True, expired := True\<rparr>)"
    by (rule copying_ends[OF h refl])
  finally have "(quiet_step env)\<^sup>*\<^sup>* (asked l t req)
      ((asked l t req)\<lparr>up := ?p\<lparr>p_pc := PClosed\<rparr>, shared := ?h\<lparr>ctx_done := True, expired := True\<rparr>\<rparr>)"
    using up_turns[of env "up (asked l t req)" ?h "?p\<lparr>p_pc := PClosed\<rparr>" _ "asked l t req"] by simp
  moreover have "(asked l t req)\<lparr>up := ?p\<lparr>p_pc := PClosed\<rparr>, shared := ?h\<lparr>ctx_done := True, expired := True\<rparr>\<rparr>
      = passed_on l t req []"
    by (simp add: asked_def passed_on_def segs_of_def)
  moreover have "quiet_step env (passed_on l t req []) (passed_on l t req resp)"
  proof -
    have "passed_on l t req resp = (passed_on l t req [])\<lparr>down := pipe_send resp (down (passed_on l t req []))\<rparr>"
      by (simp add: passed_on_def copying_def new_pipe_def pipe_send_def new_ua_reader_def segs_of_def)
    then show ?thesis using target_sends[of "passed_on l t req []" resp] by (simp add: quiet_step_def)
  qed
  ultimately show ?thesis by (simp add: rtranclp.rtrancl_into_rtrancl)
qed

lemma is_cut_off: "(quiet_step env)\<^sup>*\<^sup>* (passed_on l t req resp) (cut_off l t req resp)"
proof -
  let ?s = "passed_on l t req resp"
  have "(pipe_step env)\<^sup>*\<^sup>* (down ?s, shared ?s) ((down ?s)\<lparr>p_pc := PClosed\<rparr>, (shared ?s)\<lparr>ctx_done := True\<rparr>)"
    by (rule late_reader_ends) (simp_all add: passed_on_def copying_def new_pipe_def new_ua_reader_def)
  from down_turns[OF this, of ?s] show ?thesis
    by (simp add: passed_on_def cut_off_def)
qed

lemma half_close_run:
  assumes "0 < re_buf env" and "\<not> rl_is_enabled l"
  shows "(quiet_step env)\<^sup>*\<^sup>* (relay_begin None (None, 0) l t []) (cut_off l t req resp)"
  using asks[OF assms(2), of env t req] passes_on[OF assms(1), of l t req resp] is_cut_off
  by (meson rtranclp_trans)

text \<open>
  C40. A client that closes its sending side after the request loses the response. In every run, once
  the loop from the client has ended and closed the sockets, not a byte more of the response is passed
  on, whatever the target sends and however fast. And for every request and every response (here
  without limiter and engines) there is a run of the relay and the two ends alone in which the client
  sends the request and closes its sending side, the target gets all of the request, sends the response
  and stays open, no connection fails, the relay returns, and the client gets no byte.
\<close>

theorem half_close_cuts_response:
  assumes "0 < re_buf env" and "\<not> rl_is_enabled l"
  shows "(\<forall>s0 s u. relay_start s0 \<longrightarrow> (session_step env)\<^sup>*\<^sup>* s0 s \<longrightarrow> p_pc (up s) = PClosed \<longrightarrow>
            (session_step env)\<^sup>*\<^sup>* s u \<longrightarrow> p_out (down u) = p_out (down s)) \<and>
         (\<exists>s. (quiet_step env)\<^sup>*\<^sup>* (relay_begin None (None, 0) l t []) s \<and>
            p_eof (up s) \<and> \<not> p_eof (down s) \<and> \<not> p_failed (up s) \<and> \<not> p_failed (down s) \<and>
            concat (p_came (up s)) = req \<and> p_out (up s) = req \<and> concat (p_came (down s)) = resp \<and>
            relay_returned s \<and> p_out (down s) = [])"
proof
  show "\<forall>s0 s u. relay_start s0 \<longrightarrow> (session_step env)\<^sup>*\<^sup>* s0 s \<longrightarrow> p_pc (up s) = PClosed \<longrightarrow>
      (session_step env)\<^sup>*\<^sup>* s u \<longrightarrow> p_out (down u) = p_out (down s)"
    using closed_late_reachable late_steps_out unfolding closed_late_def by blast
  show "\<exists>s. (quiet_step env)\<^sup>*\<^sup>* (relay_begin None (None, 0) l t []) s \<and>
      p_eof (up s) \<and> \<not> p_eof (down s) \<and> \<not> p_failed (up s) \<and> \<not> p_failed (down s) \<and>
      concat (p_came (up s)) = req \<and> p_out (up s) = req \<and> concat (p_came (down s)) = resp \<and>
      relay_returned s \<and> p_out (down s) = []"
    using half_close_run[OF assms, of t req resp]
    by (intro exI[of _ "cut_off l t req resp"])
      (simp add: cut_off_def passed_on_def copying_def new_pipe_def relay_returned_def)
qed

definition example_env :: relay_env where
  "example_env = \<lparr>re_ent = (\<lambda>_. None), re_harmonize = (\<lambda>h d. ((d, False), h)), re_toks = exact_toks, re_buf = 32768\<rparr>"

theorem half_close_cuts_response_witness:
  "\<exists>s. (quiet_step example_env)\<^sup>*\<^sup>* (relay_begin None (None, 0) (new_rate_limiter 0 0 0) 0 []) s \<and>
     p_eof (up s) \<and> \<not> p_eof (down s) \<and> p_out (up s) = [1, 2, 3] \<and> concat (p_came (down s)) = [4, 5] \<and>
     relay_returned s \<and> p_out (down s) = []"
proof -
  have "0 < re_buf example_env" "\<not> rl_is_enabled (new_rate_limiter 0 0 0)"
    by (simp_all add: example_env_def rl_is_enabled_def new_rate_limiter_def)
  from half_close_cuts_response[OF this, of 0 "[1, 2, 3]" "[4, 5]"] show ?thesis by blast
qed

section \<open>The relay returns\<close>

text \<open>
  C33. The relay returns. Take any run in which the goroutines and the watchdog get their turns
  (none of them can always go on and never does), with no limiter set at its start. If one of the loops
  has ended, or the server is stopping, then \<^verbatim>\<open>relay\<close> returns after finitely many steps, whatever the two ends do. With a
  limiter it need not: \<open>oversized_chunk_hangs\<close>.
\<close>

theorem relay_returns:
  assumes "fair_session env r" and "relay_start (r 0)" and "\<not> rl_is_enabled (sh_limiter (shared (r 0)))"
    and "0 < re_buf env"
    and "ended (p_pc (up (r i))) \<or> ended (p_pc (down (r i))) \<or> ctx_done (shared (r i))"
  shows "\<exists>j \<ge> i. \<forall>k \<ge> j. relay_returned (r k)"
proof (rule fair_session_returns[OF assms(1,4) _ assms(5)])
  obtain uah fo l t segs where "[] \<notin> set segs" "r 0 = relay_begin uah fo l t segs"
    using assms(2) by (auto simp: relay_start_def)
  with assms(3) begin_live[of l segs uah fo t] show "live_inv (r 0)"
    by (simp add: relay_begin_def Let_def)
qed

text \<open>A run that has come to rest goes on for ever.\<close>

lemma run_to_rest:
  assumes "step\<^sup>*\<^sup>* s t" and "step t t"
  shows "\<exists>r n. r 0 = s \<and> (\<forall>i. step (r i) (r (Suc i))) \<and> (\<forall>i \<ge> n. r i = t)"
  using assms(1)
proof (induction rule: converse_rtranclp_induct)
  case base
  show ?case using assms(2) by (intro exI[of _ "\<lambda>_. t"]) simp
next
  case (step a b)
  then obtain r n where r: "r 0 = b" "\<forall>i. step (r i) (r (Suc i))" "\<forall>i \<ge> n. r i = t" by blast
  have "step (case_nat a r i) (case_nat a r (Suc i))" for i
    using r(1,2) step.hyps(1) by (cases i) auto
  moreover have "case_nat a r i = t" if "Suc n \<le> i" for i
    using r(3) that by (cases i) auto
  ultimately show ?case by (intro exI[of _ "case_nat a r"] exI[of _ "Suc n"]) auto
qed

lemma no_closed_step: "p_pc p = PClosed \<Longrightarrow> \<not> pipe_step env (p, h) x"
  by (cases x) (auto elim: pipe_step.cases)

lemma fair_run_to_rest:
  assumes "(session_step env)\<^sup>*\<^sup>* s t" and "p_pc (up t) = PClosed" and "p_pc (down t) = PClosed"
    and "expired (shared t)" and "ctx_done (shared t)"
  shows "\<exists>r n. fair_session env r \<and> r 0 = s \<and> r n = t"
proof -
  have "t\<lparr>shared := (shared t)\<lparr>ctx_done := True\<rparr>\<rparr> = t"
    using assms(5) by (cases t; cases "shared t") simp
  then have "session_step env t t"
    using by_around[OF server_stops, of env t] by simp
  from run_to_rest[OF assms(1) this] obtain r n
    where r: "r 0 = s" "\<forall>i. session_step env (r i) (r (Suc i))" "\<forall>i \<ge> n. r i = t" by blast
  have fair: "fair_for act r" if "\<not> (\<exists>u. act t u)" for act
    unfolding fair_for_def
  proof
    fix i
    show "\<exists>j \<ge> i. act (r j) (r (Suc j)) \<or> \<not> (\<exists>u. act (r j) u)"
      using r(3) that by (intro exI[of _ "max i n"]) simp
  qed
  have "\<not> (\<exists>u. up_step env t u)" "\<not> (\<exists>u. down_step env t u)" "\<not> (\<exists>u. watchdog_step t u)"
    using assms no_closed_step by (auto elim!: up_step.cases down_step.cases watchdog_step.cases)
  with r fair show ?thesis
    by (intro exI[of _ r] exI[of _ n]) (simp add: fair_session_def)
qed

theorem relay_returns_witness:
  "\<exists>r i. fair_session example_env r \<and> \<not> ctx_done (shared (r 0)) \<and> ended (p_pc (up (r i))) \<and>
     (\<exists>j \<ge> i. \<forall>k \<ge> j. relay_returned (r k))"
proof -
  let ?l = "new_rate_limiter 0 0 0"
  let ?s = "relay_begin None (None, 0) ?l 0 []"
  let ?t = "cut_off ?l 0 [1, 2, 3] [4, 5]"
  have e: "0 < re_buf example_env" "\<not> rl_is_enabled ?l"
    by (simp_all add: example_env_def rl_is_enabled_def new_rate_limiter_def)
  have t: "p_pc (up ?t) = PClosed" "p_pc (down ?t) = PClosed" "expired (shared ?t)" "ctx_done (shared ?t)"
    by (simp_all add: cut_off_def passed_on_def)
  from fair_run_to_rest[OF quiet_session[OF half_close_run[OF e]] t]
  obtain r n where r: "fair_session example_env r" "r 0 = ?s" "r n = ?t" by blast
  have s: "relay_start (r 0)" "\<not> rl_is_enabled (sh_limiter (shared (r 0)))" "\<not> ctx_done (shared (r 0))"
    using e(2) unfolding r(2) relay_start_def by (force, simp_all add: relay_begin_def Let_def)
  have n: "ended (p_pc (up (r n)))" using r(3) t(1) by simp
  then have "ended (p_pc (up (r n))) \<or> ended (p_pc (down (r n))) \<or> ctx_done (shared (r n))" by blast
  from relay_returns[OF r(1) s(1,2) e(1) this] r(1) s(3) n show ?thesis by blast
qed

text \<open>Without a call that changes the limit, a chunk larger than the bucket is waited for for ever.\<close>

definition unretuned_step :: "relay_env \<Rightarrow> relay_pair \<Rightarrow> relay_pair \<Rightarrow> bool" where
  "unretuned_step env s t \<longleftrightarrow> quiet_step env s t \<or> around_step env s t"

lemma unretuned_session: "(unretuned_step env)\<^sup>*\<^sup>* s t \<Longrightarrow> (session_step env)\<^sup>*\<^sup>* s t"
  by (rule rtranclp_mono[THEN predicate2D, rotated]) (auto simp: unretuned_step_def quiet_step_def intro: session_step.intros)

definition stuck :: "bytes \<Rightarrow> relay_pair \<Rightarrow> bool" where
  "stuck x s \<longleftrightarrow> (\<exists>err. p_pc (up s) = PWaitRead x err) \<and>
     tokens (sh_limiter (shared s)) \<le> max_burst (sh_limiter (shared s)) \<and>
     max_burst (sh_limiter (shared s)) < int (length x)"

lemma wait_turn_le_burst:
  "wait_turn toks now n rl = (b, rl') \<Longrightarrow> tokens rl \<le> max_burst rl \<Longrightarrow> 0 \<le> n \<Longrightarrow>
   tokens rl' \<le> max_burst rl' \<and> max_burst rl' = max_burst rl \<and> (max_burst rl < n \<longrightarrow> \<not> b)"
  using refill_le_burst[of rl toks now] by (auto simp: wait_turn_def Let_def split: if_splits)

lemma others_le_burst:
  "tokens rl \<le> max_burst rl \<Longrightarrow> 0 \<le> n \<Longrightarrow>
   tokens (snd (wait_turn toks now n rl)) \<le> max_burst rl \<and> max_burst (snd (wait_turn toks now n rl)) = max_burst rl"
  using wait_turn_le_burst[OF surjective_pairing, of rl n toks now] by simp

lemma stuck_pipe_step:
  "pipe_step env (p, h) (q, g) \<Longrightarrow> tokens (sh_limiter h) \<le> max_burst (sh_limiter h) \<Longrightarrow>
   tokens (sh_limiter g) \<le> max_burst (sh_limiter g) \<and> max_burst (sh_limiter g) = max_burst (sh_limiter h) \<and>
   (p_pc p = PWaitRead x err \<and> max_burst (sh_limiter h) < int (length x) \<longrightarrow> p_pc q = PWaitRead x err)"
  by (induction "(p, h)" "(q, g)" rule: pipe_step.induct) (auto dest: wait_turn_le_burst)

lemma stuck_step:
  assumes "unretuned_step env s t" and "stuck x s"
  shows "stuck x t"
  using assms
  by (auto simp: unretuned_step_def quiet_step_def stuck_def pipe_send_def pipe_eof_def
      elim!: up_step.cases down_step.cases watchdog_step.cases peer_step.cases around_step.cases
      simp: others_le_burst dest: stuck_pipe_step)

lemma stuck_steps: "(unretuned_step env)\<^sup>*\<^sup>* s t \<Longrightarrow> stuck x s \<Longrightarrow> stuck x t"
  by (induction rule: rtranclp_induct) (auto intro: stuck_step)

lemma gets_stuck:
  assumes "rl_enabled l" and "bucket_ok l" and "max_burst l < int (length x)" and "length x \<le> re_buf env"
  shows "\<exists>s. (unretuned_step env)\<^sup>*\<^sup>* (relay_begin None (None, 0) l t []) s \<and>
    stuck x s \<and> p_eof (up s) \<and> p_eof (down s) \<and> expired (shared s)"
proof -
  let ?s0 = "relay_begin None (None, 0) l t []"
  let ?s1 = "?s0\<lparr>up := pipe_send x (up ?s0)\<rparr>"
  let ?s2 = "?s1\<lparr>up := (up ?s1)\<lparr>p_rd := new_ua_reader [] None, p_pc := PWaitRead x False\<rparr>\<rparr>"
  let ?s3 = "?s2\<lparr>up := pipe_eof (up ?s2)\<rparr>"
  let ?s4 = "?s3\<lparr>down := pipe_eof (down ?s3)\<rparr>"
  let ?s5 = "?s4\<lparr>shared := (shared ?s4)\<lparr>ctx_done := True\<rparr>\<rparr>"
  let ?s6 = "?s5\<lparr>shared := (shared ?s5)\<lparr>expired := True\<rparr>\<rparr>"
  have x: "x \<noteq> []" using assms(2,3) by (auto simp: bucket_ok_def)
  note defs = relay_begin_def new_pipe_def pipe_send_def pipe_eof_def new_ua_reader_def
  have r: "ua_read source_read (re_harmonize env) (re_buf env) (p_rd (up ?s1)) = ((x, False), new_ua_reader [] None)"
    using x assms(4) by (simp add: defs ua_read_def Let_def)
  have "pipe_step env (up ?s1, shared ?s1) (up ?s2, shared ?s1)"
    using read_some[of "up ?s1" "shared ?s1" env x False, OF _ _ r] x assms(1)
    by (simp add: defs after_read_def rl_is_enabled_def Let_def)
  then have 1: "up_step env ?s1 ?s2"
    using up_step.up_step[of env ?s1 "up ?s2" "shared ?s1"] by simp
  have 2: "watchdog_step ?s5 ?s6"
    using watchdog_step[of ?s5] by (simp add: defs Let_def)
  have u: "unretuned_step env a b" if "up_step env a b \<or> watchdog_step a b \<or> peer_step a b \<or> around_step env a b" for a b
    using that by (auto simp: unretuned_step_def quiet_step_def)
  have "(unretuned_step env)\<^sup>*\<^sup>* ?s0 ?s3"
    using u[of ?s0 ?s1] u[of ?s1 ?s2] u[of ?s2 ?s3] 1 client_sends[of ?s0] client_closes[of ?s2]
    by (meson rtranclp.rtrancl_refl rtranclp.rtrancl_into_rtrancl)
  moreover have "(unretuned_step env)\<^sup>*\<^sup>* ?s3 ?s6"
    using u[of ?s3 ?s4] u[of ?s4 ?s5] u[of ?s5 ?s6] 2 target_closes[of ?s3] server_stops[of env ?s4]
    by (meson rtranclp.rtrancl_refl rtranclp.rtrancl_into_rtrancl)
  moreover have "stuck x ?s6" "p_eof (up ?s6)" "p_eof (down ?s6)" "expired (shared ?s6)"
    using assms(2,3) by (auto simp: stuck_def bucket_ok_def defs Let_def)
  ultimately show ?thesis by (meson rtranclp_trans)
qed

text \<open>
  With a limit below the buffer size the relay can hang for good: a state is reached in which both ends
  have closed, the server is stopping and the deadlines have passed, and from which no step of the relay,
  of the ends or of anything around it, short of a change of the limit, leads to its return.
\<close>

theorem oversized_chunk_hangs:
  assumes "rl_enabled l" and "bucket_ok l" and "max_burst l < int (re_buf env)"
  shows "\<exists>s. (session_step env)\<^sup>*\<^sup>* (relay_begin None (None, 0) l t []) s \<and>
    p_eof (up s) \<and> p_eof (down s) \<and> expired (shared s) \<and>
    (\<forall>u. (unretuned_step env)\<^sup>*\<^sup>* s u \<longrightarrow> \<not> relay_returned u)"
proof -
  let ?x = "replicate (re_buf env) 0 :: bytes"
  have "max_burst l < int (length ?x)" "length ?x \<le> re_buf env" using assms(3) by simp_all
  from gets_stuck[OF assms(1,2) this, of t] obtain s where
    s: "(unretuned_step env)\<^sup>*\<^sup>* (relay_begin None (None, 0) l t []) s" "stuck ?x s"
      "p_eof (up s)" "p_eof (down s)" "expired (shared s)" by blast
  have "\<not> relay_returned u" if "(unretuned_step env)\<^sup>*\<^sup>* s u" for u
    using stuck_steps[OF that s(2)] by (auto simp: stuck_def relay_returned_def)
  with s unretuned_session[OF s(1)] show ?thesis by blast
qed

theorem oversized_chunk_hangs_witness:
  "\<exists>s. (session_step example_env)\<^sup>*\<^sup>* (relay_begin None (None, 0) (new_rate_limiter 0 0 16384) 0 []) s \<and>
    expired (shared s) \<and> (\<forall>u. (unretuned_step example_env)\<^sup>*\<^sup>* s u \<longrightarrow> \<not> relay_returned u)"
  using oversized_chunk_hangs[of "new_rate_limiter 0 0 16384" example_env 0]
  by (simp add: new_rate_limiter_def bucket_ok_def example_env_def) blast

theorem relay_session_ok_witness:
  "\<exists>s. (session_step example_env)\<^sup>*\<^sup>* (relay_begin None (None, 0) (new_rate_limiter 0 0 0) 0 []) s \<and>
     ended (p_pc (up s)) \<and> p_out (up s) = [1, 2, 3] \<and>
     pipe_report (re_harmonize example_env) (expired (shared s)) (up s) \<and>
     pipe_report (re_harmonize example_env) (expired (shared s)) (down s)"
proof -
  let ?l = "new_rate_limiter 0 0 0"
  let ?s0 = "relay_begin None (None, 0) ?l 0 []"
  let ?t = "cut_off ?l 0 [1, 2, 3] [4, 5]"
  have e: "0 < re_buf example_env" "\<not> rl_is_enabled ?l"
    by (simp_all add: example_env_def rl_is_enabled_def new_rate_limiter_def)
  note t = quiet_session[OF half_close_run[OF e, of 0 "[1, 2, 3]" "[4, 5]"]]
  have s: "relay_start ?s0" by (force simp: relay_start_def)
  have f: "plain_frag (p_frag (up ?s0))" by (simp add: relay_begin_def new_pipe_def plain_frag_def Let_def)
  have "ended (p_pc (up ?t))" "p_out (up ?t) = [1, 2, 3]"
    by (simp_all add: cut_off_def passed_on_def copying_def)
  with relay_session_ok[OF s e(1) t] f t show ?thesis by blast
qed

end
