(* ===== verification/Socks5.thy ===== *)
theory Socks5
  imports GoNet
begin

text \<open>
  The SOCKS5 server of \<^verbatim>\<open>proxy/socks5.go\<close>: the token authenticator, method negotiation,
  password authentication, request parsing, replies, the handling of one connection up to
  the relay, and the accept loop. Dialling the target and \<^verbatim>\<open>net.ParseIP\<close> are parameters.
\<close>

section \<open>Authenticators\<close>

text \<open>The interface \<^verbatim>\<open>Authenticator\<close> together with the changes a token store offers.\<close>

locale authenticator =
  fixes validate :: "'a \<Rightarrow> string \<Rightarrow> string \<Rightarrow> bool"
    and add_token :: "string \<Rightarrow> string \<Rightarrow> 'a \<Rightarrow> 'a"
    and remove_token :: "string \<Rightarrow> 'a \<Rightarrow> 'a"
  assumes validate_add:
      "validate (add_token u t a) v p = (if v = u then p = t else validate a v p)"
    and validate_remove:
      "validate (remove_token u a) v p = (v \<noteq> u \<and> validate a v p)"
begin

text \<open>Rotating a token leaves exactly the new one, and a removed peer is out until added again.\<close>

lemma rotation: "validate (add_token u new (add_token u old a)) u p \<longleftrightarrow> p = new"
  by (simp add: validate_add)

lemma removed: "\<not> validate (remove_token u (add_token u t a)) u p"
  by (simp add: validate_remove)

lemma others_unaffected:
  "v \<noteq> u \<Longrightarrow> validate (add_token u t a) v p = validate a v p"
  "v \<noteq> u \<Longrightarrow> validate (remove_token u a) v p = validate a v p"
  by (simp_all add: validate_add validate_remove)

end

record token_authenticator =
  ta_tokens :: "string \<rightharpoonup> string"

definition new_token_authenticator :: "(string \<rightharpoonup> string) \<Rightarrow> token_authenticator" where
  "new_token_authenticator tokens = \<lparr>ta_tokens = tokens\<rparr>"

definition ta_validate :: "token_authenticator \<Rightarrow> string \<Rightarrow> string \<Rightarrow> bool" where
  "ta_validate a username password =
     (case ta_tokens a username of None \<Rightarrow> False | Some expected \<Rightarrow> expected = password)"

definition ta_add_token :: "string \<Rightarrow> string \<Rightarrow> token_authenticator \<Rightarrow> token_authenticator" where
  "ta_add_token username token a = a\<lparr>ta_tokens := (ta_tokens a)(username \<mapsto> token)\<rparr>"

definition ta_remove_token :: "string \<Rightarrow> token_authenticator \<Rightarrow> token_authenticator" where
  "ta_remove_token username a = a\<lparr>ta_tokens := (ta_tokens a)(username := None)\<rparr>"

interpretation token_auth: authenticator ta_validate ta_add_token ta_remove_token
  by unfold_locales
    (auto simp: ta_validate_def ta_add_token_def ta_remove_token_def split: option.split)

section \<open>Configuration and metrics\<close>

record metrics =
  active_connections :: i64
  total_connections :: i64
  bytes_in :: i64
  bytes_out :: i64
  auth_failures :: i64
  connection_errors :: i64

text \<open>Times in seconds; the engines are references, here whether they are set.\<close>

record 'a server_config =
  bind_address :: string
  tls_config :: bool
  auth :: "'a option"
  max_connections :: int
  dial_timeout :: int
  relay_buf_size :: int
  doh_enabled :: bool
  kill_switch_enabled :: bool
  ttl_engine_on :: bool

definition default_server_config :: "'a server_config" where
  "default_server_config =
     \<lparr>bind_address = ''127.0.0.1:1080'', tls_config = False, auth = None, max_connections = 256,
      dial_timeout = 30, relay_buf_size = 32 * 1024, doh_enabled = False,
      kill_switch_enabled = False, ttl_engine_on = False\<rparr>"

record 'a socks_server =
  srv_cfg :: "'a server_config"
  srv_metrics :: metrics

definition empty_metrics :: metrics where
  "empty_metrics = \<lparr>active_connections = 0, total_connections = 0, bytes_in = 0, bytes_out = 0,
     auth_failures = 0, connection_errors = 0\<rparr>"

definition new_server :: "'a server_config \<Rightarrow> 'a socks_server" where
  "new_server cfg =
     (let c1 = (if max_connections cfg \<le> 0 then cfg\<lparr>max_connections := 256\<rparr> else cfg);
          c2 = (if dial_timeout c1 \<le> 0 then c1\<lparr>dial_timeout := 30\<rparr> else c1);
          c3 = (if relay_buf_size c2 \<le> 0 then c2\<lparr>relay_buf_size := 32 * 1024\<rparr> else c2)
      in \<lparr>srv_cfg = c3, srv_metrics = empty_metrics\<rparr>)"

definition get_metrics :: "'a socks_server \<Rightarrow> metrics" where
  "get_metrics s = srv_metrics s"

definition get_config :: "'a socks_server \<Rightarrow> 'a server_config" where
  "get_config s = srv_cfg s"

definition update_privacy_config :: "bool \<Rightarrow> bool \<Rightarrow> 'a socks_server \<Rightarrow> 'a socks_server" where
  "update_privacy_config doh kill_switch s =
     s\<lparr>srv_cfg := (srv_cfg s)\<lparr>doh_enabled := doh, kill_switch_enabled := kill_switch\<rparr>\<rparr>"

text \<open>\<^verbatim>\<open>InvalidateSessions\<close> takes the lock and writes a log line.\<close>

definition invalidate_sessions :: "'a socks_server \<Rightarrow> 'a socks_server" where
  "invalidate_sessions s = s"

definition count_auth_failure :: "'a socks_server \<Rightarrow> 'a socks_server" where
  "count_auth_failure s = s\<lparr>srv_metrics := (srv_metrics s)\<lparr>auth_failures := auth_failures (srv_metrics s) + 1\<rparr>\<rparr>"

definition count_connection_error :: "'a socks_server \<Rightarrow> 'a socks_server" where
  "count_connection_error s =
     s\<lparr>srv_metrics := (srv_metrics s)\<lparr>connection_errors := connection_errors (srv_metrics s) + 1\<rparr>\<rparr>"

section \<open>The protocol\<close>

datatype socks_err =
  SocksRead io_err | SocksWrite io_err | UnsupportedVersion | UnsupportedCmd | AuthFailed
| UnsupportedAddressType byte

definition write_all :: "bytes \<Rightarrow> conn \<Rightarrow> socks_err option \<times> conn" where
  "write_all p c =
     (case conn_write p c of
        ((_, Some e), c') \<Rightarrow> (Some (SocksWrite e), c') | ((_, None), c') \<Rightarrow> (None, c'))"

text \<open>One length-prefixed field: the length byte, then as many bytes.\<close>

definition read_field :: "conn \<Rightarrow> (io_err + bytes) \<times> conn" where
  "read_field c =
     (case read_full 1 c of
        (Inl e, c1) \<Rightarrow> (Inl e, c1)
      | (Inr l, c1) \<Rightarrow> read_full (unat (l ! 0)) c1)"

definition authenticate_password ::
  "('a \<Rightarrow> string \<Rightarrow> string \<Rightarrow> bool) \<Rightarrow> 'a \<Rightarrow> 'a socks_server \<Rightarrow> conn \<Rightarrow>
   socks_err option \<times> 'a socks_server \<times> conn" where
  "authenticate_password validate a s c =
     (case read_full 1 c of
        (Inl e, c1) \<Rightarrow> (Some (SocksRead e), s, c1)
      | (Inr ver, c1) \<Rightarrow>
     (case read_field c1 of
        (Inl e, c2) \<Rightarrow> (Some (SocksRead e), s, c2)
      | (Inr uname, c2) \<Rightarrow>
     (case read_field c2 of
        (Inl e, c3) \<Rightarrow> (Some (SocksRead e), s, c3)
      | (Inr passwd, c3) \<Rightarrow>
          if \<not> validate a (str_of_bytes uname) (str_of_bytes passwd)
          then (case write_all [0x01, 0x01] c3 of
                  (Some e, c4) \<Rightarrow> (Some e, count_auth_failure s, c4)
                | (None, c4) \<Rightarrow> (Some AuthFailed, count_auth_failure s, c4))
          else (case write_all [0x01, 0x00] c3 of (r, c4) \<Rightarrow> (r, s, c4)))))"

definition negotiate ::
  "('a \<Rightarrow> string \<Rightarrow> string \<Rightarrow> bool) \<Rightarrow> 'a socks_server \<Rightarrow> conn \<Rightarrow>
   socks_err option \<times> 'a socks_server \<times> conn" where
  "negotiate validate s c =
     (case read_full 2 c of
        (Inl e, c1) \<Rightarrow> (Some (SocksRead e), s, c1)
      | (Inr header, c1) \<Rightarrow>
          if header ! 0 \<noteq> 0x05 then (Some UnsupportedVersion, s, c1)
          else
     (case read_full (unat (header ! 1)) c1 of
        (Inl e, c2) \<Rightarrow> (Some (SocksRead e), s, c2)
      | (Inr methods, c2) \<Rightarrow>
     (case auth (srv_cfg s) of
        Some a \<Rightarrow>
          if 0x02 \<notin> set methods
          then (case conn_write [0x05, 0xFF] c2 of (_, c3) \<Rightarrow> (Some AuthFailed, s, c3))
          else (case write_all [0x05, 0x02] c2 of
                  (Some e, c3) \<Rightarrow> (Some e, s, c3)
                | (None, c3) \<Rightarrow> authenticate_password validate a s c3)
      | None \<Rightarrow> (case write_all [0x05, 0x00] c2 of (r, c3) \<Rightarrow> (r, s, c3)))))"

text \<open>
  \<^verbatim>\<open>sendReply\<close>; \<open>parse_ip\<close> is \<^verbatim>\<open>net.ParseIP\<close>, which returns 16 bytes. Copying a
  16-byte address into its field and the zero address are written out.
\<close>

definition reply_bytes :: "(string \<Rightarrow> bytes option) \<Rightarrow> byte \<Rightarrow> string \<Rightarrow> int \<Rightarrow> bytes" where
  "reply_bytes parse_ip status bind_ip bind_port =
     (let ip = (case parse_ip bind_ip of
                  None \<Rightarrow> replicate 10 0 @ [0xff, 0xff] @ replicate 4 0 | Some a \<Rightarrow> a);
          port = [of_int (bind_port div 256), of_int (bind_port mod 256)]
      in case ip_to4 ip of
           Some ip4 \<Rightarrow> [0x05, status, 0x00, 0x01] @ ip4 @ port
         | None \<Rightarrow>
             (let ip6 = (case ip_to16 ip of None \<Rightarrow> replicate 16 0 | Some a \<Rightarrow> a)
              in [0x05, status, 0x00, 0x04] @ ip6 @ port))"

definition send_reply ::
  "(string \<Rightarrow> bytes option) \<Rightarrow> byte \<Rightarrow> string \<Rightarrow> int \<Rightarrow> conn \<Rightarrow> socks_err option \<times> conn" where
  "send_reply parse_ip status bind_ip bind_port c = write_all (reply_bytes parse_ip status bind_ip bind_port) c"

text \<open>The host of the request, by address type.\<close>

definition read_host :: "byte \<Rightarrow> conn \<Rightarrow> (socks_err + string) \<times> conn" where
  "read_host atyp c =
     (if atyp = 0x01
      then (case read_full 4 c of
              (Inl e, c1) \<Rightarrow> (Inl (SocksRead e), c1) | (Inr a, c1) \<Rightarrow> (Inr (ip_string a), c1))
      else if atyp = 0x03
      then (case read_field c of
              (Inl e, c1) \<Rightarrow> (Inl (SocksRead e), c1) | (Inr d, c1) \<Rightarrow> (Inr (str_of_bytes d), c1))
      else if atyp = 0x04
      then (case read_full 16 c of
              (Inl e, c1) \<Rightarrow> (Inl (SocksRead e), c1) | (Inr a, c1) \<Rightarrow> (Inr (ip_string a), c1))
      else (Inl (UnsupportedAddressType atyp), c))"

definition read_request :: "(string \<Rightarrow> bytes option) \<Rightarrow> conn \<Rightarrow> (socks_err + string) \<times> conn" where
  "read_request parse_ip c =
     (case read_full 4 c of
        (Inl e, c1) \<Rightarrow> (Inl (SocksRead e), c1)
      | (Inr header, c1) \<Rightarrow>
          if header ! 0 \<noteq> 0x05 then (Inl UnsupportedVersion, c1)
          else if header ! 1 \<noteq> 0x01
          then (case send_reply parse_ip 0x02 ''0.0.0.0'' 0 c1 of (_, c2) \<Rightarrow> (Inl UnsupportedCmd, c2))
          else
     (case read_host (header ! 3) c1 of
        (Inl e, c2) \<Rightarrow> (Inl e, c2)
      | (Inr host, c2) \<Rightarrow>
     (case read_full 2 c2 of
        (Inl e, c3) \<Rightarrow> (Inl (SocksRead e), c3)
      | (Inr p, c3) \<Rightarrow> (Inr (sprintf_host_port host (unat (be16 (p ! 0) (p ! 1)))), c3))))"

text \<open>
  \<^verbatim>\<open>handleConnection\<close> up to the relay. \<open>dial\<close> gets whether names are resolved over TLS, whether
  the TTL is set on the socket, and the address; it returns the local address of the target
  connection and the connection. The kill switch flag is read and not used.
\<close>

datatype handled =
  NegotiateError socks_err | RequestError socks_err | DialError string
| Relayed string conn

definition handle_connection ::
  "('a \<Rightarrow> string \<Rightarrow> string \<Rightarrow> bool) \<Rightarrow> (string \<Rightarrow> bytes option) \<Rightarrow>
   (bool \<Rightarrow> bool \<Rightarrow> string \<Rightarrow> (string \<times> int \<times> conn) option) \<Rightarrow> 'a socks_server \<Rightarrow> conn \<Rightarrow>
   handled \<times> 'a socks_server \<times> conn" where
  "handle_connection validate parse_ip dial s c =
     (case negotiate validate s c of
        (Some e, s1, c1) \<Rightarrow> (NegotiateError e, s1, c1)
      | (None, s1, c1) \<Rightarrow>
     (case read_request parse_ip c1 of
        (Inl e, c2) \<Rightarrow> (RequestError e, s1, c2)
      | (Inr dest, c2) \<Rightarrow>
     (case dial (doh_enabled (srv_cfg s1)) (ttl_engine_on (srv_cfg s1)) dest of
        None \<Rightarrow>
          (case send_reply parse_ip 0x04 ''0.0.0.0'' 0 c2 of
             (_, c3) \<Rightarrow> (DialError dest, count_connection_error s1, c3))
      | Some (local_ip, local_port, target) \<Rightarrow>
          (case send_reply parse_ip 0x00 local_ip local_port c2 of
             (_, c3) \<Rightarrow> (Relayed dest target, s1, c3)))))"

section \<open>Reading and writing fields\<close>

definition field :: "bytes \<Rightarrow> bytes" where
  "field bs = of_nat (length bs) # bs"

lemma read_field_ok [io_simps]:
  assumes "inp c = field bs @ rest" and "length bs < 256"
  shows "read_field c = (Inr bs, c\<lparr>inp := rest\<rparr>)"
proof -
  have "read_full 1 c = (Inr [of_nat (length bs)], c\<lparr>inp := bs @ rest\<rparr>)"
    by (rule read_full_ok) (simp_all add: assms(1) field_def)
  moreover have "unat (of_nat (length bs) :: byte) = length bs"
    using assms(2) by (simp add: unsigned_of_nat take_bit_nat_eq_self)
  moreover have "read_full (length bs) (c\<lparr>inp := bs @ rest\<rparr>) = (Inr bs, c\<lparr>inp := rest\<rparr>)"
    by (subst read_full_ok[OF refl, of _ bs rest]) simp_all
  ultimately show ?thesis by (simp add: read_field_def)
qed

lemma read_field_InrD:
  assumes "read_field c = (Inr bs, c')"
  shows "inp c = field bs @ inp c' \<and> outp c' = outp c \<and> wcap c' = wcap c"
proof -
  obtain l c1 where 1: "read_full 1 c = (Inr l, c1)" and 2: "read_full (unat (l ! 0)) c1 = (Inr bs, c')"
    using assms by (auto simp: read_field_def split: prod.splits sum.splits)
  from read_full_InrD[OF 1] obtain b where b: "l = [b]" "inp c = b # inp c1" "outp c1 = outp c" "wcap c1 = wcap c"
    by (auto simp: length_Suc_conv)
  with read_full_InrD[OF 2] have "length bs = unat b" "inp c1 = bs @ inp c'" by auto
  then have "b = of_nat (length bs)" by simp
  with b read_full_InrD[OF 2] show ?thesis by (simp add: field_def)
qed

lemma write_all_None:
  "write_all p c = (None, c') \<longleftrightarrow>
   length p \<le> wcap c \<and> c' = c\<lparr>outp := outp c @ p, wcap := wcap c - length p\<rparr>"
  by (auto simp: write_all_def conn_write_def)

lemma write_all_ok [io_simps]:
  "length p \<le> wcap c \<Longrightarrow> write_all p c = (None, c\<lparr>outp := outp c @ p, wcap := wcap c - length p\<rparr>)"
  by (simp add: write_all_def conn_write_def)

lemma write_two:
  "2 \<le> wcap c \<Longrightarrow> write_all [a, b] c = (None, c\<lparr>outp := outp c @ [a, b], wcap := wcap c - 2\<rparr>)"
  by (simp add: write_all_def conn_write_def numeral_2_eq_2)

text \<open>The client's side of the opening: methods, then user name and password.\<close>

definition greeting :: "bytes \<Rightarrow> bytes" where
  "greeting methods = [0x05, of_nat (length methods)] @ methods"

definition credentials :: "byte \<Rightarrow> bytes \<Rightarrow> bytes \<Rightarrow> bytes" where
  "credentials ver uname passwd = [ver] @ field uname @ field passwd"

lemma read_greeting:
  assumes "inp c = greeting methods @ rest" and "length methods < 256"
  shows "read_full 2 c = (Inr [0x05, of_nat (length methods)], c\<lparr>inp := methods @ rest\<rparr>)"
    and "read_full (unat (of_nat (length methods) :: byte)) (c\<lparr>inp := methods @ rest\<rparr>)
      = (Inr methods, c\<lparr>inp := rest\<rparr>)"
proof -
  show "read_full 2 c = (Inr [0x05, of_nat (length methods)], c\<lparr>inp := methods @ rest\<rparr>)"
    by (rule read_full_ok) (simp_all add: assms(1) greeting_def)
  have u: "unat (of_nat (length methods) :: byte) = length methods"
    using assms(2) by (simp add: unsigned_of_nat take_bit_nat_eq_self)
  show "read_full (unat (of_nat (length methods) :: byte)) (c\<lparr>inp := methods @ rest\<rparr>)
      = (Inr methods, c\<lparr>inp := rest\<rparr>)"
    unfolding u by (subst read_full_ok[OF refl, of _ methods rest]) simp_all
qed

lemma authenticate_password_ok:
  assumes "inp c = credentials ver uname passwd @ rest" and "length uname < 256" "length passwd < 256"
    and "2 \<le> wcap c"
  shows "authenticate_password validate a s c =
    (if validate a (str_of_bytes uname) (str_of_bytes passwd)
     then (None, s, c\<lparr>inp := rest, outp := outp c @ [0x01, 0x00], wcap := wcap c - 2\<rparr>)
     else (Some AuthFailed, count_auth_failure s,
           c\<lparr>inp := rest, outp := outp c @ [0x01, 0x01], wcap := wcap c - 2\<rparr>))"
proof -
  have 1: "read_full 1 c = (Inr [ver], c\<lparr>inp := field uname @ field passwd @ rest\<rparr>)"
    by (rule read_full_ok) (simp_all add: assms(1) credentials_def)
  have 2: "read_field (c\<lparr>inp := field uname @ field passwd @ rest\<rparr>)
      = (Inr uname, c\<lparr>inp := field passwd @ rest\<rparr>)"
    by (subst read_field_ok[of _ uname "field passwd @ rest"]) (simp_all add: assms(2))
  have 3: "read_field (c\<lparr>inp := field passwd @ rest\<rparr>) = (Inr passwd, c\<lparr>inp := rest\<rparr>)"
    by (subst read_field_ok[of _ passwd rest]) (simp_all add: assms(3))
  show ?thesis
    using assms(4) by (simp add: authenticate_password_def 1 2 3 write_two del: One_nat_def)
qed

lemma negotiate_auth_ok:
  assumes "auth (srv_cfg s) = Some a" and "inp c = greeting methods @ credentials ver uname passwd @ rest"
    and "length methods < 256" "0x02 \<in> set methods" "length uname < 256" "length passwd < 256" "4 \<le> wcap c"
  shows "negotiate validate s c =
    (if validate a (str_of_bytes uname) (str_of_bytes passwd)
     then (None, s, c\<lparr>inp := rest, outp := outp c @ [0x05, 0x02, 0x01, 0x00], wcap := wcap c - 4\<rparr>)
     else (Some AuthFailed, count_auth_failure s,
           c\<lparr>inp := rest, outp := outp c @ [0x05, 0x02, 0x01, 0x01], wcap := wcap c - 4\<rparr>))"
proof -
  let ?c1 = "c\<lparr>inp := credentials ver uname passwd @ rest, outp := outp c @ [0x05, 0x02], wcap := wcap c - 2\<rparr>"
  have i: "inp ?c1 = credentials ver uname passwd @ rest" "2 \<le> wcap ?c1"
    using assms(7) by simp_all
  show ?thesis
    using assms(1,4,7) authenticate_password_ok[OF i(1) assms(5,6) i(2), of validate a s]
    by (simp add: negotiate_def read_greeting[OF assms(2,3)] write_two)
qed

lemma authenticate_password_None:
  assumes "authenticate_password validate a s c = (None, s', c')"
  shows "s' = s \<and> (\<exists>ver uname passwd. inp c = credentials ver uname passwd @ inp c' \<and>
    validate a (str_of_bytes uname) (str_of_bytes passwd) \<and> outp c' = outp c @ [0x01, 0x00])"
proof -
  obtain ver c1 where 1: "read_full 1 c = (Inr ver, c1)"
    using assms by (auto simp: authenticate_password_def split: prod.splits sum.splits)
  obtain uname c2 where 2: "read_field c1 = (Inr uname, c2)"
    using assms 1 by (auto simp: authenticate_password_def split: prod.splits sum.splits)
  obtain passwd c3 where 3: "read_field c2 = (Inr passwd, c3)"
    using assms 1 2 by (auto simp: authenticate_password_def split: prod.splits sum.splits)
  have v: "validate a (str_of_bytes uname) (str_of_bytes passwd)"
    using assms 1 2 3 by (auto simp: authenticate_password_def split: if_splits prod.splits option.splits)
  then have w: "write_all [0x01, 0x00] c3 = (None, c')" "s' = s"
    using assms 1 2 3 by (auto simp: authenticate_password_def split: prod.splits)
  obtain b where b: "ver = [b]" "inp c = b # inp c1" "outp c1 = outp c"
    using read_full_InrD[OF 1] by (auto simp: length_Suc_conv)
  have "inp c = credentials b uname passwd @ inp c'"
    using b read_field_InrD[OF 2] read_field_InrD[OF 3] w(1)
    by (auto simp: credentials_def write_all_None)
  then show ?thesis
    using v w b read_field_InrD[OF 2] read_field_InrD[OF 3] by (auto simp: write_all_None)
qed

lemma negotiate_None:
  assumes "auth (srv_cfg s) = Some a" and "negotiate validate s c = (None, s', c')"
  shows "s' = s \<and> (\<exists>methods ver uname passwd.
    inp c = greeting methods @ credentials ver uname passwd @ inp c' \<and> 0x02 \<in> set methods \<and>
    validate a (str_of_bytes uname) (str_of_bytes passwd) \<and> outp c' = outp c @ [0x05, 0x02, 0x01, 0x00])"
proof -
  obtain h c1 where 1: "read_full 2 c = (Inr h, c1)"
    using assms by (auto simp: negotiate_def split: prod.splits sum.splits)
  have v: "h ! 0 = 0x05"
    using assms 1 by (auto simp: negotiate_def split: if_splits)
  obtain methods c2 where 2: "read_full (unat (h ! 1)) c1 = (Inr methods, c2)"
    using assms 1 v by (auto simp: negotiate_def split: prod.splits sum.splits)
  have m: "0x02 \<in> set methods"
    using assms 1 v 2 by (auto simp: negotiate_def split: if_splits prod.splits)
  obtain c3 where 3: "write_all [0x05, 0x02] c2 = (None, c3)"
    and p: "authenticate_password validate a s c3 = (None, s', c')"
    using assms 1 v 2 m by (auto simp: negotiate_def split: prod.splits option.splits)
  have h: "h = [0x05, h ! 1]" "inp c = h @ inp c1" "outp c1 = outp c"
    using read_full_InrD[OF 1] v by (auto simp: length_2_iff)
  have "h ! 1 = of_nat (length methods)" "inp c1 = methods @ inp c2" "outp c2 = outp c1"
    using read_full_InrD[OF 2] by auto
  then have "inp c = greeting methods @ inp c2" "outp c2 = outp c"
    using h by (auto simp: greeting_def)
  moreover have "inp c3 = inp c2" "outp c3 = outp c2 @ [0x05, 0x02]"
    using 3 by (simp_all add: write_all_None)
  moreover obtain ver uname passwd where "s' = s" "inp c3 = credentials ver uname passwd @ inp c'"
    "validate a (str_of_bytes uname) (str_of_bytes passwd)" "outp c' = outp c3 @ [0x01, 0x00]"
    using authenticate_password_None[OF p] by blast
  ultimately show ?thesis
    using m by (intro conjI exI[of _ methods] exI[of _ ver] exI[of _ uname] exI[of _ passwd]) simp_all
qed

section \<open>Properties of the protocol\<close>

text \<open>
  C1. Nobody gets past authentication without a registered token. If the server has a token
  authenticator and the handling of a connection gets as far as the request (so in
  particular whenever a target is dialled), the client's bytes began with a greeting that
  offers password authentication and a user name and password that are an entry of the
  token table.
\<close>

theorem only_authenticated_requests:
  assumes "auth (srv_cfg s) = Some a"
    and "handle_connection ta_validate parse_ip dial s c = (h, s', c')"
    and "\<And>e. h \<noteq> NegotiateError e"
  shows "\<exists>methods ver uname passwd rest.
    inp c = greeting methods @ credentials ver uname passwd @ rest \<and> 0x02 \<in> set methods \<and>
    ta_tokens a (str_of_bytes uname) = Some (str_of_bytes passwd)"
proof -
  obtain s1 c1 where n: "negotiate ta_validate s c = (None, s1, c1)"
    using assms(2,3) by (auto simp: handle_connection_def split: prod.splits option.splits)
  obtain methods ver uname passwd where
    "inp c = greeting methods @ credentials ver uname passwd @ inp c1" "0x02 \<in> set methods"
    "ta_validate a (str_of_bytes uname) (str_of_bytes passwd)"
    using negotiate_None[OF assms(1) n] by blast
  moreover from this have "ta_tokens a (str_of_bytes uname) = Some (str_of_bytes passwd)"
    by (auto simp: ta_validate_def split: option.splits)
  ultimately show ?thesis by blast
qed

text \<open>The client bytes of the examples: user "u", password "p", then a request for host "h".\<close>

definition example_client :: conn where
  "example_client = \<lparr>inp = greeting [0x00, 0x02] @ credentials 0x01 [0x75] [0x70] @
       [0x05, 0x01, 0x00, 0x03] @ field [0x68] @ put16 443 @ [0x99], outp = [], wcap = 100\<rparr>"

definition example_server :: "token_authenticator socks_server" where
  "example_server =
     new_server (default_server_config\<lparr>auth := Some (new_token_authenticator [''u'' \<mapsto> ''p''])\<rparr>)"

definition example_target :: conn where
  "example_target = \<lparr>inp = [], outp = [], wcap = 0\<rparr>"

definition example_dial :: "bool \<Rightarrow> bool \<Rightarrow> string \<Rightarrow> (string \<times> int \<times> conn) option" where
  "example_dial doh ttl addr = Some (''10.0.0.1'', 5000, example_target)"

definition example_parse_ip :: "string \<Rightarrow> bytes option" where
  "example_parse_ip s = Some (replicate 10 0 @ [0xff, 0xff, 10, 0, 0, 1])"

theorem only_authenticated_requests_witness:
  "\<exists>methods ver uname passwd rest.
    inp example_client = greeting methods @ credentials ver uname passwd @ rest \<and>
    ta_tokens (new_token_authenticator [''u'' \<mapsto> ''p'']) (str_of_bytes uname) = Some (str_of_bytes passwd)"
proof -
  have a: "auth (srv_cfg example_server) = Some (new_token_authenticator [''u'' \<mapsto> ''p''])"
    by (simp add: example_server_def new_server_def default_server_config_def)
  obtain h s' c' where h: "handle_connection ta_validate example_parse_ip example_dial example_server example_client = (h, s', c')"
    by (metis prod.exhaust)
  have i: "inp example_client = greeting [0x00, 0x02] @ credentials 0x01 [0x75] [0x70] @
      ([0x05, 0x01, 0x00, 0x03] @ field [0x68] @ put16 443 @ [0x99])"
    by (simp add: example_client_def)
  have v: "ta_validate (new_token_authenticator [''u'' \<mapsto> ''p'']) (str_of_bytes [0x75]) (str_of_bytes [0x70])"
    by code_simp
  have "fst (negotiate ta_validate example_server example_client) = None"
    by (subst negotiate_auth_ok[OF a i]) (use v in \<open>simp_all add: example_client_def\<close>)
  then have "h \<noteq> NegotiateError e" for e
    using h by (auto simp: handle_connection_def split: prod.splits sum.splits option.splits)
  from only_authenticated_requests [OF a h this] show ?thesis by blast
qed

text \<open>
  Token rotation takes effect at the next connection: after \<open>AddToken\<close> has replaced a
  peer's token, a client that presents the old one is refused, with the failure reply and
  one more \<open>AuthFailures\<close>; the new one is accepted; after \<open>RemoveToken\<close> neither is; other
  peers are not affected.
\<close>

theorem token_rotation:
  assumes i: "inp c = greeting methods @ credentials ver uname passwd @ rest"
    and "length methods < 256" "0x02 \<in> set methods" "length uname < 256" "length passwd < 256" "4 \<le> wcap c"
    and "auth (srv_cfg s) = Some (ta_add_token u new (ta_add_token u old a))"
    and "auth (srv_cfg s_removed) = Some (ta_remove_token u (ta_add_token u new a))"
  shows "(str_of_bytes uname = u \<longrightarrow>
      negotiate ta_validate s c =
        (if str_of_bytes passwd = new
         then (None, s, c\<lparr>inp := rest, outp := outp c @ [0x05, 0x02, 0x01, 0x00], wcap := wcap c - 4\<rparr>)
         else (Some AuthFailed, count_auth_failure s,
               c\<lparr>inp := rest, outp := outp c @ [0x05, 0x02, 0x01, 0x01], wcap := wcap c - 4\<rparr>)) \<and>
      fst (negotiate ta_validate s_removed c) = Some AuthFailed) \<and>
    (str_of_bytes uname \<noteq> u \<longrightarrow>
      (fst (negotiate ta_validate s c) = None \<longleftrightarrow> ta_validate a (str_of_bytes uname) (str_of_bytes passwd)))"
  using negotiate_auth_ok[OF assms(7) i assms(2-6), of ta_validate]
    negotiate_auth_ok[OF assms(8) i assms(2-6), of ta_validate]
  by (simp add: token_auth.rotation token_auth.removed token_auth.others_unaffected)

theorem token_rotation_witness:
  "fst (negotiate ta_validate (new_server (default_server_config\<lparr>auth := Some (ta_add_token ''u'' ''new''
       (ta_add_token ''u'' ''p'' (new_token_authenticator Map.empty)))\<rparr>)) example_client) = Some AuthFailed"
proof -
  let ?a = "new_token_authenticator Map.empty"
  let ?s = "new_server (default_server_config\<lparr>auth := Some (ta_add_token ''u'' ''new'' (ta_add_token ''u'' ''p'' ?a))\<rparr>)"
    and ?r = "new_server (default_server_config\<lparr>auth := Some (ta_remove_token ''u'' (ta_add_token ''u'' ''new'' ?a))\<rparr>)"
  have i: "inp example_client = greeting [0x00, 0x02] @ credentials 0x01 [0x75] [0x70] @
      ([0x05, 0x01, 0x00, 0x03] @ field [0x68] @ put16 443 @ [0x99])"
    by (simp add: example_client_def)
  have a: "auth (srv_cfg ?s) = Some (ta_add_token ''u'' ''new'' (ta_add_token ''u'' ''p'' ?a))"
      "auth (srv_cfg ?r) = Some (ta_remove_token ''u'' (ta_add_token ''u'' ''new'' ?a))"
    by (simp_all add: new_server_def default_server_config_def)
  have u: "str_of_bytes [0x75] = ''u''" "str_of_bytes [0x70] = ''p''"
    by code_simp+
  have l: "length [0x00, 0x02 :: byte] < 256" "(0x02 :: byte) \<in> set [0x00, 0x02]" "length [0x75 :: byte] < 256"
      "length [0x70 :: byte] < 256" "4 \<le> wcap example_client"
    by (simp_all add: example_client_def)
  from token_rotation [OF i l a] u show ?thesis
    by simp
qed

section \<open>Requests\<close>

definition connect_header :: "byte \<Rightarrow> byte \<Rightarrow> bytes" where
  "connect_header rsv atyp = [0x05, 0x01, rsv, atyp]"

lemma read_request_host:
  assumes "inp c = connect_header rsv atyp @ addr @ put16 port @ rest"
    and "\<And>d. inp d = addr @ put16 port @ rest \<Longrightarrow> read_host atyp d = (Inr host, d\<lparr>inp := put16 port @ rest\<rparr>)"
  shows "read_request parse_ip c = (Inr (sprintf_host_port host (unat port)), c\<lparr>inp := rest\<rparr>)"
proof -
  have 1: "read_full 4 c = (Inr (connect_header rsv atyp), c\<lparr>inp := addr @ put16 port @ rest\<rparr>)"
    by (rule read_full_ok) (simp_all add: assms(1) connect_header_def)
  have 2: "read_host atyp (c\<lparr>inp := addr @ put16 port @ rest\<rparr>) = (Inr host, c\<lparr>inp := put16 port @ rest\<rparr>)"
    by (subst assms(2)) simp_all
  have 3: "read_full 2 (c\<lparr>inp := put16 port @ rest\<rparr>) = (Inr (put16 port), c\<lparr>inp := rest\<rparr>)"
    by (subst read_full_ok[of "put16 port" _ _ rest]) simp_all
  have "be16 (put16 port ! 0) (put16 port ! 1) = port"
    by (simp add: put16_def put16_be16)
  with 1 2 3 show ?thesis
    by (simp add: read_request_def connect_header_def)
qed

lemma read_host_ip:
  "length a = 4 \<Longrightarrow> inp d = a @ tail \<Longrightarrow> read_host 0x01 d = (Inr (ip_string a), d\<lparr>inp := tail\<rparr>)"
  "length a = 16 \<Longrightarrow> inp d = a @ tail \<Longrightarrow> read_host 0x04 d = (Inr (ip_string a), d\<lparr>inp := tail\<rparr>)"
  by (simp_all add: read_host_def read_full_ok)

lemma read_host_domain:
  "length name < 256 \<Longrightarrow> inp d = field name @ tail \<Longrightarrow>
   read_host 0x03 d = (Inr (str_of_bytes name), d\<lparr>inp := tail\<rparr>)"
  by (simp add: read_host_def read_field_ok)

text \<open>
  The address handed to the dialer. An IPv4 or a domain request (whose name has no colon or
  bracket) yields a string that the dialer takes apart into exactly the host and the port
  of the request. An IPv6 request that is not an IPv4-mapped address yields a string the
  dialer rejects, because the address is not put in brackets: such a request never succeeds.
\<close>

theorem request_addresses:
  assumes "length a4 = 4" and "length name < 256" and "plain_host (str_of_bytes name)"
    and "length a6 = 16" and "ip_to4 a6 = None"
  shows "(inp c = connect_header rsv 0x01 @ a4 @ put16 port @ rest \<longrightarrow>
      (\<exists>s. read_request parse_ip c = (Inr s, c\<lparr>inp := rest\<rparr>) \<and>
         split_host_port s = Inr (ip4_string a4, dec_nat (unat port)))) \<and>
    (inp c = connect_header rsv 0x03 @ field name @ put16 port @ rest \<longrightarrow>
      (\<exists>s. read_request parse_ip c = (Inr s, c\<lparr>inp := rest\<rparr>) \<and>
         split_host_port s = Inr (str_of_bytes name, dec_nat (unat port)))) \<and>
    (inp c = connect_header rsv 0x04 @ a6 @ put16 port @ rest \<longrightarrow>
      (\<exists>s. read_request parse_ip c = (Inr s, c\<lparr>inp := rest\<rparr>) \<and> split_host_port s = Inl TooManyColons))"
proof (intro conjI impI)
  assume c: "inp c = connect_header rsv 0x01 @ a4 @ put16 port @ rest"
  show "\<exists>s. read_request parse_ip c = (Inr s, c\<lparr>inp := rest\<rparr>) \<and>
      split_host_port s = Inr (ip4_string a4, dec_nat (unat port))"
    using read_request_host[OF c read_host_ip(1)[OF assms(1)], of parse_ip]
    by (simp add: ip_string_v4[OF assms(1)] split_host_port_sprintf ip4_string_plain)
next
  assume c: "inp c = connect_header rsv 0x03 @ field name @ put16 port @ rest"
  show "\<exists>s. read_request parse_ip c = (Inr s, c\<lparr>inp := rest\<rparr>) \<and>
      split_host_port s = Inr (str_of_bytes name, dec_nat (unat port))"
    using read_request_host[OF c read_host_domain[OF assms(2)], of parse_ip]
    by (simp add: split_host_port_sprintf assms(3))
next
  assume c: "inp c = connect_header rsv 0x04 @ a6 @ put16 port @ rest"
  have "ip_string a6 = ip6_string a6"
    using assms(5) by (simp add: ip_string_def)
  then show "\<exists>s. read_request parse_ip c = (Inr s, c\<lparr>inp := rest\<rparr>) \<and> split_host_port s = Inl TooManyColons"
    using read_request_host[OF c read_host_ip(2)[OF assms(4)], of parse_ip]
      ip6_string_colon[OF assms(4)] ip6_string_hd[OF assms(4)]
    by (simp add: split_host_port_colons)
qed

theorem request_addresses_witness:
  "\<exists>s. read_request (\<lambda>_. None) \<lparr>inp = connect_header 0 0x04 @ replicate 15 0 @ [1] @ put16 80 @ [], outp = [], wcap = 0\<rparr>
     = (Inr s, \<lparr>inp = [], outp = [], wcap = 0\<rparr>) \<and> split_host_port s = Inl TooManyColons"
proof -
  let ?a6 = "replicate 15 0 @ [1] :: bytes"
  let ?c = "\<lparr>inp = connect_header 0 0x04 @ ?a6 @ put16 80 @ [], outp = [], wcap = 0\<rparr>"
  have h: "length [1, 2, 3, 4 :: byte] = 4" "length [0x68 :: byte] < 256" "length ?a6 = 16"
    by simp_all
  have p: "plain_host (str_of_bytes [0x68])"
    by code_simp
  have t: "ip_to4 ?a6 = None"
    by (simp add: ip_to4_def nth_append)
  from request_addresses [OF h(1,2) p h(3) t, of ?c 0 80 "[]" "\<lambda>_. None"] show ?thesis
    by auto
qed

lemma length_reply: "length (reply_bytes parse_ip status bind_ip bind_port) \<le> 22"
  by (auto simp: reply_bytes_def ip_to4_def ip_to16_def Let_def split: option.split)

lemma session_replies:
  assumes "auth (srv_cfg s) = Some a" and "ta_tokens a (str_of_bytes uname) = Some (str_of_bytes passwd)"
    and i: "inp c = greeting methods @ credentials ver uname passwd @
              (connect_header rsv 0x03 @ field name @ put16 port @ rest)"
    and l: "length methods < 256" "0x02 \<in> set methods" "length uname < 256" "length passwd < 256"
    and "length name < 256" and "26 \<le> wcap c"
    and d: "dial (doh_enabled (srv_cfg s)) (ttl_engine_on (srv_cfg s))
              (sprintf_host_port (str_of_bytes name) (unat port)) = Some (local_ip, local_port, target)"
  shows "\<exists>c'. handle_connection ta_validate parse_ip dial s c
      = (Relayed (sprintf_host_port (str_of_bytes name) (unat port)) target, s, c') \<and>
    inp c' = rest \<and>
    outp c' = outp c @ [0x05, 0x02, 0x01, 0x00] @ reply_bytes parse_ip 0x00 local_ip local_port"
proof -
  let ?i = "connect_header rsv 0x03 @ field name @ put16 port @ rest"
  let ?c1 = "c\<lparr>inp := ?i, outp := outp c @ [0x05, 0x02, 0x01, 0x00], wcap := wcap c - 4\<rparr>"
  let ?dest = "sprintf_host_port (str_of_bytes name) (unat port)"
  have n: "negotiate ta_validate s c = (None, s, ?c1)"
    using negotiate_auth_ok[OF assms(1) i l, of ta_validate] assms(2,9) by (simp add: ta_validate_def)
  have i1: "inp ?c1 = connect_header rsv 0x03 @ field name @ put16 port @ rest"
    by simp
  have r: "read_request parse_ip ?c1 = (Inr ?dest, ?c1\<lparr>inp := rest\<rparr>)"
    by (rule read_request_host[OF i1 read_host_domain[OF assms(8)]])
  have w: "length (reply_bytes parse_ip 0x00 local_ip local_port) \<le> wcap (?c1\<lparr>inp := rest\<rparr>)"
    using assms(9) length_reply[of parse_ip "0x00" local_ip local_port] by simp
  show ?thesis
    using n r d write_all_ok[OF w]
    by (simp add: handle_connection_def send_reply_def)
qed

text \<open>
  A whole exchange. A client that authenticates with a registered token and asks to
  connect to a domain, of which the dialer reaches the target, gets exactly the method
  choice, the success of the authentication and a success reply with the local address, and
  the relay starts with the client's bytes after the request, for the address asked for.
\<close>

theorem socks_session:
  assumes "auth (srv_cfg s) = Some a" and "ta_tokens a (str_of_bytes uname) = Some (str_of_bytes passwd)"
    and i: "inp c = greeting methods @ credentials ver uname passwd @
              (connect_header rsv 0x03 @ field name @ put16 port @ rest)"
    and l: "length methods < 256" "0x02 \<in> set methods" "length uname < 256" "length passwd < 256"
    and "length name < 256" and "26 \<le> wcap c"
    and d: "dial (doh_enabled (srv_cfg s)) (ttl_engine_on (srv_cfg s))
              (sprintf_host_port (str_of_bytes name) (unat port)) = Some (local_ip, local_port, target)"
    and p: "parse_ip local_ip = Some b" "ip_to4 b = Some b4" "length b4 = 4"
  shows "\<exists>c'. handle_connection ta_validate parse_ip dial s c
      = (Relayed (sprintf_host_port (str_of_bytes name) (unat port)) target, s, c') \<and>
    inp c' = rest \<and>
    outp c' = outp c @ [0x05, 0x02, 0x01, 0x00] @
      [0x05, 0x00, 0x00, 0x01] @ b4 @ [of_int (local_port div 256), of_int (local_port mod 256)]"
  using session_replies[where dial = dial and parse_ip = parse_ip, OF assms(1-10)] p
  by (simp add: reply_bytes_def)

theorem socks_session_witness:
  "\<exists>c'. handle_connection ta_validate example_parse_ip example_dial example_server example_client
      = (Relayed (sprintf_host_port (str_of_bytes [0x68]) (unat (443 :: 16 word))) example_target, example_server, c') \<and>
    inp c' = [0x99]"
proof -
  have a: "auth (srv_cfg example_server) = Some (new_token_authenticator [''u'' \<mapsto> ''p''])"
    by (simp add: example_server_def new_server_def default_server_config_def)
  have t: "ta_tokens (new_token_authenticator [''u'' \<mapsto> ''p'']) (str_of_bytes [0x75]) = Some (str_of_bytes [0x70])"
    by code_simp
  have i: "inp example_client = greeting [0x00, 0x02] @ credentials 0x01 [0x75] [0x70] @
      (connect_header 0x00 0x03 @ field [0x68] @ put16 443 @ [0x99])"
    by (simp add: example_client_def connect_header_def)
  have l: "length [0x00, 0x02 :: byte] < 256" "(0x02 :: byte) \<in> set [0x00, 0x02]" "length [0x75 :: byte] < 256"
      "length [0x70 :: byte] < 256" "length [0x68 :: byte] < 256" "26 \<le> wcap example_client"
    by (simp_all add: example_client_def)
  have d: "example_dial (doh_enabled (srv_cfg example_server)) (ttl_engine_on (srv_cfg example_server))
      (sprintf_host_port (str_of_bytes [0x68]) (unat (443 :: 16 word))) = Some (''10.0.0.1'', 5000, example_target)"
    by (simp add: example_dial_def)
  have p: "example_parse_ip ''10.0.0.1'' = Some (replicate 10 0 @ [0xff, 0xff, 10, 0, 0, 1])"
      "ip_to4 (replicate 10 0 @ [0xff, 0xff, 10, 0, 0, 1]) = Some [10, 0, 0, 1]"
      "length [10, 0, 0, 1 :: byte] = 4"
    by (simp_all add: example_parse_ip_def ip_to4_def nth_append)
  from socks_session [where dial = example_dial and parse_ip = example_parse_ip, OF a t i l d p] show ?thesis by blast
qed
end
