(* ===== verification/Session.thy ===== *)
theory Session
  imports Socks5 RelayPair
begin

text \<open>
  A client's connection from its greeting to its end: \<^verbatim>\<open>handleConnection\<close> of
  \<^verbatim>\<open>proxy/socks5.go\<close> with the relay it ends in, the protocol of theory Socks5 and the two
  goroutines, the watchdog and the deadlines of theory RelayPair put together.
\<close>

text \<open>
  What the relay of a connection gets from the server: the engines, the limiter and the clock
  (the buffer size is in the model of its configuration).
\<close>

record relay_setup =
  su_fragmenter :: "fragmenter option"
  su_harmonizer :: "ua_harmonizer option"
  su_limiter :: rate_limiter
  su_now :: int

text \<open>
  None if the connection is not relayed, otherwise the address, the size of the buffers and the state in
  which \<^verbatim>\<open>relay\<close> starts, which goes on with \<open>session_step\<close>. \<open>segments\<close> says in which pieces the bytes
  arrive that the client has sent after its request; what it sends later are steps of the session.
\<close>

definition serve_client ::
  "('a \<Rightarrow> string \<Rightarrow> string \<Rightarrow> bool) \<Rightarrow> (string \<Rightarrow> bytes option) \<Rightarrow>
   (bool \<Rightarrow> bool \<Rightarrow> string \<Rightarrow> (string \<times> int \<times> conn) option) \<Rightarrow> (bytes \<Rightarrow> bytes list) \<Rightarrow> relay_setup \<Rightarrow>
   'a socks_server \<Rightarrow> conn \<Rightarrow> (string \<times> nat \<times> relay_pair) option \<times> 'a socks_server \<times> conn" where
  "serve_client validate parse_ip dial segments su s c =
     (case handle_connection validate parse_ip dial s c of
        (Relayed dest target, s1, c1) \<Rightarrow>
          (Some (dest, nat (relay_buf_size (srv_cfg s1)),
                 relay_begin (su_harmonizer su) (su_fragmenter su, 0) (su_limiter su) (su_now su) (segments (inp c1))),
           s1, c1)
      | (r, s1, c1) \<Rightarrow> (None, s1, c1))"

text \<open>Bytes cut into pieces, none of them empty.\<close>

definition cuts :: "(bytes \<Rightarrow> bytes list) \<Rightarrow> bool" where
  "cuts segments \<longleftrightarrow> (\<forall>b. concat (segments b) = b \<and> [] \<notin> set (segments b))"

text \<open>What has arrived stays.\<close>

lemma pipe_step_came: "pipe_step env (p, h) (q, g) \<Longrightarrow> p_came q = p_came p"
  by (induction "(p, h)" "(q, g)" rule: pipe_step.induct) (auto simp: start_writes_def split: prod.splits)

lemma session_step_came: "session_step env s t \<Longrightarrow> \<exists>more. p_came (up t) = p_came (up s) @ more"
  by (induction rule: session_step.induct)
    (auto elim!: up_step.cases down_step.cases watchdog_step.cases peer_step.cases around_step.cases retune_step.cases
      simp: pipe_send_def pipe_eof_def dest: pipe_step_came)

lemma session_steps_came: "(session_step env)\<^sup>*\<^sup>* s t \<Longrightarrow> \<exists>more. p_came (up t) = p_came (up s) @ more"
proof (induction rule: rtranclp_induct)
  case (step t u)
  with session_step_came[OF step.hyps(2)] show ?case by auto
qed simp

text \<open>
  What the two peers of a session see at any moment of the relay. The stream of the client is what
  came with its request and what it sent later, its first segment harmonised.
\<close>

definition session_ok :: "harmonize_fun \<Rightarrow> ua_harmonizer option \<Rightarrow> bytes \<Rightarrow> relay_pair \<Rightarrow> bool" where
  "session_ok harm uah rest s \<longleftrightarrow>
     (\<exists>later. concat (p_came (up s)) = rest @ later) \<and>
     (\<exists>more. client_stream harm uah (p_came (up s)) = p_out (up s) @ more \<and>
        (ended (p_pc (up s)) \<and> \<not> expired (shared s) \<and> \<not> p_failed (up s) \<longrightarrow> p_eof (up s) \<and> more = [])) \<and>
     (\<exists>more. concat (p_came (down s)) = p_out (down s) @ more \<and>
        (ended (p_pc (down s)) \<and> \<not> expired (shared s) \<and> \<not> p_failed (down s) \<longrightarrow> p_eof (down s) \<and> more = []))"

lemma relayed_session_ok:
  assumes "0 < re_buf env" and "plain_frag fk" and "cuts segments"
    and "(session_step env)\<^sup>*\<^sup>* (relay_begin uah fk l t (segments rest)) s"
  shows "session_ok (re_harmonize env) uah rest s"
proof -
  let ?s0 = "relay_begin uah fk l t (segments rest)"
  have g: "[] \<notin> set (segments rest)" "concat (segments rest) = rest" using assms(3) by (simp_all add: cuts_def)
  then have st: "relay_start ?s0" unfolding relay_start_def by (cases fk) blast
  have u: "p_uah (up ?s0) = uah" "p_frag (up ?s0) = fk" "p_came (up ?s0) = segments rest"
    by (simp_all add: relay_begin_def new_pipe_def Let_def)
  note r = session_reports[OF st assms(1,4)]
  have "pipe_stream (re_harmonize env) (up s) = client_stream (re_harmonize env) uah (p_came (up s))"
    using session_steps_uah[OF assms(4)] u by (simp add: pipe_stream_def)
  with r assms(2) session_steps_came[OF assms(4)] u g(2) show ?thesis
    by (auto simp: session_ok_def pipe_report_def)
qed

text \<open>
  C2. A session as a whole. A client with a registered token that asks for a domain which the dialer
  reaches gets exactly the three replies of the protocol, and the server relays to the address asked for.
  Of this relay, at every moment and in every interleaving of both goroutines, the watchdog, the deadlines,
  both ends and the other users of the limiter, it holds (fragmenter off or of the fixed or random kind):
  the target has got a beginning of what the client sent after the request, its first segment
  harmonised, so nothing of greeting, credentials and request; the client has got, after the replies, a
  beginning of what the target sent; and where a loop has ended before any deadline was set and without a
  failed connection, the sender has closed and all it sent has been passed on.
\<close>

theorem session_delivers:
  assumes "auth (srv_cfg s) = Some a" and "ta_tokens a (str_of_bytes uname) = Some (str_of_bytes passwd)"
    and i: "inp c = greeting methods @ credentials ver uname passwd @
              (connect_header rsv 0x03 @ field name @ put16 port @ rest)"
    and l: "length methods < 256" "0x02 \<in> set methods" "length uname < 256" "length passwd < 256"
    and "length name < 256" and "26 \<le> wcap c"
    and d: "dial (doh_enabled (srv_cfg s)) (ttl_engine_on (srv_cfg s))
              (sprintf_host_port (str_of_bytes name) (unat port)) = Some (local_ip, local_port, target)"
    and su: "0 < relay_buf_size (srv_cfg s)" "plain_frag (su_fragmenter su, 0)" "cuts segments"
  shows "\<exists>n s0 c'.
    serve_client ta_validate parse_ip dial segments su s c =
      (Some (sprintf_host_port (str_of_bytes name) (unat port), n, s0), s, c') \<and>
    outp c' = outp c @ [0x05, 0x02, 0x01, 0x00] @ reply_bytes parse_ip 0x00 local_ip local_port \<and>
    (\<forall>env t. re_buf env = n \<longrightarrow> (session_step env)\<^sup>*\<^sup>* s0 t \<longrightarrow>
       session_ok (re_harmonize env) (su_harmonizer su) rest t)"
proof -
  obtain c' where h: "handle_connection ta_validate parse_ip dial s c
      = (Relayed (sprintf_host_port (str_of_bytes name) (unat port)) target, s, c')" "inp c' = rest"
    and o: "outp c' = outp c @ [0x05, 0x02, 0x01, 0x00] @ reply_bytes parse_ip 0x00 local_ip local_port"
    using session_replies[where methods = methods and uname = uname and passwd = passwd
        and name = name and port = port and rest = rest and c = c and s = s and dial = dial
        and parse_ip = parse_ip, OF assms(1-10)] by blast
  have n: "0 < nat (relay_buf_size (srv_cfg s))" using su(1) by simp
  with relayed_session_ok[OF _ su(2,3)] have
    "\<forall>env t. re_buf env = nat (relay_buf_size (srv_cfg s)) \<longrightarrow>
       (session_step env)\<^sup>*\<^sup>* (relay_begin (su_harmonizer su) (su_fragmenter su, 0) (su_limiter su) (su_now su) (segments rest)) t \<longrightarrow>
       session_ok (re_harmonize env) (su_harmonizer su) rest t"
    by simp
  with h o show ?thesis by (simp add: serve_client_def)
qed

definition example_setup :: relay_setup where
  "example_setup = \<lparr>su_fragmenter = None, su_harmonizer = None, su_limiter = new_rate_limiter 0 0 0, su_now = 0\<rparr>"

definition bytewise :: "bytes \<Rightarrow> bytes list" where
  "bytewise b = map (\<lambda>x. [x]) b"

lemma cuts_bytewise: "cuts bytewise"
  by (auto simp: cuts_def bytewise_def)

theorem session_delivers_witness:
  "\<exists>s0 c'.
    serve_client ta_validate example_parse_ip example_dial bytewise example_setup example_server example_client =
      (Some (sprintf_host_port (str_of_bytes [0x68]) (unat (443 :: 16 word)), 32768, s0), example_server, c') \<and>
    (\<forall>t. (session_step example_env)\<^sup>*\<^sup>* s0 t \<longrightarrow> session_ok (re_harmonize example_env) None [0x99] t)"
proof -
  have a: "auth (srv_cfg example_server) = Some (new_token_authenticator [''u'' \<mapsto> ''p''])"
    and z: "0 < relay_buf_size (srv_cfg example_server)" "relay_buf_size (srv_cfg example_server) = 32768"
    by (simp_all add: example_server_def new_server_def default_server_config_def)
  have t: "ta_tokens (new_token_authenticator [''u'' \<mapsto> ''p'']) (str_of_bytes [0x75]) = Some (str_of_bytes [0x70])"
    by code_simp
  have i: "inp example_client = greeting [0x00, 0x02] @ credentials 0x01 [0x75] [0x70] @
      (connect_header 0x00 0x03 @ field [0x68] @ put16 443 @ [0x99])"
    by (simp add: example_client_def connect_header_def)
  have l: "length [0x00, 0x02 :: byte] < 256" "(0x02 :: byte) \<in> set [0x00, 0x02]" "length [0x75 :: byte] < 256"
      "length [0x70 :: byte] < 256" "length [0x68 :: byte] < 256" "26 \<le> wcap example_client"
    by (simp_all add: example_client_def)
  have d: "example_dial (doh_enabled (srv_cfg example_server)) (ttl_engine_on (srv_cfg example_server))
      (sprintf_host_port (str_of_bytes [0x68]) (unat (443 :: 16 word))) = Some (''10.0.0.1'', 5000, example_target)"
    by (simp add: example_dial_def)
  have u: "plain_frag (su_fragmenter example_setup, 0)" "su_harmonizer example_setup = None"
    by (simp_all add: example_setup_def plain_frag_def)
  have e: "re_buf example_env = 32768" by (simp add: example_env_def)
  from session_delivers [where dial = example_dial and parse_ip = example_parse_ip and segments = bytewise
      and su = example_setup, OF a t i l d z(1) u(1) cuts_bytewise] obtain n s0 c' where
    r: "serve_client ta_validate example_parse_ip example_dial bytewise example_setup example_server example_client =
      (Some (sprintf_host_port (str_of_bytes [0x68]) (unat (443 :: 16 word)), n, s0), example_server, c')"
      "\<forall>env t. re_buf env = n \<longrightarrow> (session_step env)\<^sup>*\<^sup>* s0 t \<longrightarrow> session_ok (re_harmonize env) None [0x99] t"
    unfolding u(2) by blast
  have "n = 32768"
    using r(1) z(2) by (auto simp: serve_client_def split: prod.splits handled.splits)
  with r e show ?thesis by auto
qed

end
