(* ===== verification/ProxyServer.thy ===== *)
theory ProxyServer
  imports Socks5
begin

text \<open>
  \<^verbatim>\<open>ListenAndServe\<close> and \<^verbatim>\<open>Shutdown\<close> of \<^verbatim>\<open>proxy/socks5.go\<close> as a step relation: the accept
  loop is one goroutine, every admitted connection is handled by another, and they
  interleave. Handlers change the other metrics while they run. The counters are the 64-bit
  words of the code, and the limit is compared with the signed value.
\<close>

datatype loop_pc = LAccept | LCheck | LCount | LWait | LReturned

record 'a proxy =
  px_server :: "'a socks_server"
  px_running :: "nat set"
  px_next :: nat
  px_pc :: loop_pc
  px_cancelled :: bool

definition active_count :: "'a proxy \<Rightarrow> i64" where
  "active_count s = active_connections (srv_metrics (px_server s))"

definition limit :: "'a proxy \<Rightarrow> int" where
  "limit s = max_connections (srv_cfg (px_server s))"

definition map_metrics :: "(metrics \<Rightarrow> metrics) \<Rightarrow> 'a proxy \<Rightarrow> 'a proxy" where
  "map_metrics f s = s\<lparr>px_server := (px_server s)\<lparr>srv_metrics := f (srv_metrics (px_server s))\<rparr>\<rparr>"

definition count_error :: "metrics \<Rightarrow> metrics" where
  "count_error m = m\<lparr>connection_errors := connection_errors m + 1\<rparr>"

definition count_admitted :: "metrics \<Rightarrow> metrics" where
  "count_admitted m = m\<lparr>total_connections := total_connections m + 1,
     active_connections := active_connections m + 1\<rparr>"

definition count_done :: "metrics \<Rightarrow> metrics" where
  "count_done m = m\<lparr>active_connections := active_connections m - 1\<rparr>"

text \<open>What a handler adds to the metrics while it runs.\<close>

definition add_handled :: "i64 \<Rightarrow> i64 \<Rightarrow> i64 \<Rightarrow> i64 \<Rightarrow> metrics \<Rightarrow> metrics" where
  "add_handled i o' a e m = m\<lparr>bytes_in := bytes_in m + i, bytes_out := bytes_out m + o',
     auth_failures := auth_failures m + a, connection_errors := connection_errors m + e\<rparr>"

definition serve_start :: "'a server_config \<Rightarrow> 'a proxy" where
  "serve_start cfg = \<lparr>px_server = new_server cfg, px_running = {}, px_next = 0, px_pc = LAccept,
     px_cancelled = False\<rparr>"

inductive proxy_step :: "'a proxy \<Rightarrow> 'a proxy \<Rightarrow> bool" where
  accept: "px_pc s = LAccept \<Longrightarrow> proxy_step s (s\<lparr>px_pc := LCheck\<rparr>)"
| accept_error: "px_pc s = LAccept \<Longrightarrow> \<not> px_cancelled s \<Longrightarrow> proxy_step s (map_metrics count_error s)"
| accept_stop: "px_pc s = LAccept \<Longrightarrow> px_cancelled s \<Longrightarrow> proxy_step s (s\<lparr>px_pc := LWait\<rparr>)"
| reject: "px_pc s = LCheck \<Longrightarrow> limit s \<le> sint (active_count s) \<Longrightarrow>
    proxy_step s ((map_metrics count_error s)\<lparr>px_pc := LAccept\<rparr>)"
| pass: "px_pc s = LCheck \<Longrightarrow> sint (active_count s) < limit s \<Longrightarrow> proxy_step s (s\<lparr>px_pc := LCount\<rparr>)"
| admit: "px_pc s = LCount \<Longrightarrow>
    proxy_step s ((map_metrics count_admitted s)\<lparr>px_running := insert (px_next s) (px_running s),
      px_next := Suc (px_next s), px_pc := LAccept\<rparr>)"
| handling: "i \<in> px_running s \<Longrightarrow> proxy_step s (map_metrics (add_handled bi bo a e) s)"
| finished: "i \<in> px_running s \<Longrightarrow>
    proxy_step s ((map_metrics count_done s)\<lparr>px_running := px_running s - {i}\<rparr>)"
| waited: "px_pc s = LWait \<Longrightarrow> px_running s = {} \<Longrightarrow> proxy_step s (s\<lparr>px_pc := LReturned\<rparr>)"
| shutdown: "proxy_step s (s\<lparr>px_cancelled := True\<rparr>)"

text \<open>
  The books: the counter is the number of running handlers, there are at most
  \<^verbatim>\<open>MaxConnections\<close> of them, one less while one is admitted, and none after the return.
\<close>

definition proxy_inv :: "'a proxy \<Rightarrow> bool" where
  "proxy_inv s \<longleftrightarrow>
     finite (px_running s) \<and> (\<forall>i \<in> px_running s. i < px_next s) \<and>
     active_count s = of_nat (card (px_running s)) \<and>
     int (card (px_running s)) + (if px_pc s = LCount then 1 else 0) \<le> limit s \<and>
     limit s < 2 ^ 63 \<and> (px_pc s = LReturned \<longrightarrow> px_running s = {})"

lemma sint_of_nat_small: "n < 2 ^ 63 \<Longrightarrow> sint (of_nat n :: i64) = int n"
  by (simp add: signed_of_nat signed_take_bit_int_eq_self)

lemma proxy_inv_start:
  "max_connections cfg < 2 ^ 63 \<Longrightarrow> proxy_inv (serve_start cfg)"
  by (simp add: proxy_inv_def serve_start_def new_server_def active_count_def limit_def empty_metrics_def Let_def)

lemma map_metrics_fields [simp]:
  "px_running (map_metrics f s) = px_running s" "px_next (map_metrics f s) = px_next s"
  "px_pc (map_metrics f s) = px_pc s" "limit (map_metrics f s) = limit s"
  "active_count (map_metrics f s) = active_connections (f (srv_metrics (px_server s)))"
  by (simp_all add: map_metrics_def limit_def active_count_def)

lemma active_count_upd [simp]:
  "active_count (s\<lparr>px_pc := p\<rparr>) = active_count s" "limit (s\<lparr>px_pc := p\<rparr>) = limit s"
  "active_count (s\<lparr>px_running := r\<rparr>) = active_count s" "limit (s\<lparr>px_running := r\<rparr>) = limit s"
  "active_count (s\<lparr>px_next := n\<rparr>) = active_count s" "limit (s\<lparr>px_next := n\<rparr>) = limit s"
  "active_count (s\<lparr>px_cancelled := c\<rparr>) = active_count s" "limit (s\<lparr>px_cancelled := c\<rparr>) = limit s"
  by (simp_all add: active_count_def limit_def)

lemma proxy_inv_step:
  assumes i: "proxy_inv s" and s: "proxy_step s t"
  shows "proxy_inv t"
  using s
proof cases
  case pass
  have "int (card (px_running s)) < 2 ^ 63"
    using i by (simp add: proxy_inv_def split: if_splits)
  then have "sint (active_count s) = int (card (px_running s))"
    using i sint_of_nat_small[of "card (px_running s)"] by (simp add: proxy_inv_def)
  with i pass show ?thesis by (simp add: proxy_inv_def)
next
  case admit
  have "px_next s \<notin> px_running s" using i by (auto simp: proxy_inv_def)
  with i admit show ?thesis
    by (auto simp: proxy_inv_def active_count_def map_metrics_def count_admitted_def limit_def less_Suc_eq)
next
  case (handling j bi bo a e)
  with i show ?thesis
    by (simp add: proxy_inv_def active_count_def map_metrics_def limit_def add_handled_def)
next
  case (finished j)
  have c: "Suc (card (px_running s - {j})) = card (px_running s)"
    using i finished by (intro card_Suc_Diff1) (simp_all add: proxy_inv_def)
  then have "active_connections (srv_metrics (px_server s)) - 1 = of_nat (card (px_running s - {j}))"
    using i by (simp add: proxy_inv_def active_count_def c[symmetric])
  with i finished c show ?thesis
    by (auto simp: proxy_inv_def count_done_def simp del: card_Diff_insert)
qed (use i in \<open>auto simp: proxy_inv_def count_error_def active_count_def map_metrics_def limit_def\<close>)

interpretation proxy_ts: transition_system
  "\<lambda>s. \<exists>cfg. max_connections cfg < 2 ^ 63 \<and> s = serve_start cfg" proxy_step proxy_inv
  by unfold_locales (auto intro: proxy_inv_start proxy_inv_step)

text \<open>
  C13. The proxy keeps its limit and its count. In every state that \<open>ListenAndServe\<close> reaches,
  with any interleaving of handlers, \<open>ActiveConnections\<close> is the number of connections being
  handled and that is at most \<open>MaxConnections\<close> (256 when the configured value is not
  positive); and when it has returned after a shutdown no handler is running any more.
\<close>

theorem proxy_connections_bounded:
  assumes "max_connections cfg < 2 ^ 63" and "proxy_step\<^sup>*\<^sup>* (serve_start cfg) s"
  shows "sint (active_count s) = int (card (px_running s)) \<and>
    sint (active_count s) \<le> (if max_connections cfg \<le> 0 then 256 else max_connections cfg) \<and>
    (px_pc s = LReturned \<longrightarrow> px_running s = {})"
proof -
  have inv: "proxy_inv s"
    by (rule proxy_ts.inv_reachable[OF _ assms(2)]) (use assms(1) in blast)
  have "proxy_step\<^sup>*\<^sup>* u v \<Longrightarrow> limit v = limit u" for u v :: "'a proxy"
  proof (induction rule: rtranclp_induct)
    case (step y z)
    from step(2) have "limit z = limit y" by cases simp_all
    with step(3) show ?case by simp
  qed simp
  from this[OF assms(2)] have l: "limit s = (if max_connections cfg \<le> 0 then 256 else max_connections cfg)"
    by (simp add: serve_start_def limit_def new_server_def Let_def)
  have "int (card (px_running s)) < 2 ^ 63"
    using inv by (simp add: proxy_inv_def split: if_splits)
  then have "sint (active_count s) = int (card (px_running s))"
    using inv sint_of_nat_small[of "card (px_running s)"] by (simp add: proxy_inv_def)
  with inv l show ?thesis
    by (auto simp: proxy_inv_def split: if_splits)
qed

theorem proxy_connections_bounded_witness:
  "sint (active_count ((serve_start (default_server_config :: token_authenticator server_config))
     \<lparr>px_pc := LCheck\<rparr>)) \<le> 256"
proof -
  let ?cfg = "default_server_config :: token_authenticator server_config"
  have c: "max_connections ?cfg < 2 ^ 63" "max_connections ?cfg = 256"
    by (simp_all add: default_server_config_def)
  have "proxy_step\<^sup>*\<^sup>* (serve_start ?cfg) ((serve_start ?cfg)\<lparr>px_pc := LCheck\<rparr>)"
    by (rule r_into_rtranclp, rule proxy_step.accept) (simp add: serve_start_def)
  from proxy_connections_bounded [OF c(1) this] c(2) show ?thesis by simp
qed

end
