(* ===== verification/GoFloat.thy ===== *)
theory GoFloat
  imports "HOL-Library.Log_Nat" Prelude
begin

text \<open>
  The \<^verbatim>\<open>float64\<close> of Go, as far as the program computes with it: values as rational numbers, each
  operation followed by a rounding, and the conversion to \<^verbatim>\<open>int64\<close>. A result is rounded to a multiple of
  the spacing of the 53 bit numbers around it, halves to even; the spacing is at least that of the smallest
  numbers, \<open>1 / 2 ^ 1074\<close>. Infinities are left out: what the program computes stays far below them.
\<close>

section \<open>Rounding\<close>

definition round_even :: "rat \<Rightarrow> int" where
  "round_even x =
     (let f = \<lfloor>x\<rfloor>; d = x - of_int f
      in if d < 1 / 2 \<or> d = 1 / 2 \<and> even f then f else f + 1)"

text \<open>Rounding of a number counted in the smallest spacing.\<close>

definition round53 :: "rat \<Rightarrow> rat" where
  "round53 y = (let s = nat (bitlen \<lfloor>y\<rfloor> - 53) in of_int (round_even (y / 2 ^ s)) * 2 ^ s)"

definition float64_abs :: "rat \<Rightarrow> rat" where
  "float64_abs x = round53 (x * 2 ^ 1074) / 2 ^ 1074"

definition float64 :: "rat \<Rightarrow> rat" where
  "float64 x = (if x < 0 then - float64_abs (- x) else float64_abs x)"

text \<open>The conversion to \<^verbatim>\<open>int64\<close> gives an unspecified result \<open>ov\<close> outside its range.\<close>

definition to_int64 :: "(rat \<Rightarrow> 64 word) \<Rightarrow> rat \<Rightarrow> int" where
  "to_int64 ov x =
     (let n = (if x < 0 then - \<lfloor>- x\<rfloor> else \<lfloor>x\<rfloor>)
      in if - (2 ^ 63) \<le> n \<and> n < 2 ^ 63 then n else sint (ov x))"

section \<open>Bounds\<close>

lemma round_even_bounds: "of_int (round_even x) \<le> x + 1 / 2" "x - 1 / 2 \<le> of_int (round_even x)"
proof -
  have "of_int \<lfloor>x\<rfloor> \<le> x" "x < of_int \<lfloor>x\<rfloor> + 1" using floor_correct[of x] by simp_all
  then show "of_int (round_even x) \<le> x + 1 / 2" "x - 1 / 2 \<le> of_int (round_even x)"
    unfolding round_even_def Let_def by (simp_all split: if_splits) (linarith | auto)+
qed

lemma round53_bounds:
  assumes "2 ^ 52 \<le> y"
  shows "round53 y \<le> y + y / 2 ^ 53" and "y - y / 2 ^ 53 \<le> round53 y"
proof -
  define s where "s = nat (bitlen \<lfloor>y\<rfloor> - 53)"
  have n: "2 ^ 52 \<le> \<lfloor>y\<rfloor>" using assms by (simp add: le_floor_iff)
  then have b: "2 ^ nat (bitlen \<lfloor>y\<rfloor> - 1) \<le> \<lfloor>y\<rfloor>" "\<lfloor>y\<rfloor> < 2 ^ nat (bitlen \<lfloor>y\<rfloor>)"
    using bitlen_bounds[of "\<lfloor>y\<rfloor>"] by simp_all
  have "(2 :: int) ^ 52 < 2 ^ nat (bitlen \<lfloor>y\<rfloor>)" using n b(2) by linarith
  then have "52 < nat (bitlen \<lfloor>y\<rfloor>)" by (subst (asm) power_strict_increasing_iff) simp_all
  then have "nat (bitlen \<lfloor>y\<rfloor> - 1) = s + 52" by (simp add: s_def)
  with b(1) have "2 ^ (s + 52) \<le> \<lfloor>y\<rfloor>" by simp
  then have "of_int (2 ^ (s + 52)) \<le> y" by (simp only: le_floor_iff)
  then have u: "(2 :: rat) ^ s / 2 \<le> y / 2 ^ 53" by (simp add: power_add)
  have r: "round53 y = of_int (round_even (y / 2 ^ s)) * 2 ^ s" by (simp add: round53_def s_def Let_def)
  have "round53 y \<le> (y / 2 ^ s + 1 / 2) * 2 ^ s" "(y / 2 ^ s - 1 / 2) * 2 ^ s \<le> round53 y"
    using round_even_bounds[of "y / 2 ^ s"] unfolding r by (auto intro: mult_right_mono)
  then show "round53 y \<le> y + y / 2 ^ 53" "y - y / 2 ^ 53 \<le> round53 y"
    using u by (simp_all add: distrib_right left_diff_distrib)
qed

lemma float64_bounds:
  assumes "1 / 2 ^ 1022 \<le> x"
  shows "float64 x \<le> x * (1 + 1 / 2 ^ 53)" and "x / 2 \<le> float64 x"
proof -
  define K :: rat where "K = 2 ^ 1074"
  have K: "0 < K" "2 ^ 52 \<le> x * K"
  proof -
    have "(2 :: rat) ^ 52 = 1 / 2 ^ 1022 * K" by (simp add: K_def)
    also have "\<dots> \<le> x * K" using assms by (rule mult_right_mono) (simp add: K_def)
    finally show "2 ^ 52 \<le> x * K" .
  qed (simp add: K_def)
  have "0 < (1 :: rat) / 2 ^ 1022" by (rule divide_pos_pos) (rule zero_less_one, rule zero_less_power, simp)
  then have "\<not> x < 0" using assms by linarith
  then have f: "float64 x = round53 (x * K) / K" by (simp add: float64_def float64_abs_def K_def)
  have "round53 (x * K) \<le> x * (1 + 1 / 2 ^ 53) * K" "x / 2 * K \<le> round53 (x * K)"
    using round53_bounds[OF K(2)] K(2) by (simp_all add: algebra_simps)
  then show "float64 x \<le> x * (1 + 1 / 2 ^ 53)" and "x / 2 \<le> float64 x"
    unfolding f by (simp_all only: pos_divide_le_eq[OF K(1)] pos_le_divide_eq[OF K(1)])
qed


lemma float64_0 [simp]: "float64 0 = 0"
  by (simp add: float64_def float64_abs_def round53_def round_even_def)

text \<open>Numbers that are zero or not tiny stay so, and grow by at most the half of a unit.\<close>

definition grain :: "nat \<Rightarrow> rat \<Rightarrow> bool" where
  "grain k x \<longleftrightarrow> x = 0 \<or> 1 / 2 ^ k \<le> x"

lemma grain_nonneg: "grain k x \<Longrightarrow> 0 \<le> x"
  by (auto simp: grain_def intro: order_trans[rotated])

lemma float64_grain:
  assumes "grain k x" and "k \<le> 1022"
  shows "grain (Suc k) (float64 x)" and "float64 x \<le> x * (1 + 1 / 2 ^ 53)"
proof -
  have "grain (Suc k) (float64 x) \<and> float64 x \<le> x * (1 + 1 / 2 ^ 53)"
  proof (cases "x = 0")
    case False
    with assms(1) have k: "1 / 2 ^ k \<le> x" by (simp add: grain_def)
    have "(1 :: rat) / 2 ^ 1022 \<le> 1 / 2 ^ k"
      by (rule divide_left_mono[OF power_increasing[OF assms(2)]]) simp_all
    with k have t: "1 / 2 ^ 1022 \<le> x" by (rule order_trans[rotated])
    have "1 / 2 ^ Suc k \<le> x / 2" using k by simp
    then have "1 / 2 ^ Suc k \<le> float64 x" using float64_bounds(2)[OF t] by (rule order_trans)
    with float64_bounds(1)[OF t] show ?thesis by (simp add: grain_def)
  qed (simp add: grain_def)
  then show "grain (Suc k) (float64 x)" and "float64 x \<le> x * (1 + 1 / 2 ^ 53)" by blast+
qed

lemma grain_of_int: "0 \<le> n \<Longrightarrow> grain 0 (of_int n)"
  by (cases "n = 0") (auto simp: grain_def)

lemma grain_add: "grain k x \<Longrightarrow> grain k y \<Longrightarrow> grain k (x + y)"
  using grain_nonneg[of k x] grain_nonneg[of k y] by (auto simp: grain_def)

lemma grain_mult: "grain j x \<Longrightarrow> grain k y \<Longrightarrow> grain (j + k) (x * y)"
  using mult_mono[of "1 / 2 ^ j" x "1 / 2 ^ k" y] grain_nonneg[of j x] grain_nonneg[of k y]
  by (auto simp: grain_def power_add)

lemma grain_mono: "grain j x \<Longrightarrow> j \<le> k \<Longrightarrow> grain k x"
  using divide_left_mono[of "2 ^ j" "2 ^ k :: rat" 1] power_increasing[of j k "2 :: rat"]
  by (fastforce simp: grain_def)

lemma to_int64_le: "0 \<le> x \<Longrightarrow> of_int (to_int64 ov x) \<le> x"
proof -
  assume x: "0 \<le> x"
  have "sint (ov x) \<le> \<lfloor>x\<rfloor>" if "2 ^ 63 \<le> \<lfloor>x\<rfloor>"
  proof -
    have "sint (ov x) < 2 ^ 63" using sint_lt[of "ov x"] by simp
    with that show ?thesis by linarith
  qed
  with x show ?thesis
    by (auto simp: to_int64_def Let_def le_floor_iff[symmetric] not_less)
qed

section \<open>Evaluation\<close>

text \<open>The rounded value of a number, from the integer nearest to its 53 bits.\<close>

lemma bitlen_unique: "0 < k \<Longrightarrow> 2 ^ (k - 1) \<le> n \<Longrightarrow> n < 2 ^ k \<Longrightarrow> bitlen n = int k"
proof -
  assume k: "0 < k" "2 ^ (k - 1) \<le> n" "n < 2 ^ k"
  have "0 < (2 :: int) ^ (k - 1)" by simp
  with k(2) have n: "0 < n" by linarith
  note b = bitlen_bounds[OF n]
  have "(2 :: int) ^ (k - 1) < 2 ^ nat (bitlen n)" "(2 :: int) ^ nat (bitlen n - 1) < 2 ^ k"
    using b k by linarith+
  then have "k - 1 < nat (bitlen n)" "nat (bitlen n - 1) < k"
    by (simp_all only: power_strict_increasing_iff)
  then show ?thesis using k(1) by linarith
qed

lemma round_even_at: "\<bar>y - of_int m\<bar> < 1 / 2 \<Longrightarrow> round_even y = m"
proof -
  assume y: "\<bar>y - of_int m\<bar> < 1 / 2"
  have "(of_int (round_even y) :: rat) < of_int (m + 1)"
    using round_even_bounds(1)[of y] y unfolding abs_less_iff of_int_add of_int_1 by linarith
  moreover have "(of_int m :: rat) < of_int (round_even y + 1)"
    using round_even_bounds(2)[of y] y unfolding abs_less_iff of_int_add of_int_1 by linarith
  ultimately show ?thesis by (simp only: of_int_less_iff)
qed

lemma round53_at:
  assumes "2 ^ 52 \<le> y" and "y < 2 ^ 53"
  shows "round53 (y * 2 ^ t) = of_int (round_even y) * 2 ^ t"
proof -
  have "of_int (2 ^ (52 + t)) \<le> y * 2 ^ t" "y * 2 ^ t < of_int (2 ^ (53 + t))"
    using assms by (simp_all add: power_add)
  then have "2 ^ (52 + t) \<le> \<lfloor>y * 2 ^ t\<rfloor>" "\<lfloor>y * 2 ^ t\<rfloor> < 2 ^ (53 + t)"
    by (simp_all only: le_floor_iff floor_less_iff)
  then have "bitlen \<lfloor>y * 2 ^ t\<rfloor> = int (53 + t)" using bitlen_unique[of "53 + t"] by simp
  then show ?thesis by (simp add: round53_def Let_def)
qed

lemma float64_at:
  assumes "2 ^ 52 \<le> x * 2 ^ j" and "x * 2 ^ j < 2 ^ 53" and "\<bar>x * 2 ^ j - of_int m\<bar> < 1 / 2" and "j \<le> 1074"
  shows "float64 x = of_int m / 2 ^ j"
proof -
  define t where "t = 1074 - j"
  have e: "1074 = j + t" using assms(4) by (simp add: t_def)
  have "(0 :: rat) < 2 ^ 52" by simp
  then have "0 < x * 2 ^ j" using assms(1) by (rule less_le_trans)
  then have "\<not> x < 0" by (simp add: zero_less_mult_iff)
  moreover have "round53 (x * 2 ^ j * 2 ^ t) = of_int m * 2 ^ t"
    using round53_at[OF assms(1,2)] round_even_at[OF assms(3)] by simp
  ultimately show ?thesis
    unfolding float64_def float64_abs_def e power_add by (simp add: mult.assoc)
qed

end
