(* ===== verification/RateBound.thy ===== *)
theory RateBound
  imports RateLimiter GoFloat
begin

text \<open>
  The tokens that accrue, in \<^verbatim>\<open>float64\<close> as \<^verbatim>\<open>refill\<close> of \<^verbatim>\<open>proxy/rate_limiter.go\<close> computes them, and what the
  limiter grants with them.
\<close>

section \<open>The computation\<close>

text \<open>\<^verbatim>\<open>Duration.Seconds\<close>, and the tokens of a time and a rate as the code computes them.\<close>

definition go_seconds :: "int \<Rightarrow> rat" where
  "go_seconds e =
     (let sec = \<bar>e\<bar> div 1000000000; nsec = \<bar>e\<bar> mod 1000000000;
          s = float64 (float64 (of_int sec) + float64 (float64 (of_int nsec) / 1000000000))
      in if e < 0 then - s else s)"

definition go_toks :: "(rat \<Rightarrow> 64 word) \<Rightarrow> int \<Rightarrow> int \<Rightarrow> int" where
  "go_toks ov e r = to_int64 ov (float64 (go_seconds e * float64 (of_int r)))"

section \<open>What it costs\<close>

text \<open>The tokens of one time, with the error of its five roundings.\<close>

lemma go_seconds_bounds:
  assumes "0 \<le> e"
  shows "grain 40 (go_seconds e)" and "go_seconds e \<le> of_int e / 1000000000 * (1 + 1 / 2 ^ 53) ^ 3"
proof -
  let ?u = "1 + 1 / 2 ^ 53 :: rat"
  let ?s = "of_int (e div 1000000000) :: rat" and ?n = "of_int (e mod 1000000000) :: rat"
  let ?a = "float64 ?s" and ?b = "float64 ?n / 1000000000"
  have gs: "grain 0 ?s" and gn: "grain 0 ?n" using assms by (simp_all add: grain_of_int pos_imp_zdiv_nonneg_iff)
  note a = float64_grain[OF gs] and b = float64_grain[OF gn]
  have "grain 30 (1 / 1000000000)" by (simp add: grain_def)
  from grain_mult[OF b(1) this] have gb: "grain 31 ?b" by simp
  note c = float64_grain[OF gb]
  have gac: "grain 32 (?a + float64 ?b)"
    using grain_add[OF grain_mono[OF a(1)] c(1)] by simp
  note d = float64_grain[OF gac]
  have g: "go_seconds e = float64 (?a + float64 ?b)"
    using assms by (simp add: go_seconds_def)
  show "grain 40 (go_seconds e)" unfolding g using d(1) by (simp add: grain_mono)
  have "?a \<le> ?s * ?u" "?b \<le> ?n / 1000000000 * ?u" "float64 ?b \<le> ?b * ?u" "go_seconds e \<le> (?a + float64 ?b) * ?u"
    using a(2) b(2) c(2) d(2) by (simp_all add: g)
  moreover have "?s * ?u \<le> ?s * ?u * ?u" using grain_nonneg[OF gs] by simp
  moreover have "?b * ?u \<le> ?n / 1000000000 * ?u * ?u" using calculation(2) by (rule mult_right_mono) simp
  ultimately have "?a + float64 ?b \<le> (?s + ?n / 1000000000) * ?u * ?u"
    by (simp only: distrib_right)
  then have "(?a + float64 ?b) * ?u \<le> (?s + ?n / 1000000000) * ?u * ?u * ?u" by (rule mult_right_mono) simp
  moreover have "?s + ?n / 1000000000 = of_int e / 1000000000"
  proof -
    have "(of_int e :: rat) = of_int (1000000000 * (e div 1000000000) + e mod 1000000000)" by simp
    then show ?thesis by (simp only: of_int_add of_int_mult) simp
  qed
  ultimately show "go_seconds e \<le> of_int e / 1000000000 * ?u ^ 3"
    using \<open>go_seconds e \<le> (?a + float64 ?b) * ?u\<close> by (simp add: power3_eq_cube mult.assoc)
qed

lemma go_toks_le:
  assumes "0 \<le> e" and "0 \<le> r"
  shows "2 ^ 50 * 1000000000 * go_toks ov e r \<le> (2 ^ 50 + 1) * (e * r)"
proof -
  let ?u = "1 + 1 / 2 ^ 53 :: rat"
  let ?p = "go_seconds e * float64 (of_int r)"
  let ?q = "of_int e / 1000000000 * of_int r :: rat"
  note s = go_seconds_bounds[OF assms(1)] and f = float64_grain[OF grain_of_int[OF assms(2)]]
  have gp: "grain 41 ?p" using grain_mult[OF s(1) f(1)] by simp
  have "?p \<le> of_int e / 1000000000 * ?u ^ 3 * (of_int r * ?u)"
    using s f assms by (intro mult_mono) (auto dest: grain_nonneg)
  then have "?p * ?u \<le> ?q * ?u ^ 5" by (simp add: eval_nat_numeral algebra_simps)
  moreover have "of_int (go_toks ov e r) \<le> ?p * ?u"
    unfolding go_toks_def using to_int64_le[OF grain_nonneg[OF float64_grain(1)[OF gp]], of ov] float64_grain(2)[OF gp]
    by simp
  moreover have "?q * ?u ^ 5 \<le> ?q * (1 + 1 / 2 ^ 50)"
    using assms by (intro mult_left_mono) (simp_all add: eval_nat_numeral)
  ultimately have "(of_int (go_toks ov e r) :: rat) \<le> ?q * (1 + 1 / 2 ^ 50)" by linarith
  then have "(of_int (2 ^ 50 * 1000000000 * go_toks ov e r) :: rat) \<le> of_int ((2 ^ 50 + 1) * (e * r))"
    by (simp add: field_simps)
  then show ?thesis by (simp only: of_int_le_iff)
qed


text \<open>
  What a turn grants is paid from the bucket and from the time since the last refill. Money is counted
  in units of \<open>1 / (2 ^ 50 * 10 ^ 9)\<close> bytes.
\<close>

definition byte_price :: int where
  "byte_price = 2 ^ 50 * 1000000000"

definition time_worth :: "int \<Rightarrow> int \<Rightarrow> int" where
  "time_worth e r = (2 ^ 50 + 1) * (e * r)"

lemma time_worth_add: "time_worth (a + b) r = time_worth a r + time_worth b r"
  by (simp add: time_worth_def algebra_simps)

lemma go_toks_worth: "0 \<le> e \<Longrightarrow> 0 \<le> r \<Longrightarrow> byte_price * go_toks ov e r \<le> time_worth e r"
  using go_toks_le by (simp add: byte_price_def time_worth_def)

lemma refill_account:
  assumes "0 \<le> bytes_per_sec rl" and "last_refill rl \<le> now"
  shows "byte_price * tokens (refill (go_toks ov) now rl) + time_worth (fin - last_refill (refill (go_toks ov) now rl)) (bytes_per_sec rl)
      \<le> byte_price * tokens rl + time_worth (fin - last_refill rl) (bytes_per_sec rl)"
    and "last_refill (refill (go_toks ov) now rl) \<le> now"
proof -
  let ?n = "go_toks ov (now - last_refill rl) (bytes_per_sec rl)"
  have w: "byte_price * ?n \<le> time_worth (now - last_refill rl) (bytes_per_sec rl)"
    using assms by (simp add: go_toks_worth)
  have t: "time_worth (fin - last_refill rl) (bytes_per_sec rl)
      = time_worth (now - last_refill rl) (bytes_per_sec rl) + time_worth (fin - now) (bytes_per_sec rl)"
    using time_worth_add[of "now - last_refill rl" "fin - now"] by simp
  have m: "byte_price * min (max_burst rl) (tokens rl + ?n) \<le> byte_price * tokens rl + byte_price * ?n"
    unfolding distrib_left[symmetric] by (rule mult_left_mono) (simp_all add: byte_price_def)
  show "byte_price * tokens (refill (go_toks ov) now rl) + time_worth (fin - last_refill (refill (go_toks ov) now rl)) (bytes_per_sec rl)
      \<le> byte_price * tokens rl + time_worth (fin - last_refill rl) (bytes_per_sec rl)"
    using w t m by (auto simp: refill_def Let_def min_def split: if_splits)
  show "last_refill (refill (go_toks ov) now rl) \<le> now"
    using assms(2) by (simp add: refill_def Let_def)
qed

lemma turn_account:
  assumes "0 \<le> bytes_per_sec rl" and "last_refill rl \<le> now" and "wait_turn (go_toks ov) now n rl = (ok, rl')"
  shows "byte_price * ((if ok then n else 0) + tokens rl') + time_worth (fin - last_refill rl') (bytes_per_sec rl)
      \<le> byte_price * tokens rl + time_worth (fin - last_refill rl) (bytes_per_sec rl)" and "last_refill rl' \<le> now"
  using refill_account(1)[OF assms(1,2), where ov = ov and fin = fin] refill_account(2)[OF assms(1,2), where ov = ov] assms(3)
  by (auto simp: wait_turn_def Let_def algebra_simps split: if_splits)

lemma turns_account:
  "bucket_ok rl \<Longrightarrow> 0 \<le> bytes_per_sec rl \<Longrightarrow> last_refill rl \<le> now0 \<Longrightarrow> sorted (now0 # map fst ts @ [fin]) \<Longrightarrow>
    \<forall>n \<in> snd ` set ts. 0 \<le> n \<Longrightarrow> turns (go_toks ov) ts rl = (g, rl') \<Longrightarrow>
    byte_price * (g + tokens rl') \<le> byte_price * tokens rl + time_worth (fin - last_refill rl) (bytes_per_sec rl) \<and>
    bucket_ok rl'"
proof (induction ts arbitrary: rl now0 g)
  case Nil
  then have "0 \<le> time_worth (fin - last_refill rl) (bytes_per_sec rl)" by (simp add: time_worth_def)
  with Nil show ?case by simp
next
  case (Cons t ts)
  obtain now n where t: "t = (now, n)" by fastforce
  obtain ok rl1 where 1: "wait_turn (go_toks ov) now n rl = (ok, rl1)" by fastforce
  obtain g2 where 2: "turns (go_toks ov) ts rl1 = (g2, rl')" and g: "g = (if ok then n else 0) + g2"
    using Cons.prems(6) by (auto simp: t 1 split: prod.splits)
  have n: "0 \<le> n" using Cons.prems(5) t by simp
  have le: "last_refill rl \<le> now" "sorted (now # map fst ts @ [fin])"
    using Cons.prems(3,4) t by (auto simp: sorted_append)
  note a = turn_account(1)[OF Cons.prems(2) le(1) 1, where fin = fin] turn_account(2)[OF Cons.prems(2) le(1) 1]
  have r: "bytes_per_sec rl1 = bytes_per_sec rl" using wait_turn_fields[OF 1] by simp
  have "byte_price * (g2 + tokens rl') \<le> byte_price * tokens rl1 + time_worth (fin - last_refill rl1) (bytes_per_sec rl1) \<and>
      bucket_ok rl'"
    using Cons.IH[OF wait_turn_bucket[OF Cons.prems(1) 1 n] _ a(2) le(2) _ 2] Cons.prems(2,5) r by simp
  with a(1) g r show ?case by (simp add: algebra_simps)
qed

section \<open>Properties\<close>

text \<open>
  C12. The limit holds, up to rounding. Between two moments, however many goroutines ask in whatever
  order, the bytes granted are at most what the bucket held plus \<open>1 + 2 ^ -50\<close> times what
  the rate gives in that time (the excess comes from the roundings of \<^verbatim>\<open>float64\<close>: tokens of parts of
  a second can add up to more than those of the whole), and the bucket never holds less than nothing or
  more than one burst.
\<close>

theorem rate_limit_bound:
  assumes "bucket_ok rl" and "0 \<le> bytes_per_sec rl" and "last_refill rl \<le> start"
    and "sorted (start # map fst ts @ [end])" and "\<forall>n \<in> snd ` set ts. 0 \<le> n"
    and "turns (go_toks ov) ts rl = (granted, rl')"
  shows "2 ^ 50 * 1000000000 * (granted - tokens rl) \<le> (2 ^ 50 + 1) * ((end - last_refill rl) * bytes_per_sec rl) \<and>
    bucket_ok rl'"
proof -
  have "byte_price * (granted + tokens rl') \<le> byte_price * tokens rl + time_worth (end - last_refill rl) (bytes_per_sec rl)"
    and ok: "bucket_ok rl'"
    using turns_account[OF assms] by auto
  moreover have "byte_price * granted \<le> byte_price * (granted + tokens rl')"
    using ok by (simp add: byte_price_def bucket_ok_def)
  ultimately show ?thesis by (simp add: byte_price_def time_worth_def algebra_simps)
qed

lemma go_seconds_small:
  "0 \<le> n \<Longrightarrow> n < 1000000000 \<Longrightarrow> go_seconds n = float64 (float64 (float64 (of_int n) / 1000000000))"
  by (simp add: go_seconds_def Let_def)

lemma go_toks_28: "go_toks ov 280000000 100 = 28"
proof -
  have r: "float64 100 = 100" by (subst float64_at[where j = 46 and m = "100 * 2 ^ 46"]) simp_all
  have n: "float64 280000000 = 280000000"
    by (subst float64_at[where j = 24 and m = "280000000 * 2 ^ 24"]) simp_all
  have c: "float64 (280000000 / 1000000000) = 5044031582654956 / 2 ^ 54"
    by (subst float64_at[where j = 54 and m = 5044031582654956]) (simp_all add: abs_less_iff)
  have d: "float64 (5044031582654956 / 2 ^ 54) = 5044031582654956 / 2 ^ 54"
    by (subst float64_at[where j = 54 and m = 5044031582654956]) simp_all
  have p: "float64 (5044031582654956 / 2 ^ 54 * 100) = 7881299347898369 / 2 ^ 48"
    by (subst float64_at[where j = 48 and m = 7881299347898369]) (simp_all add: abs_less_iff)
  have "go_seconds 280000000 = float64 (float64 (float64 280000000 / 1000000000))"
    using go_seconds_small[of 280000000] by simp
  then have g: "go_seconds 280000000 = 5044031582654956 / 2 ^ 54"
    unfolding n c d .
  show ?thesis
    unfolding go_toks_def g of_int_numeral r p by (simp add: to_int64_def floor_eq_iff)
qed

lemma go_toks_1: "go_toks ov 10000000 100 = 1"
proof -
  have r: "float64 100 = 100" by (subst float64_at[where j = 46 and m = "100 * 2 ^ 46"]) simp_all
  have n: "float64 10000000 = 10000000"
    by (subst float64_at[where j = 29 and m = "10000000 * 2 ^ 29"]) simp_all
  have c: "float64 (10000000 / 1000000000) = 5764607523034235 / 2 ^ 59"
    by (subst float64_at[where j = 59 and m = 5764607523034235]) (simp_all add: abs_less_iff)
  have d: "float64 (5764607523034235 / 2 ^ 59) = 5764607523034235 / 2 ^ 59"
    by (subst float64_at[where j = 59 and m = 5764607523034235]) simp_all
  have p: "float64 (5764607523034235 / 2 ^ 59 * 100) = 1"
    by (subst float64_at[where j = 52 and m = "2 ^ 52"]) (simp_all add: abs_less_iff)
  have "go_seconds 10000000 = float64 (float64 (float64 10000000 / 1000000000))"
    using go_seconds_small[of 10000000] by simp
  then have g: "go_seconds 10000000 = 5764607523034235 / 2 ^ 59"
    unfolding n c d .
  show ?thesis
    unfolding go_toks_def g of_int_numeral r p by (simp add: to_int64_def floor_eq_iff)
qed

text \<open>What an amd64 processor gives for a number out of range.\<close>

definition amd64_ov :: "rat \<Rightarrow> 64 word" where
  "amd64_ov x = 2 ^ 63"

theorem rate_limit_bound_witness:
  "turns (go_toks amd64_ov) [(0, 100), (280000000, 28), (290000000, 1)] (new_rate_limiter 0 0 100)
     = (129, \<lparr>bytes_per_sec = 100, tokens = 0, max_burst = 100, last_refill = 290000000, rl_enabled = True\<rparr>) \<and>
   2 ^ 50 * 1000000000 * (129 - 100) \<le> (2 ^ 50 + 1) * (290000000 * 100 :: int)"
proof -
  let ?rl = "new_rate_limiter 0 0 100"
  let ?ts = "[(0, 100), (280000000, 28), (290000000, 1)] :: (int \<times> int) list"
  have z: "go_toks amd64_ov 0 100 = 0"
    by (simp add: go_toks_def go_seconds_def to_int64_def)
  have t: "turns (go_toks amd64_ov) ?ts ?rl
      = (129, \<lparr>bytes_per_sec = 100, tokens = 0, max_burst = 100, last_refill = 290000000, rl_enabled = True\<rparr>)"
    by (simp add: wait_turn_def refill_def new_rate_limiter_def z go_toks_28 go_toks_1)
  have "bucket_ok ?rl" "0 \<le> bytes_per_sec ?rl" "last_refill ?rl \<le> 0" "tokens ?rl = 100" "bytes_per_sec ?rl = 100"
      "last_refill ?rl = 0"
    by (simp_all add: bucket_ok_def new_rate_limiter_def)
  with rate_limit_bound [of ?rl 0 ?ts 290000000 amd64_ov, OF _ _ _ _ _ t] t show ?thesis by simp
qed

end
