(* ===== verification/Storage.thy ===== *)
theory Storage
  imports GoStd Negotiation "HOL-Library.List_Lexorder" "HOL-Library.Char_ord"
begin

text \<open>
  The state store, \<^verbatim>\<open>storage/store.go\<close> and \<^verbatim>\<open>storage/sqlite.go\<close>: the table of peers and the
  operations on it, with their SQL statements as operations on a keyed table. The text of a
  time and the JSON of the metadata come from the standard library and are parameters, as
  are the failures of the database.
\<close>

section \<open>The table\<close>

record peer_row =
  row_public_key :: bytes
  row_endpoint :: string
  row_last_seen :: string
  row_metadata :: string

type_synonym peers_table = "(string \<times> peer_row) list"

text \<open>
  The contract of a keyed table with an ordered scan: what an upsert makes a lookup return,
  and that a scan lists every row once, in the order of the keys.
\<close>

locale keyed_table =
  fixes upsert :: "string \<Rightarrow> 'row \<Rightarrow> 'db \<Rightarrow> 'db"
    and lookup :: "string \<Rightarrow> 'db \<Rightarrow> 'row option"
    and scan :: "'db \<Rightarrow> (string \<times> 'row) list"
    and table_ok :: "'db \<Rightarrow> bool"
  assumes lookup_upsert:
      "table_ok db \<Longrightarrow> lookup k (upsert j r db) = (if k = j then Some r else lookup k db)"
    and upsert_ok: "table_ok db \<Longrightarrow> table_ok (upsert j r db)"
    and scan_lookup: "table_ok db \<Longrightarrow> (k, r) \<in> set (scan db) \<longleftrightarrow> lookup k db = Some r"
    and scan_sorted: "table_ok db \<Longrightarrow> sorted (map fst (scan db)) \<and> distinct (map fst (scan db))"
begin

text \<open>The last of a list of upserts wins.\<close>

definition upserts :: "(string \<times> 'row) list \<Rightarrow> 'db \<Rightarrow> 'db" where
  "upserts rs db = foldl (\<lambda>d (k, r). upsert k r d) db rs"

lemma upserts_spec:
  "table_ok db \<Longrightarrow> table_ok (upserts rs db) \<and>
   lookup k (upserts rs db) = (case map_of (rev rs) k of Some r \<Rightarrow> Some r | None \<Rightarrow> lookup k db)"
proof (induction rs rule: rev_induct)
  case (snoc x rs)
  obtain j r where x: "x = (j, r)" by fastforce
  show ?case
    using snoc.IH[OF snoc.prems] by (simp add: upserts_def x lookup_upsert upsert_ok)
qed (simp add: upserts_def)

end

text \<open>
  \<^verbatim>\<open>INSERT ... ON CONFLICT(id) DO UPDATE\<close>, \<^verbatim>\<open>SELECT ... WHERE id = ?\<close> and
  \<^verbatim>\<open>SELECT ... ORDER BY id\<close> on rows kept in the order of insertion.
\<close>

fun sql_upsert :: "string \<Rightarrow> peer_row \<Rightarrow> peers_table \<Rightarrow> peers_table" where
  "sql_upsert k r [] = [(k, r)]"
| "sql_upsert k r ((j, s) # rows) = (if j = k then (k, r) # rows else (j, s) # sql_upsert k r rows)"

fun sql_select :: "string \<Rightarrow> peers_table \<Rightarrow> peer_row option" where
  "sql_select k [] = None"
| "sql_select k ((j, s) # rows) = (if j = k then Some s else sql_select k rows)"

definition sql_select_all :: "peers_table \<Rightarrow> peers_table" where
  "sql_select_all rows = sort_key fst rows"

lemma sql_select_map_of: "sql_select k rows = map_of rows k"
  by (induction k rows rule: sql_select.induct) auto

lemma sql_upsert_keys: "fst ` set (sql_upsert k r rows) = insert k (fst ` set rows)"
  by (induction k r rows rule: sql_upsert.induct) auto

lemma sql_upsert_distinct: "distinct (map fst rows) \<Longrightarrow> distinct (map fst (sql_upsert k r rows))"
  by (induction k r rows rule: sql_upsert.induct) (auto simp: sql_upsert_keys image_iff)

interpretation peers_sql: keyed_table sql_upsert sql_select sql_select_all "\<lambda>rows. distinct (map fst rows)"
proof
  fix db :: peers_table and k j and r :: peer_row
  assume d: "distinct (map fst db)"
  show "sql_select k (sql_upsert j r db) = (if k = j then Some r else sql_select k db)"
    by (induction j r db rule: sql_upsert.induct) auto
  show "distinct (map fst (sql_upsert j r db))"
    by (rule sql_upsert_distinct[OF d])
  show "(k, r) \<in> set (sql_select_all db) \<longleftrightarrow> sql_select k db = Some r"
    using d by (simp add: sql_select_all_def sql_select_map_of)
  show "sorted (map fst (sql_select_all db)) \<and> distinct (map fst (sql_select_all db))"
    using d by (simp add: sql_select_all_def distinct_map)
qed

section \<open>Peers\<close>

text \<open>A nil map is \<open>None\<close>.\<close>

record 't peer =
  peer_id :: string
  peer_public_key :: bytes
  peer_endpoint :: string
  peer_last_seen :: 't
  peer_metadata :: "(string \<rightharpoonup> string) option"

record 't codecs =
  format_time :: "'t \<Rightarrow> string"
  parse_time :: "string \<Rightarrow> 't option"
  json_marshal :: "(string \<rightharpoonup> string) option \<Rightarrow> string option"
  json_unmarshal :: "string \<Rightarrow> (string \<rightharpoonup> string) option option"

datatype store_err =
  ErrNotFound | MarshalError | ExecError | TimeError | UnmarshalError | ReservedDriver string
| UnsupportedDriver string | OpenError

definition scan_peer :: "'t codecs \<Rightarrow> string \<times> peer_row \<Rightarrow> store_err + 't peer" where
  "scan_peer cd kr =
     (case parse_time cd (row_last_seen (snd kr)) of
        None \<Rightarrow> Inl TimeError
      | Some t \<Rightarrow>
          (let raw = (if row_metadata (snd kr) = [] then ''{}'' else row_metadata (snd kr))
           in case json_unmarshal cd raw of
                None \<Rightarrow> Inl UnmarshalError
              | Some m \<Rightarrow>
                  Inr \<lparr>peer_id = fst kr, peer_public_key = row_public_key (snd kr),
                       peer_endpoint = row_endpoint (snd kr), peer_last_seen = t,
                       peer_metadata = (case m of None \<Rightarrow> Some Map.empty | Some _ \<Rightarrow> m)\<rparr>))"

definition put_peer :: "'t codecs \<Rightarrow> bool \<Rightarrow> 't peer \<Rightarrow> peers_table \<Rightarrow> store_err option \<times> peers_table" where
  "put_peer cd exec_ok p db =
     (case json_marshal cd (peer_metadata p) of
        None \<Rightarrow> (Some MarshalError, db)
      | Some md \<Rightarrow>
          if exec_ok
          then (None, sql_upsert (peer_id p)
                 \<lparr>row_public_key = peer_public_key p, row_endpoint = peer_endpoint p,
                  row_last_seen = format_time cd (peer_last_seen p), row_metadata = md\<rparr> db)
          else (Some ExecError, db))"

definition get_peer :: "'t codecs \<Rightarrow> string \<Rightarrow> peers_table \<Rightarrow> store_err + 't peer" where
  "get_peer cd k db =
     (case sql_select k db of
        None \<Rightarrow> Inl ErrNotFound
      | Some r \<Rightarrow> scan_peer cd (k, r))"

fun scan_rows :: "'t codecs \<Rightarrow> (string \<times> peer_row) list \<Rightarrow> store_err + 't peer list" where
  "scan_rows cd [] = Inr []"
| "scan_rows cd (r # rs) =
     (case scan_peer cd r of
        Inl e \<Rightarrow> Inl e
      | Inr p \<Rightarrow> (case scan_rows cd rs of Inl e \<Rightarrow> Inl e | Inr ps \<Rightarrow> Inr (p # ps)))"

definition list_peers :: "'t codecs \<Rightarrow> peers_table \<Rightarrow> store_err + 't peer list" where
  "list_peers cd db = scan_rows cd (sql_select_all db)"

text \<open>
  \<^verbatim>\<open>Open\<close> and \<^verbatim>\<open>OpenSQLite\<close>: the driver is chosen by name; opening the file and creating
  the table if it is not there (\<^verbatim>\<open>migrate\<close>) may fail. The disk maps paths to tables.
\<close>

definition open_sqlite ::
  "bool \<Rightarrow> bool \<Rightarrow> (string \<Rightarrow> peers_table) \<Rightarrow> string \<Rightarrow> store_err + string \<times> peers_table" where
  "open_sqlite open_ok migrate_ok disk p =
     (let f = (if p = [] then ''securemesh.db'' else p)
      in if \<not> open_ok then Inl OpenError
         else if \<not> migrate_ok then Inl ExecError
         else Inr (f, disk f))"

definition open_store ::
  "bool \<Rightarrow> bool \<Rightarrow> (string \<Rightarrow> peers_table) \<Rightarrow> storage_config \<Rightarrow> store_err + string \<times> peers_table" where
  "open_store open_ok migrate_ok disk cfg =
     (let d = str_lower (trim_space (driver cfg))
      in if d \<in> {[], ''sqlite''} then open_sqlite open_ok migrate_ok disk (path cfg)
         else if d \<in> {''badger'', ''badgerdb'', ''pebble'', ''pebbledb''} then Inl (ReservedDriver (driver cfg))
         else Inl (UnsupportedDriver (driver cfg)))"

section \<open>Properties\<close>

text \<open>How a stored peer reads: a nil metadata map has become an empty one.\<close>

definition stored :: "'t peer \<Rightarrow> 't peer" where
  "stored p = p\<lparr>peer_metadata := (case peer_metadata p of None \<Rightarrow> Some Map.empty | m \<Rightarrow> m)\<rparr>"

text \<open>
  Calls of \<open>PutPeer\<close>, each with the outcome of its statement; the list has what they return. The
  ones that succeed are those whose metadata has a JSON text and whose statement goes through.
\<close>

fun put_all :: "'t codecs \<Rightarrow> ('t peer \<times> bool) list \<Rightarrow> peers_table \<Rightarrow> store_err option list \<times> peers_table" where
  "put_all cd [] db = ([], db)"
| "put_all cd ((p, exec_ok) # calls) db =
     (let (r, db1) = put_peer cd exec_ok p db; (rs, db2) = put_all cd calls db1 in (r # rs, db2))"

definition put_outcome :: "'t codecs \<Rightarrow> 't peer \<times> bool \<Rightarrow> store_err option" where
  "put_outcome cd c =
     (if json_marshal cd (peer_metadata (fst c)) = None then Some MarshalError
      else if snd c then None else Some ExecError)"

definition succeeded :: "'t codecs \<Rightarrow> ('t peer \<times> bool) list \<Rightarrow> 't peer list" where
  "succeeded cd calls = map fst (filter (\<lambda>c. put_outcome cd c = None) calls)"

definition last_put :: "'t codecs \<Rightarrow> ('t peer \<times> bool) list \<Rightarrow> string \<Rightarrow> 't peer option" where
  "last_put cd calls k = find (\<lambda>p. peer_id p = k) (rev (succeeded cd calls))"

definition peer_to_row :: "'t codecs \<Rightarrow> 't peer \<Rightarrow> string \<times> peer_row" where
  "peer_to_row cd p =
     (peer_id p, \<lparr>row_public_key = peer_public_key p, row_endpoint = peer_endpoint p,
        row_last_seen = format_time cd (peer_last_seen p),
        row_metadata = the (json_marshal cd (peer_metadata p))\<rparr>)"

lemma put_all_upserts:
  "put_all cd calls db = (outs, db') \<Longrightarrow>
   outs = map (put_outcome cd) calls \<and>
   db' = peers_sql.upserts (map (peer_to_row cd) (succeeded cd calls)) db"
proof (induction calls arbitrary: db outs)
  case (Cons c calls)
  obtain p exec_ok where c: "c = (p, exec_ok)" by fastforce
  obtain r db1 where 1: "put_peer cd exec_ok p db = (r, db1)" by fastforce
  obtain rs where 2: "put_all cd calls db1 = (rs, db')" "outs = r # rs"
    using Cons.prems c 1 by (auto split: prod.splits)
  have "r = put_outcome cd c \<and> db1 = (if r = None then sql_upsert (peer_id p) (snd (peer_to_row cd p)) db else db)"
    using 1 c by (auto simp: put_peer_def put_outcome_def peer_to_row_def split: option.splits if_splits)
  with Cons.IH[OF 2(1)] 2(2) c show ?case
    by (auto simp: succeeded_def peers_sql.upserts_def peer_to_row_def)
qed (simp add: succeeded_def peers_sql.upserts_def)

text \<open>
  The texts of this peer decode to what was encoded. So it is for the strings and times of the peers the
  program stores; a string that is not UTF-8 or a year beyond 9999, for instance, comes back changed or not at all.
\<close>

definition reads_back :: "'t codecs \<Rightarrow> 't peer \<Rightarrow> bool" where
  "reads_back cd p \<longleftrightarrow>
     parse_time cd (format_time cd (peer_last_seen p)) = Some (peer_last_seen p) \<and>
     (case json_marshal cd (peer_metadata p) of
        None \<Rightarrow> False | Some s \<Rightarrow> s \<noteq> [] \<and> json_unmarshal cd s = Some (peer_metadata p))"

lemma scan_peer_row: "reads_back cd p \<Longrightarrow> scan_peer cd (peer_to_row cd p) = Inr (stored p)"
  by (cases p) (auto simp: scan_peer_def peer_to_row_def reads_back_def stored_def Let_def split: option.splits)

lemma map_of_find:
  "map_of (map (\<lambda>p. (f p, g p)) ps) k = map_option g (find (\<lambda>p. f p = k) ps)"
  by (induction ps) auto

lemma put_all_select:
  assumes "put_all cd calls db = (outs, db')" and "distinct (map fst db)"
  shows "sql_select k db' =
    (case last_put cd calls k of None \<Rightarrow> sql_select k db | Some p \<Rightarrow> Some (snd (peer_to_row cd p)))"
proof -
  let ?ps = "succeeded cd calls"
  have row: "peer_to_row cd = (\<lambda>p. (peer_id p, (snd \<circ> peer_to_row cd) p))"
    by (simp add: fun_eq_iff peer_to_row_def)
  have "map_of (rev (map (peer_to_row cd) ?ps)) k = map_option (snd \<circ> peer_to_row cd) (last_put cd calls k)"
    unfolding rev_map last_put_def by (subst row) (rule map_of_find)
  then show ?thesis
    using peers_sql.upserts_spec[OF assms(2), of "map (peer_to_row cd) ?ps" k] put_all_upserts[OF assms(1)]
    by (simp split: option.splits)
qed

lemma put_all_get:
  assumes "put_all cd calls db = (outs, db')" and "distinct (map fst db)"
  shows "get_peer cd k db' =
    (case last_put cd calls k of None \<Rightarrow> get_peer cd k db | Some p \<Rightarrow> scan_peer cd (peer_to_row cd p))"
proof -
  have "peer_id p = k" if "last_put cd calls k = Some p" for p
    using that by (auto simp: last_put_def find_Some_iff)
  then show ?thesis
    using put_all_select[OF assms, of k] by (simp add: get_peer_def peer_to_row_def split: option.split)
qed

lemma scan_peer_id: "scan_peer cd r = Inr q \<Longrightarrow> peer_id q = fst r"
  by (auto simp: scan_peer_def Let_def split: option.splits)

lemma scan_peer_found: "scan_peer cd r \<noteq> Inl ErrNotFound"
  by (simp add: scan_peer_def Let_def split: option.split)

lemma scan_rows_spec:
  "case scan_rows cd rs of
     Inr qs \<Rightarrow> map (scan_peer cd) rs = map Inr qs
   | Inl e \<Rightarrow> \<exists>r \<in> set rs. scan_peer cd r = Inl e"
  by (induction rs) (auto split: sum.splits)

text \<open>What \<open>ListPeers\<close> gives is what \<open>GetPeer\<close> gives for every identifier, or the error of one of them.\<close>

definition lists_found :: "(string \<Rightarrow> store_err + 't peer) \<Rightarrow> store_err + 't peer list \<Rightarrow> bool" where
  "lists_found get r \<longleftrightarrow>
     (case r of
        Inr qs \<Rightarrow> sorted (map peer_id qs) \<and> distinct (map peer_id qs) \<and>
          (\<forall>k. get k = (case find (\<lambda>q. peer_id q = k) qs of None \<Rightarrow> Inl ErrNotFound | Some q \<Rightarrow> Inr q))
      | Inl e \<Rightarrow> e \<noteq> ErrNotFound \<and> (\<exists>k. get k = Inl e))"

lemma list_peers_lists:
  assumes "distinct (map fst db)"
  shows "lists_found (\<lambda>k. get_peer cd k db) (list_peers cd db)"
proof -
  let ?rows = "sql_select_all db"
  have get: "get_peer cd (fst r) db = scan_peer cd r" if "r \<in> set ?rows" for r
    using peers_sql.scan_lookup[OF assms, of "fst r" "snd r"] that by (simp add: get_peer_def)
  show ?thesis
  proof (cases "scan_rows cd ?rows")
    case (Inl e)
    then obtain r where "r \<in> set ?rows" "scan_peer cd r = Inl e"
      using scan_rows_spec[where cd = cd and rs = ?rows] by auto
    with Inl get[of r] scan_peer_found[of cd r] have "get_peer cd (fst r) db = Inl e" "e \<noteq> ErrNotFound" by auto
    with Inl show ?thesis by (auto simp: lists_found_def list_peers_def)
  next
    case (Inr qs)
    then have m: "map (scan_peer cd) ?rows = map Inr qs" using scan_rows_spec[where cd = cd and rs = ?rows] by simp
    have ids: "map peer_id qs = map fst ?rows"
      using m scan_peer_id[of cd] by (auto simp: list_eq_iff_nth_eq)
    have "get_peer cd k db = (case find (\<lambda>q. peer_id q = k) qs of None \<Rightarrow> Inl ErrNotFound | Some q \<Rightarrow> Inr q)" for k
    proof (cases "find (\<lambda>q. peer_id q = k) qs")
      case None
      then have "k \<notin> set (map fst ?rows)" unfolding ids[symmetric] by (auto simp: find_None_iff)
      then have "sql_select k db = None"
        using peers_sql.scan_lookup[OF assms, of k] by (cases "sql_select k db") force+
      with None show ?thesis by (simp add: get_peer_def)
    next
      case (Some q)
      then obtain i where "i < length qs" "qs ! i = q" "peer_id q = k" by (auto simp: find_Some_iff)
      moreover from this have "scan_peer cd (?rows ! i) = Inr q" "?rows ! i \<in> set ?rows"
        using m by (metis length_map nth_map, metis m length_map nth_mem)
      ultimately show ?thesis
        using Some get[of "?rows ! i"] scan_peer_id[of cd "?rows ! i" q] by simp
    qed
    with Inr ids peers_sql.scan_sorted[OF assms] show ?thesis by (simp add: lists_found_def list_peers_def)
  qed
qed

text \<open>
  C16. The store returns what was put. After any calls of \<open>PutPeer\<close>, failing ones included, on a table
  with one row per identifier: a call returns an error exactly if the metadata has no JSON text or the
  statement fails; \<open>GetPeer\<close> reads the peer of the last successful call for an identifier,
  which is that very peer (its metadata an empty map if it was nil) if its time and
  metadata decode to what was encoded, and what it read before if there was no such call; \<open>ListPeers\<close>
  lists exactly what \<open>GetPeer\<close> finds, one per identifier, sorted, or fails with the decoding error of one of
  them; and the table still has one row per identifier.
\<close>

theorem store_returns_last_put:
  assumes "distinct (map fst db)" and "put_all cd calls db = (outs, db')"
  shows "outs = map (put_outcome cd) calls \<and>
    (\<forall>k. get_peer cd k db' =
       (case last_put cd calls k of
          None \<Rightarrow> get_peer cd k db
        | Some p \<Rightarrow> if reads_back cd p then Inr (stored p) else scan_peer cd (peer_to_row cd p))) \<and>
    lists_found (\<lambda>k. get_peer cd k db') (list_peers cd db') \<and> distinct (map fst db')"
proof -
  have d: "distinct (map fst db')"
    using peers_sql.upserts_spec[OF assms(1)] put_all_upserts[OF assms(2)] by simp
  have "get_peer cd k db' =
      (case last_put cd calls k of
         None \<Rightarrow> get_peer cd k db
       | Some p \<Rightarrow> if reads_back cd p then Inr (stored p) else scan_peer cd (peer_to_row cd p))" for k
    unfolding put_all_get[OF assms(2,1)] by (simp add: scan_peer_row split: option.split)
  with d put_all_upserts[OF assms(2)] list_peers_lists[OF d, of cd] show ?thesis by blast
qed

text \<open>A witness: times in unary, and a text for maps of at most the key \<^verbatim>\<open>k\<close>.\<close>

definition small_codecs :: "nat codecs" where
  "small_codecs =
     \<lparr>format_time = (\<lambda>n. replicate n (CHR ''1'')), parse_time = (\<lambda>s. Some (length s)),
      json_marshal = (\<lambda>m. case m of None \<Rightarrow> Some ''null''
        | Some f \<Rightarrow> (case f ''k'' of None \<Rightarrow> Some ''{}'' | Some v \<Rightarrow> Some (CHR ''k'' # v))),
      json_unmarshal = (\<lambda>s. if s = ''null'' then Some None else if s = ''{}'' then Some (Some Map.empty)
        else Some (Some [''k'' \<mapsto> tl s]))\<rparr>"

definition sample_peer :: "string \<Rightarrow> nat \<Rightarrow> (string \<rightharpoonup> string) option \<Rightarrow> nat peer" where
  "sample_peer i t m = \<lparr>peer_id = i, peer_public_key = [1, 2], peer_endpoint = ''h:1'',
     peer_last_seen = t, peer_metadata = m\<rparr>"

theorem store_returns_last_put_witness:
  "get_peer small_codecs ''a''
     (snd (put_all small_codecs [(sample_peer ''b'' 1 None, True), (sample_peer ''a'' 2 (Some [''k'' \<mapsto> ''v'']), True),
        (sample_peer ''a'' 3 None, False)] []))
   = Inr (sample_peer ''a'' 2 (Some [''k'' \<mapsto> ''v'']))"
proof -
  let ?cs = "[(sample_peer ''b'' 1 None, True), (sample_peer ''a'' 2 (Some [''k'' \<mapsto> ''v'']), True),
    (sample_peer ''a'' 3 None, False)]"
  have l: "last_put small_codecs ?cs ''a'' = Some (sample_peer ''a'' 2 (Some [''k'' \<mapsto> ''v'']))"
    by (simp add: last_put_def succeeded_def put_outcome_def small_codecs_def sample_peer_def)
  have r: "reads_back small_codecs (sample_peer ''a'' 2 (Some [''k'' \<mapsto> ''v'']))"
    by (simp add: reads_back_def small_codecs_def sample_peer_def)
  have "put_all small_codecs ?cs [] = (fst (put_all small_codecs ?cs []), snd (put_all small_codecs ?cs []))"
    by simp
  from store_returns_last_put[OF _ this] l r show ?thesis
    by (simp add: stored_def sample_peer_def)
qed

end
