(* ===== verification/PeerManager.thy ===== *)
theory PeerManager
  imports GoStd
begin

text \<open>
  \<^verbatim>\<open>mesh/peer_manager.go\<close>: kicking, blocking and trust of peers. Every method runs under the
  lock, so a method is one operation on the state; the readings of the clock are arguments,
  in nanoseconds. \<^verbatim>\<open>GetPeerStatus\<close> takes the lock twice, and is modelled with nothing in
  between. The callback is started in a goroutine: a kick returns the peers it is called for.
\<close>

section \<open>State\<close>

datatype peer_status = PeerActive | PeerBlocked | PeerKicked

record peer_manager =
  blocked :: "string \<rightharpoonup> int"
  kicked :: "string \<rightharpoonup> int"
  trust_level :: "string \<rightharpoonup> int"
  has_on_kick :: bool

definition new_peer_manager :: "bool \<Rightarrow> peer_manager" where
  "new_peer_manager cb =
     \<lparr>blocked = Map.empty, kicked = Map.empty, trust_level = Map.empty, has_on_kick = cb\<rparr>"

section \<open>Operations\<close>

definition kick_peer :: "int \<Rightarrow> int \<Rightarrow> string \<Rightarrow> int \<Rightarrow> peer_manager \<Rightarrow> string list \<times> peer_manager" where
  "kick_peer now1 now2 i ban pm =
     (let pm1 = pm\<lparr>kicked := (kicked pm)(i \<mapsto> now1)\<rparr>;
          pm2 = (if ban > 0 then pm1\<lparr>blocked := (blocked pm1)(i \<mapsto> now2 + ban)\<rparr> else pm1)
      in (if has_on_kick pm2 then [i] else [], pm2))"

definition permanent_ban :: int where
  "permanent_ban = 100 * 365 * 24 * 3600 * 1000000000"

definition block_peer :: "int \<Rightarrow> string \<Rightarrow> peer_manager \<Rightarrow> peer_manager" where
  "block_peer now i pm = pm\<lparr>blocked := (blocked pm)(i \<mapsto> now + permanent_ban)\<rparr>"

definition unblock_peer :: "string \<Rightarrow> peer_manager \<Rightarrow> peer_manager" where
  "unblock_peer i pm = pm\<lparr>blocked := (blocked pm)(i := None), kicked := (kicked pm)(i := None)\<rparr>"

definition is_blocked :: "int \<Rightarrow> string \<Rightarrow> peer_manager \<Rightarrow> bool \<times> peer_manager" where
  "is_blocked now i pm =
     (case blocked pm i of
        None \<Rightarrow> (False, pm)
      | Some until \<Rightarrow>
          if now > until then (False, pm\<lparr>blocked := (blocked pm)(i := None)\<rparr>)
          else (True, pm))"

definition get_peer_status :: "int \<Rightarrow> string \<Rightarrow> peer_manager \<Rightarrow> peer_status \<times> peer_manager" where
  "get_peer_status now i pm =
     (let (b, pm') = is_blocked now i pm
      in (if b then PeerBlocked else if kicked pm' i \<noteq> None then PeerKicked else PeerActive, pm'))"

definition set_trust_level :: "string \<Rightarrow> int \<Rightarrow> peer_manager \<Rightarrow> peer_manager" where
  "set_trust_level i level pm =
     (let l1 = (if level < 0 then 0 else level);
          l2 = (if l1 > 100 then 100 else l1)
      in pm\<lparr>trust_level := (trust_level pm)(i \<mapsto> l2)\<rparr>)"

definition get_trust_level :: "string \<Rightarrow> peer_manager \<Rightarrow> int" where
  "get_trust_level i pm = (case trust_level pm i of Some l \<Rightarrow> l | None \<Rightarrow> 50)"

text \<open>The order in which \<^verbatim>\<open>range\<close> visits the keys of the map is an argument.\<close>

definition list_blocked_peers :: "string list \<Rightarrow> int \<Rightarrow> peer_manager \<Rightarrow> string list" where
  "list_blocked_peers ks now pm =
     filter (\<lambda>i. case blocked pm i of None \<Rightarrow> False | Some until \<Rightarrow> now < until) ks"

definition status_number :: "peer_status \<Rightarrow> nat" where
  "status_number s = (case s of PeerActive \<Rightarrow> 0 | PeerBlocked \<Rightarrow> 1 | PeerKicked \<Rightarrow> 2)"

definition peer_summary :: "int \<Rightarrow> string \<Rightarrow> peer_manager \<Rightarrow> string \<times> peer_manager" where
  "peer_summary now i pm =
     (let (s, pm') = get_peer_status now i pm
      in (''peer='' @ i @ '' status='' @ dec_nat (status_number s) @
          '' trust='' @ dec_nat (nat (get_trust_level i pm')), pm'))"

section \<open>Histories\<close>

text \<open>The calls a client makes, each at the time its (single) reading of the clock gives.\<close>

datatype peer_op =
  Kick string int | Block string | Unblock string | Query string | SetTrust string int

definition apply_op :: "peer_manager \<Rightarrow> int \<times> peer_op \<Rightarrow> peer_manager" where
  "apply_op pm e =
     (case e of (t, op) \<Rightarrow>
        (case op of
           Kick i d \<Rightarrow> snd (kick_peer t t i d pm)
         | Block i \<Rightarrow> block_peer t i pm
         | Unblock i \<Rightarrow> unblock_peer i pm
         | Query i \<Rightarrow> snd (get_peer_status t i pm)
         | SetTrust i l \<Rightarrow> set_trust_level i l pm))"

definition run_ops :: "(int \<times> peer_op) list \<Rightarrow> peer_manager \<Rightarrow> peer_manager" where
  "run_ops h pm = foldl apply_op pm h"

text \<open>What a history means for a peer, without the lazy removal of expired bans.\<close>

definition ban_step :: "string \<Rightarrow> int option \<Rightarrow> int \<times> peer_op \<Rightarrow> int option" where
  "ban_step i b e =
     (case e of (t, op) \<Rightarrow>
        (case op of
           Kick j d \<Rightarrow> if j = i \<and> d > 0 then Some (t + d) else b
         | Block j \<Rightarrow> if j = i then Some (t + permanent_ban) else b
         | Unblock j \<Rightarrow> if j = i then None else b
         | _ \<Rightarrow> b))"

definition ban_until :: "string \<Rightarrow> (int \<times> peer_op) list \<Rightarrow> int option" where
  "ban_until i h = foldl (ban_step i) None h"

definition was_kicked :: "string \<Rightarrow> (int \<times> peer_op) list \<Rightarrow> bool" where
  "was_kicked i h = foldl (\<lambda>b (t, op).
     case op of Kick j d \<Rightarrow> b \<or> j = i | Unblock j \<Rightarrow> b \<and> j \<noteq> i | _ \<Rightarrow> b) False h"

definition trust_of :: "string \<Rightarrow> (int \<times> peer_op) list \<Rightarrow> int" where
  "trust_of i h = foldl (\<lambda>l (t, op).
     case op of SetTrust j n \<Rightarrow> if j = i then max 0 (min 100 n) else l | _ \<Rightarrow> l) 50 h"

definition status_of :: "int \<Rightarrow> string \<Rightarrow> (int \<times> peer_op) list \<Rightarrow> peer_status" where
  "status_of now i h =
     (if (case ban_until i h of None \<Rightarrow> False | Some u \<Rightarrow> now \<le> u) then PeerBlocked
      else if was_kicked i h then PeerKicked else PeerActive)"

section \<open>The manager implements the history\<close>

text \<open>The map of bans may lack only bans that have expired.\<close>

definition bans_agree :: "int \<Rightarrow> int option \<Rightarrow> int option \<Rightarrow> bool" where
  "bans_agree now b s \<longleftrightarrow> b = s \<or> b = None \<and> (\<exists>u. s = Some u \<and> u < now)"

lemma bans_agree_mono: "bans_agree t b s \<Longrightarrow> t \<le> t' \<Longrightarrow> bans_agree t' b s"
  by (auto simp: bans_agree_def)

lemma apply_op_blocked:
  "bans_agree t (blocked pm i) b \<Longrightarrow> bans_agree t (blocked (apply_op pm (t, op)) i) (ban_step i b (t, op))"
  by (cases op)
    (auto simp: apply_op_def ban_step_def bans_agree_def kick_peer_def block_peer_def unblock_peer_def
       get_peer_status_def is_blocked_def set_trust_level_def Let_def split: option.splits)

lemma apply_op_kicked:
  "kicked (apply_op pm (t, op)) i \<noteq> None \<longleftrightarrow>
     (case op of Kick j d \<Rightarrow> kicked pm i \<noteq> None \<or> j = i | Unblock j \<Rightarrow> kicked pm i \<noteq> None \<and> j \<noteq> i
      | _ \<Rightarrow> kicked pm i \<noteq> None)"
  by (cases op)
    (auto simp: apply_op_def kick_peer_def block_peer_def unblock_peer_def
       get_peer_status_def is_blocked_def set_trust_level_def Let_def split: option.splits)

lemma apply_op_trust:
  "get_trust_level i (apply_op pm (t, op)) =
     (case op of SetTrust j n \<Rightarrow> if j = i then max 0 (min 100 n) else get_trust_level i pm
      | _ \<Rightarrow> get_trust_level i pm)"
  by (cases op)
    (auto simp: apply_op_def get_trust_level_def kick_peer_def block_peer_def unblock_peer_def
       get_peer_status_def is_blocked_def set_trust_level_def Let_def split: option.splits)

lemma run_ops_history:
  assumes "sorted (map fst h)" and "\<forall>e \<in> set h. fst e \<le> now"
  shows "bans_agree now (blocked (run_ops h (new_peer_manager cb)) i) (ban_until i h) \<and>
    (kicked (run_ops h (new_peer_manager cb)) i \<noteq> None \<longleftrightarrow> was_kicked i h) \<and>
    get_trust_level i (run_ops h (new_peer_manager cb)) = trust_of i h"
  using assms
proof (induction h arbitrary: now rule: rev_induct)
  case Nil
  then show ?case
    by (simp add: run_ops_def ban_until_def was_kicked_def trust_of_def new_peer_manager_def
        bans_agree_def get_trust_level_def)
next
  case (snoc e h)
  obtain t op where e: "e = (t, op)" by fastforce
  let ?pm = "run_ops h (new_peer_manager cb)"
  have IH: "bans_agree t (blocked ?pm i) (ban_until i h)"
    "(kicked ?pm i \<noteq> None) = was_kicked i h" "get_trust_level i ?pm = trust_of i h"
    using snoc.IH[of t] snoc.prems by (auto simp: e sorted_append)
  have "bans_agree now (blocked (apply_op ?pm e) i) (ban_step i (ban_until i h) e)"
    using apply_op_blocked[OF IH(1), of op] bans_agree_mono snoc.prems(2) by (auto simp: e)
  moreover have "(kicked (apply_op ?pm e) i \<noteq> None) = was_kicked i (h @ [e])"
    using apply_op_kicked[of ?pm t op i] IH(2) by (cases op) (simp_all add: e was_kicked_def)
  moreover have "get_trust_level i (apply_op ?pm e) = trust_of i (h @ [e])"
    using apply_op_trust[of i ?pm t op] IH(3) by (cases op) (simp_all add: e trust_of_def)
  ultimately show ?case by (simp add: run_ops_def ban_until_def)
qed

lemma trust_of_range: "0 \<le> trust_of i h \<and> trust_of i h \<le> 100"
  by (induction h rule: rev_induct) (auto simp: trust_of_def split: peer_op.splits)

text \<open>
  C15. The peer manager answers by the history of calls, however many queries have dropped
  expired bans in between: a peer is blocked until the moment its last kick with a ban or
  its last block set, unless it was unblocked since; otherwise it counts as kicked when it
  was kicked after the last unblock, however long ago; its trust is the last level set,
  clamped to 0..100, and 50 before.
\<close>

theorem peer_manager_follows_history:
  assumes "sorted (map fst h)" and "\<forall>e \<in> set h. fst e \<le> now"
  shows "let pm = run_ops h (new_peer_manager cb) in
      fst (is_blocked now i pm) = (status_of now i h = PeerBlocked) \<and>
      fst (get_peer_status now i pm) = status_of now i h \<and>
      get_trust_level i pm = trust_of i h \<and> 0 \<le> trust_of i h \<and> trust_of i h \<le> 100"
proof -
  let ?pm = "run_ops h (new_peer_manager cb)"
  have H: "bans_agree now (blocked ?pm i) (ban_until i h)"
    "(kicked ?pm i \<noteq> None) = was_kicked i h" "get_trust_level i ?pm = trust_of i h"
    using run_ops_history[OF assms, of cb i] by auto
  have b: "fst (is_blocked now i ?pm) =
      (case ban_until i h of None \<Rightarrow> False | Some u \<Rightarrow> now \<le> u)"
    using H(1) by (cases "ban_until i h") (auto simp: is_blocked_def bans_agree_def split: if_splits)
  have k: "kicked (snd (is_blocked now i ?pm)) = kicked ?pm"
    by (simp add: is_blocked_def split: option.splits)
  have "fst (get_peer_status now i ?pm) = status_of now i h"
    using b k H(2) by (simp add: get_peer_status_def status_of_def case_prod_unfold Let_def)
  moreover have "fst (is_blocked now i ?pm) = (status_of now i h = PeerBlocked)"
    using b by (simp add: status_of_def)
  ultimately show ?thesis
    using H(3) trust_of_range[of i h] by (simp add: Let_def)
qed

theorem peer_manager_follows_history_witness:
  "fst (get_peer_status 25 ''p'' (run_ops [(0, Block ''p''), (10, Kick ''p'' 5), (20, Query ''p'')]
     (new_peer_manager True))) = PeerKicked"
proof -
  let ?h = "[(0, Block ''p''), (10, Kick ''p'' 5), (20, Query ''p'')]"
  have "status_of 25 ''p'' ?h = PeerKicked"
    by (simp add: status_of_def ban_until_def ban_step_def was_kicked_def)
  then show ?thesis
    using peer_manager_follows_history[of ?h 25 True "''p''"] by (simp add: Let_def)
qed

text \<open>
  A kick with a ban replaces a block: however long ago the peer was permanently
  blocked, after a kick with a ban of \<open>d\<close> it may connect again as soon as \<open>d\<close> has passed,
  and it is not listed as blocked any more.
\<close>

theorem kick_replaces_block:
  assumes "0 < d"
  shows "fst (is_blocked now i (snd (kick_peer t1 t2 i d (block_peer t0 i pm)))) = (now \<le> t2 + d) \<and>
    (i \<in> set (list_blocked_peers ks now (snd (kick_peer t1 t2 i d (block_peer t0 i pm))))
       \<longleftrightarrow> i \<in> set ks \<and> now < t2 + d)"
  using assms by (simp add: is_blocked_def kick_peer_def block_peer_def list_blocked_peers_def Let_def)

theorem kick_replaces_block_witness:
  "\<not> fst (is_blocked 61 ''p'' (snd (kick_peer 1 1 ''p'' 5 (block_peer 0 ''p'' (new_peer_manager False)))))"
  using kick_replaces_block[of 5 61 "''p''" 1 1 0 "new_peer_manager False" "[]"] by simp

end
