(* ===== verification/Mesh.thy ===== *)
theory Mesh
  imports GoNet "HOL-Library.AList"
begin

text \<open>
  \<^verbatim>\<open>mesh/libp2p.go\<close> and \<^verbatim>\<open>mesh/tcp_listener.go\<close>: the mesh service with its peers,
  subscribers and counters. A method, or the body of a tick of one of its loops, runs under
  the lock of what it changes and is one operation. Connections and channels are numbered;
  the service keeps which connections are open. What the network answers (dials, handshakes,
  datagrams, the STUN query) and the readings of the clock are arguments.

  The peers are an association list, its order that in which \<^verbatim>\<open>range\<close> visits them.
\<close>

section \<open>State\<close>

record peer_info =
  info_id :: string
  info_public_key :: bytes
  info_addrs :: "string list"

record connected_peer =
  cp_info :: peer_info
  connected_at :: int
  last_seen :: int
  cp_conn :: "nat option"

record mesh_stats =
  connected_peers :: i64
  discovered_peers :: i64
  messages_relayed :: i64
  bytes_relayed :: i64
  mesh_errors :: i64
  nat_traversals :: i64

datatype mesh_err = ErrMeshNotStarted | ErrPeerNotFound | ErrSelfConnect | BadPrivateKey | GenerateKey | StopTimeout

record event_chan =
  chan_buf :: "peer_info list"
  chan_closed :: bool

record mesh =
  listen_addrs :: "string list"
  bootstrap :: "string list"
  node_id :: string
  public_key :: bytes
  mesh_stat :: mesh_stats
  peers :: "(string \<times> connected_peer) list"
  subscribers :: "(string \<times> nat list) list"
  chans :: "event_chan list"
  started :: bool
  cancelled :: bool
  open_conns :: "nat list"
  next_conn :: nat
  readers :: "(string \<times> nat) list"
  panicked :: bool

definition zero_mesh_stats :: mesh_stats where
  "zero_mesh_stats = \<lparr>connected_peers = 0, discovered_peers = 0, messages_relayed = 0,
     bytes_relayed = 0, mesh_errors = 0, nat_traversals = 0\<rparr>"

definition hex_encode :: "bytes \<Rightarrow> string" where
  "hex_encode bs = concat (map (\<lambda>b. [hex_digit (unat b div 16), hex_digit (unat b mod 16)]) bs)"

text \<open>
  \<^verbatim>\<open>NewLibP2PService\<close>: the node is named by the first 16 bytes of its Ed25519 key. The public
  half of a private key and a fresh key are the library's.
\<close>

definition new_libp2p_service ::
  "(bytes \<Rightarrow> bytes) \<Rightarrow> bytes option \<Rightarrow> string list \<Rightarrow> string list \<Rightarrow> bytes \<Rightarrow> mesh_err + mesh" where
  "new_libp2p_service ed_public fresh listen boot priv =
     (let mk = (\<lambda>pub. Inr \<lparr>listen_addrs = listen, bootstrap = boot, node_id = hex_encode (take 16 pub),
             public_key = pub, mesh_stat = zero_mesh_stats, peers = [], subscribers = [], chans = [],
             started = False, cancelled = False, open_conns = [], next_conn = 0, readers = [],
             panicked = False\<rparr>)
      in if priv \<noteq> [] then
           (if length priv \<noteq> 64 then Inl BadPrivateKey else mk (ed_public priv))
         else (case fresh of None \<Rightarrow> Inl GenerateKey | Some pub \<Rightarrow> mk pub))"

section \<open>Events\<close>

definition subs_of :: "string \<Rightarrow> mesh \<Rightarrow> nat list" where
  "subs_of t s = (case map_of (subscribers s) t of None \<Rightarrow> [] | Some cs \<Rightarrow> cs)"

text \<open>
  \<^verbatim>\<open>select { case ch <- event: default: }\<close> on a channel with 32 places; a send on a closed
  channel panics.
\<close>

definition offer :: "peer_info \<Rightarrow> nat \<Rightarrow> mesh \<Rightarrow> mesh" where
  "offer ev c s =
     (let ch = chans s ! c
      in if chan_closed ch then s\<lparr>panicked := True\<rparr>
         else if length (chan_buf ch) < 32
         then s\<lparr>chans := (chans s)[c := ch\<lparr>chan_buf := chan_buf ch @ [ev]\<rparr>]\<rparr>
         else s)"

fun offer_all :: "peer_info \<Rightarrow> nat list \<Rightarrow> mesh \<Rightarrow> mesh" where
  "offer_all ev [] s = s"
| "offer_all ev (c # cs) s = offer_all ev cs (offer ev c s)"

definition emit_event :: "string \<Rightarrow> peer_info \<Rightarrow> mesh \<Rightarrow> mesh" where
  "emit_event topic ev s =
     (let s1 = offer_all ev (subs_of topic s) s
      in if topic \<noteq> [] then offer_all ev (subs_of [] s1) s1 else s1)"

definition subscribe :: "string \<Rightarrow> mesh \<Rightarrow> (mesh_err + nat) \<times> mesh" where
  "subscribe topic s =
     (if \<not> started s then (Inl ErrMeshNotStarted, s)
      else (let c = length (chans s)
            in (Inr c, s\<lparr>chans := chans s @ [\<lparr>chan_buf = [], chan_closed = False\<rparr>],
                  subscribers := AList.update topic (subs_of topic s @ [c]) (subscribers s)\<rparr>)))"

text \<open>The goroutine of \<^verbatim>\<open>Subscribe\<close>, once the context of the subscriber is done.\<close>

definition unsubscribe :: "string \<Rightarrow> nat \<Rightarrow> mesh \<Rightarrow> mesh" where
  "unsubscribe topic c s =
     (if c \<in> set (subs_of topic s)
      then s\<lparr>subscribers := AList.update topic (remove1 c (subs_of topic s)) (subscribers s)\<rparr>
      else s)"

text \<open>A subscriber takes an event from its channel.\<close>

definition receive :: "nat \<Rightarrow> mesh \<Rightarrow> peer_info option \<times> mesh" where
  "receive c s =
     (if c < length (chans s)
      then (case chan_buf (chans s ! c) of
              [] \<Rightarrow> (None, s)
            | ev # evs \<Rightarrow> (Some ev, s\<lparr>chans := (chans s)[c := (chans s ! c)\<lparr>chan_buf := evs\<rparr>]\<rparr>))
      else (None, s))"

definition advertise :: "string \<Rightarrow> mesh \<Rightarrow> mesh_err option" where
  "advertise topic s = (if \<not> started s then Some ErrMeshNotStarted else None)"

section \<open>Peers\<close>

text \<open>\<^verbatim>\<open>s.stats.ConnectedPeers.Store(int64(len(s.peers)))\<close>\<close>

definition store_gauge :: "mesh \<Rightarrow> mesh" where
  "store_gauge s = s\<lparr>mesh_stat := (mesh_stat s)\<lparr>connected_peers := of_nat (length (peers s))\<rparr>\<rparr>"

definition close_conn :: "nat option \<Rightarrow> mesh \<Rightarrow> mesh" where
  "close_conn h s = (case h of None \<Rightarrow> s | Some c \<Rightarrow> s\<lparr>open_conns := removeAll c (open_conns s)\<rparr>)"

definition peer_conn :: "(string \<times> connected_peer) list \<Rightarrow> string \<Rightarrow> nat option" where
  "peer_conn ps i = (case map_of ps i of None \<Rightarrow> None | Some p \<Rightarrow> cp_conn p)"

abbreviation conn_of :: "string \<Rightarrow> mesh \<Rightarrow> nat option" where
  "conn_of i s \<equiv> peer_conn (peers s) i"

text \<open>
  What dialling an address comes to: no connection, a connection on which the Noise handshake
  fails (it is closed), or a secure connection, with which the loop ends.
\<close>

datatype dial_result = DialFailed | HandshakeFailed | Secured

fun dial_addrs :: "(string \<Rightarrow> dial_result) \<Rightarrow> string list \<Rightarrow> mesh \<Rightarrow> nat option \<times> mesh" where
  "dial_addrs net [] s = (None, s)"
| "dial_addrs net (a # as) s =
     (case net a of
        DialFailed \<Rightarrow> dial_addrs net as s
      | HandshakeFailed \<Rightarrow>
          (let c = next_conn s; s1 = s\<lparr>next_conn := Suc c, open_conns := c # open_conns s\<rparr>
           in dial_addrs net as (close_conn (Some c) s1))
      | Secured \<Rightarrow>
          (let c = next_conn s
           in (Some c, s\<lparr>next_conn := Suc c, open_conns := c # open_conns s\<rparr>)))"

text \<open>The peer is entered, an older connection to it closed first.\<close>

definition enter_peer :: "int \<Rightarrow> peer_info \<Rightarrow> nat option \<Rightarrow> mesh \<Rightarrow> mesh" where
  "enter_peer now info c s =
     (let s1 = close_conn (conn_of (info_id info) s) s
      in store_gauge (s1\<lparr>peers := AList.update (info_id info)
           \<lparr>cp_info = info, connected_at = now, last_seen = now, cp_conn = c\<rparr> (peers s1)\<rparr>))"

definition connect ::
  "(string \<Rightarrow> dial_result) \<Rightarrow> int \<Rightarrow> peer_info \<Rightarrow> mesh \<Rightarrow> mesh_err option \<times> mesh" where
  "connect net now info s =
     (if \<not> started s then (Some ErrMeshNotStarted, s)
      else if info_id info = node_id s then (Some ErrSelfConnect, s)
      else
        let (c, s1) = dial_addrs net (info_addrs info) s;
            s2 = enter_peer now info c s1;
            s3 = s2\<lparr>mesh_stat := (mesh_stat s2)\<lparr>discovered_peers := discovered_peers (mesh_stat s2) + 1\<rparr>\<rparr>
        in (None, emit_event [] info s3))"

definition disconnect :: "string \<Rightarrow> mesh \<Rightarrow> mesh_err option \<times> mesh" where
  "disconnect i s =
     (case map_of (peers s) i of
        None \<Rightarrow> (Some ErrPeerNotFound, s)
      | Some p \<Rightarrow>
          (let s1 = close_conn (cp_conn p) s
           in (None, store_gauge (s1\<lparr>peers := AList.delete i (peers s1)\<rparr>))))"

definition mesh_get_stats :: "mesh \<Rightarrow> mesh_stats" where
  "mesh_get_stats s = mesh_stat s"

definition list_connected_peers :: "mesh \<Rightarrow> peer_info list" where
  "list_connected_peers s = map (\<lambda>(i, p). cp_info p) (peers s)"

definition update_peer_last_seen :: "int \<Rightarrow> string \<Rightarrow> mesh \<Rightarrow> mesh" where
  "update_peer_last_seen now i s =
     s\<lparr>peers := AList.map_entry i (\<lambda>p. p\<lparr>last_seen := now\<rparr>) (peers s)\<rparr>"

text \<open>
  A tick of the health loop: a peer with a connection is seen now, one without that was last
  seen more than 60 seconds ago is dropped.
\<close>

definition health_tick :: "int \<Rightarrow> int \<Rightarrow> mesh \<Rightarrow> mesh" where
  "health_tick now1 now2 s =
     (let cutoff = now1 - 60000000000;
          seen = map (\<lambda>(i, p). (i, if cp_conn p \<noteq> None then p\<lparr>last_seen := now2\<rparr> else p)) (peers s)
      in store_gauge (s\<lparr>peers := filter (\<lambda>(i, p). \<not> (cp_conn p = None \<and> last_seen p < cutoff)) seen\<rparr>))"

definition metrics_tick :: "mesh \<Rightarrow> mesh" where
  "metrics_tick s = s\<lparr>mesh_stat := (mesh_stat s)\<lparr>discovered_peers := of_nat (length (peers s))\<rparr>\<rparr>"

section \<open>Gossip, STUN and bootstrap\<close>

record gossip_message =
  g_version :: int
  g_node_id :: string
  known_peers :: "string list"
  g_timestamp :: int

text \<open>
  A tick of the gossip loop: the first address of every peer is told to all of them. Returned
  are the datagrams, one for each address that can be dialled.
\<close>

definition gossip_tick ::
  "(gossip_message \<Rightarrow> bytes) \<Rightarrow> (string \<Rightarrow> bool) \<Rightarrow> int \<Rightarrow> mesh \<Rightarrow> (string \<times> bytes) list \<times> mesh" where
  "gossip_tick marshal reach now s =
     (let known = concat (map (\<lambda>(i, p). case info_addrs (cp_info p) of [] \<Rightarrow> [] | a # as \<Rightarrow> [a]) (peers s))
      in if known = [] then ([], s)
         else
           let payload = marshal \<lparr>g_version = 1, g_node_id = node_id s, known_peers = known, g_timestamp = now\<rparr>;
               st = mesh_stat s
           in (map (\<lambda>a. (a, payload)) (filter reach known),
               s\<lparr>mesh_stat := st\<lparr>messages_relayed := messages_relayed st + 1,
                   bytes_relayed := bytes_relayed st + of_nat (length payload * length known)\<rparr>\<rparr>))"

definition knows_addr :: "mesh \<Rightarrow> string \<Rightarrow> bool" where
  "knows_addr s a = (\<exists>(i, p) \<in> set (peers s). a \<in> set (info_addrs (cp_info p)))"

definition discover_addr :: "string \<Rightarrow> mesh \<Rightarrow> mesh" where
  "discover_addr a s =
     (if knows_addr s a then s
      else emit_event [] \<lparr>info_id = ''discovered-'' @ a, info_public_key = [], info_addrs = [a]\<rparr> s)"

text \<open>A datagram is read: the body of \<^verbatim>\<open>gossipListenerLoop\<close> after a successful read.\<close>

definition gossip_receive :: "(bytes \<Rightarrow> gossip_message option) \<Rightarrow> int \<Rightarrow> bytes \<Rightarrow> mesh \<Rightarrow> mesh" where
  "gossip_receive unmarshal now d s =
     (case unmarshal d of
        None \<Rightarrow> s
      | Some msg \<Rightarrow>
          if g_node_id msg = node_id s then s
          else
            let st = mesh_stat s;
                s1 = s\<lparr>mesh_stat := st\<lparr>messages_relayed := messages_relayed st + 1,
                       bytes_relayed := bytes_relayed st + of_nat (length d)\<rparr>\<rparr>;
                s2 = update_peer_last_seen now (g_node_id msg) s1
            in foldl (\<lambda>s a. discover_addr a s) s2 (known_peers msg))"

text \<open>\<^verbatim>\<open>performSTUNQuery\<close>: the address the server saw, if it answered, is listed once.\<close>

definition perform_stun_query :: "(bytes \<times> nat) option \<Rightarrow> mesh \<Rightarrow> mesh" where
  "perform_stun_query answer s =
     (if cancelled s then s
      else case answer of
             None \<Rightarrow> s
           | Some (ip, port) \<Rightarrow>
               (let a = sprintf_host_port (ip_string ip) port
                in if a \<in> set (listen_addrs s) then s
                   else s\<lparr>listen_addrs := listen_addrs s @ [a],
                          mesh_stat := (mesh_stat s)\<lparr>nat_traversals := nat_traversals (mesh_stat s) + 1\<rparr>\<rparr>))"

text \<open>
  \<^verbatim>\<open>natTraversalLoop\<close>: one query at the start and one at each of \<open>n\<close> ticks, all to the same
  server; \<open>ask\<close> is what it answers to which query.
\<close>

definition stun_server :: string where
  "stun_server = ''stun.l.google.com:19302''"

definition nat_traversal_loop :: "(string \<Rightarrow> nat \<Rightarrow> (bytes \<times> nat) option) \<Rightarrow> nat \<Rightarrow> mesh \<Rightarrow> mesh" where
  "nat_traversal_loop ask n s = fold (\<lambda>i. perform_stun_query (ask stun_server i)) [0..<Suc n] s"

text \<open>One round of \<^verbatim>\<open>bootstrapLoop\<close>; an error of \<^verbatim>\<open>Connect\<close> is counted.\<close>

definition bootstrap_round :: "(string \<Rightarrow> dial_result) \<Rightarrow> int \<Rightarrow> string \<Rightarrow> mesh \<Rightarrow> mesh" where
  "bootstrap_round net now a s =
     (if cancelled s then s
      else case connect net now \<lparr>info_id = ''bootstrap-'' @ a, info_public_key = [], info_addrs = [a]\<rparr> s of
             (None, s') \<Rightarrow> s'
           | (Some e, s') \<Rightarrow>
               s'\<lparr>mesh_stat := (mesh_stat s')\<lparr>mesh_errors := mesh_errors (mesh_stat s') + 1\<rparr>\<rparr>)"

section \<open>Incoming connections\<close>

text \<open>
  The goroutine of an accepted connection. The handshake gives the static key of the peer or
  fails, and then the connection is closed. The peer is named by the first 16 bytes of the
  key and a goroutine that reads from the connection is started.
\<close>

definition accept_conn :: "bytes option \<Rightarrow> int \<Rightarrow> mesh \<Rightarrow> mesh" where
  "accept_conn hs now s =
     (let c = next_conn s;
          s1 = s\<lparr>next_conn := Suc c, open_conns := c # open_conns s\<rparr>
      in case hs of
           None \<Rightarrow> close_conn (Some c) s1
         | Some key \<Rightarrow>
             (let i = hex_encode (take (min 16 (length key)) key);
                  s2 = enter_peer now \<lparr>info_id = i, info_public_key = [], info_addrs = []\<rparr> (Some c) s1
              in s2\<lparr>readers := (i, c) # readers s2\<rparr>))"

text \<open>A read of that goroutine returns data, or an error, which ends it.\<close>

definition reader_data :: "int \<Rightarrow> string \<times> nat \<Rightarrow> mesh \<Rightarrow> mesh" where
  "reader_data now r s = update_peer_last_seen now (fst r) s"

definition reader_error :: "string \<times> nat \<Rightarrow> mesh \<Rightarrow> mesh" where
  "reader_error r s = snd (disconnect (fst r) (s\<lparr>readers := remove1 r (readers s)\<rparr>))"

section \<open>Starting and stopping\<close>

datatype mesh_loop =
  HealthLoop | MetricsLoop | BootstrapLoop | GossipListenerLoop | TcpListenerLoop | GossipLoop | NatLoop

definition start :: "mesh \<Rightarrow> mesh_loop list \<times> mesh" where
  "start s =
     (if started s then ([], s)
      else ([HealthLoop, MetricsLoop] @ (if bootstrap s \<noteq> [] then [BootstrapLoop] else []) @
              [GossipListenerLoop, TcpListenerLoop, GossipLoop, NatLoop],
            s\<lparr>cancelled := False, started := True\<rparr>))"

definition close_chan :: "nat \<Rightarrow> mesh \<Rightarrow> mesh" where
  "close_chan c s =
     (if chan_closed (chans s ! c) then s\<lparr>panicked := True\<rparr>
      else s\<lparr>chans := (chans s)[c := (chans s ! c)\<lparr>chan_closed := True\<rparr>]\<rparr>)"

fun close_chans :: "nat list \<Rightarrow> mesh \<Rightarrow> mesh" where
  "close_chans [] s = s"
| "close_chans (c # cs) s = close_chans cs (close_chan c s)"

fun close_topics :: "string list \<Rightarrow> mesh \<Rightarrow> mesh" where
  "close_topics [] s = s"
| "close_topics (t # ts) s =
     (let s1 = close_chans (subs_of t s) s
      in close_topics ts (s1\<lparr>subscribers := AList.delete t (subscribers s1)\<rparr>))"

fun close_peers :: "string list \<Rightarrow> mesh \<Rightarrow> mesh" where
  "close_peers [] s = s"
| "close_peers (i # is) s =
     (let s1 = close_conn (conn_of i s) s
      in close_peers is (s1\<lparr>peers := AList.delete i (peers s1)\<rparr>))"

text \<open>\<^verbatim>\<open>Stop\<close>; the argument says whether the context ends before the loops do.\<close>

definition stop :: "bool \<Rightarrow> mesh \<Rightarrow> mesh_err option \<times> mesh" where
  "stop late s =
     (if \<not> started s then (None, s)
      else
        let s1 = s\<lparr>cancelled := True, started := False\<rparr>
        in if late then (Some StopTimeout, s1)
           else
             let s2 = close_peers (map fst (peers s1)) s1
             in (None, close_topics (map fst (subscribers s2)) s2))"

section \<open>The service as a transition system\<close>

text \<open>
  What may happen to the service: the calls of its clients, the ticks of its loops, accepted
  connections, and the reads on them. A read on a connection that is closed fails.
\<close>

inductive mesh_step :: "mesh \<Rightarrow> mesh \<Rightarrow> bool" where
  step_start: "mesh_step s (snd (start s))"
| step_stop: "mesh_step s (snd (stop late s))"
| step_connect: "mesh_step s (snd (connect net now info s))"
| step_disconnect: "mesh_step s (snd (disconnect i s))"
| step_subscribe: "mesh_step s (snd (subscribe t s))"
| step_unsubscribe: "mesh_step s (unsubscribe t c s)"
| step_receive: "mesh_step s (snd (receive c s))"
| step_seen: "mesh_step s (update_peer_last_seen now i s)"
| step_health: "mesh_step s (health_tick now1 now2 s)"
| step_metrics: "mesh_step s (metrics_tick s)"
| step_gossip: "mesh_step s (snd (gossip_tick marshal reach now s))"
| step_datagram: "mesh_step s (gossip_receive unmarshal now d s)"
| step_stun: "mesh_step s (perform_stun_query answer s)"
| step_bootstrap: "a \<in> set (bootstrap s) \<Longrightarrow> mesh_step s (bootstrap_round net now a s)"
| step_accept: "mesh_step s (accept_conn hs now s)"
| step_reader_data: "r \<in> set (readers s) \<Longrightarrow> snd r \<in> set (open_conns s) \<Longrightarrow> mesh_step s (reader_data now r s)"
| step_reader_error: "r \<in> set (readers s) \<Longrightarrow> mesh_step s (reader_error r s)"

lemma nat_traversal_steps: "mesh_step\<^sup>*\<^sup>* s (nat_traversal_loop ask n s)"
proof -
  have "mesh_step\<^sup>*\<^sup>* s (fold (\<lambda>i. perform_stun_query (ask stun_server i)) is s)" for "is"
    by (induction "is" arbitrary: s) (auto intro: converse_rtranclp_into_rtranclp step_stun)
  then show ?thesis unfolding nat_traversal_loop_def .
qed

definition fresh_mesh :: "mesh \<Rightarrow> bool" where
  "fresh_mesh s \<longleftrightarrow> (\<exists>ed fresh listen boot priv. new_libp2p_service ed fresh listen boot priv = Inr s)"

section \<open>Connections and the gauge\<close>

text \<open>
  The open connections are those of the peers, each of one peer, beside one (\<open>x\<close>) that a
  call has just opened and not entered yet.
\<close>

definition tracks :: "(string \<Rightarrow> nat option) \<Rightarrow> nat set \<Rightarrow> nat option \<Rightarrow> bool" where
  "tracks f opn x \<longleftrightarrow>
     (\<forall>h. h \<in> opn \<longleftrightarrow> x = Some h \<or> (\<exists>i. f i = Some h)) \<and>
     (\<forall>i j h. f i = Some h \<longrightarrow> f j = Some h \<longrightarrow> i = j) \<and>
     (\<forall>i h. f i = Some h \<longrightarrow> x \<noteq> Some h)"

definition conns_with :: "nat option \<Rightarrow> mesh \<Rightarrow> bool" where
  "conns_with x s \<longleftrightarrow>
     distinct (map fst (peers s)) \<and> tracks (peer_conn (peers s)) (set (open_conns s)) x \<and>
     (\<forall>h \<in> set (open_conns s). h < next_conn s)"

lemma tracks_replace:
  assumes "tracks f opn x"
  shows "tracks (f(i := x)) (opn - set_option (f i)) None"
proof -
  have "h \<in> opn - set_option (f i) \<longleftrightarrow> (\<exists>j. (f(i := x)) j = Some h)" for h
  proof
    assume "h \<in> opn - set_option (f i)"
    then have "h \<in> opn" "f i \<noteq> Some h" by auto
    with assms consider "x = Some h" | j where "f j = Some h" "j \<noteq> i"
      unfolding tracks_def by metis
    then show "\<exists>j. (f(i := x)) j = Some h" by cases (auto intro: exI[of _ i])
  next
    assume "\<exists>j. (f(i := x)) j = Some h"
    with assms show "h \<in> opn - set_option (f i)"
      unfolding tracks_def by (auto split: if_splits)
  qed
  with assms show ?thesis unfolding tracks_def by (auto split: if_splits)
qed

lemma tracks_drop: "tracks f opn None \<Longrightarrow> tracks (f(i := None)) (opn - set_option (f i)) None"
  by (rule tracks_replace)

definition gauge_ok :: "mesh \<Rightarrow> bool" where
  "gauge_ok s \<longleftrightarrow> peers s = [] \<or> connected_peers (mesh_stat s) = of_nat (length (peers s))"

lemma peer_conn_simps [simp]:
  "peer_conn [] = (\<lambda>i. None)"
  "peer_conn (AList.update j p ps) = (peer_conn ps)(j := cp_conn p)"
  "peer_conn (AList.delete j ps) = (peer_conn ps)(j := None)"
  "peer_conn (AList.map_entry j (\<lambda>p. p\<lparr>last_seen := t\<rparr>) ps) = peer_conn ps"
  by (auto simp: fun_eq_iff peer_conn_def AList.update_conv' AList.delete_conv' AList.map_of_map_entry
      split: option.splits)

lemma close_conn_fields [simp]:
  "peers (close_conn h s) = peers s" "next_conn (close_conn h s) = next_conn s"
  "mesh_stat (close_conn h s) = mesh_stat s" "subscribers (close_conn h s) = subscribers s"
  "chans (close_conn h s) = chans s" "panicked (close_conn h s) = panicked s"
  "started (close_conn h s) = started s" "node_id (close_conn h s) = node_id s"
  "readers (close_conn h s) = readers s"
  "set (open_conns (close_conn h s)) = set (open_conns s) - set_option h"
  by (auto simp: close_conn_def split: option.splits)

lemma store_gauge_fields [simp]:
  "peers (store_gauge s) = peers s" "next_conn (store_gauge s) = next_conn s"
  "subscribers (store_gauge s) = subscribers s" "open_conns (store_gauge s) = open_conns s"
  "chans (store_gauge s) = chans s" "panicked (store_gauge s) = panicked s"
  "started (store_gauge s) = started s" "node_id (store_gauge s) = node_id s"
  "readers (store_gauge s) = readers s"
  "gauge_ok (store_gauge s)"
  by (simp_all add: store_gauge_def gauge_ok_def)

text \<open>What the peers and the events have to do with each other: nothing.\<close>

lemma conns_with_cong:
  "peers s' = peers s \<Longrightarrow> set (open_conns s') = set (open_conns s) \<Longrightarrow> next_conn s' = next_conn s \<Longrightarrow>
   conns_with x s' = conns_with x s"
  by (simp add: conns_with_def)

lemma conns_with_open:
  "conns_with None s \<Longrightarrow>
   conns_with (Some (next_conn s)) (s\<lparr>next_conn := Suc (next_conn s), open_conns := next_conn s # open_conns s\<rparr>)"
  by (fastforce simp: conns_with_def tracks_def less_Suc_eq)

lemma conns_with_close: "conns_with (Some h) s \<Longrightarrow> conns_with None (close_conn (Some h) s)"
  by (auto simp: conns_with_def tracks_def)

lemma dial_addrs_conns:
  "conns_with None s \<Longrightarrow> conns_with (fst (dial_addrs net as s)) (snd (dial_addrs net as s))"
proof (induction net as s rule: dial_addrs.induct)
  case (2 net a as s)
  then show ?case
    using conns_with_open[of s] conns_with_close[OF conns_with_open[of s]]
    by (auto simp: Let_def split: dial_result.splits)
qed simp

lemma dial_addrs_fields [simp]:
  "peers (snd (dial_addrs net as s)) = peers s" "mesh_stat (snd (dial_addrs net as s)) = mesh_stat s"
  "subscribers (snd (dial_addrs net as s)) = subscribers s" "chans (snd (dial_addrs net as s)) = chans s"
  "panicked (snd (dial_addrs net as s)) = panicked s" "node_id (snd (dial_addrs net as s)) = node_id s"
  "readers (snd (dial_addrs net as s)) = readers s"
  by (induction net as s rule: dial_addrs.induct) (auto simp: Let_def split: dial_result.splits)

lemma enter_peer_conns:
  assumes "conns_with c s"
  shows "conns_with None (enter_peer now info c s)"
proof -
  let ?i = "info_id info"
  let ?s1 = "close_conn (conn_of ?i s) s"
  let ?s2 = "?s1\<lparr>peers := AList.update ?i \<lparr>cp_info = info, connected_at = now, last_seen = now, cp_conn = c\<rparr> (peers ?s1)\<rparr>"
  have "tracks ((peer_conn (peers s))(?i := c)) (set (open_conns ?s2)) None"
    using tracks_replace[of "peer_conn (peers s)" _ c ?i] assms by (simp add: conns_with_def)
  then have "conns_with None ?s2"
    using assms by (simp add: conns_with_def AList.distinct_update)
  then show ?thesis
    unfolding enter_peer_def Let_def by (subst conns_with_cong[of _ ?s2]) (simp_all add: store_gauge_def)
qed

lemma disconnect_conns:
  assumes "conns_with None s"
  shows "conns_with None (snd (disconnect i s))"
proof (cases "map_of (peers s) i")
  case None
  with assms show ?thesis by (simp add: disconnect_def)
next
  case (Some p)
  let ?s1 = "close_conn (cp_conn p) s"
  let ?s2 = "?s1\<lparr>peers := AList.delete i (peers ?s1)\<rparr>"
  have p: "conn_of i s = cp_conn p"
    using Some by (simp add: peer_conn_def)
  have "tracks ((peer_conn (peers s))(i := None)) (set (open_conns ?s2)) None"
    using tracks_drop[of "peer_conn (peers s)" _ i] assms p by (simp add: conns_with_def)
  then have "conns_with None ?s2"
    using assms by (simp add: conns_with_def AList.distinct_delete)
  with Some show ?thesis
    unfolding disconnect_def by (simp add: Let_def) (subst conns_with_cong[of _ ?s2]; simp add: store_gauge_def)
qed

lemma map_of_filter_distinct:
  "distinct (map fst entries) \<Longrightarrow>
   map_of (filter keep entries) i = (case map_of entries i of None \<Rightarrow> None | Some peer \<Rightarrow> if keep (i, peer) then Some peer else None)"
  by (induction entries) (auto split: option.splits dest: map_of_SomeD intro: rev_image_eqI)

lemma health_tick_conns:
  assumes "conns_with None s"
  shows "conns_with None (health_tick t1 t2 s)"
proof -
  let ?f = "\<lambda>p. if cp_conn p \<noteq> None then p\<lparr>last_seen := t2\<rparr> else p"
  let ?seen = "map (\<lambda>(i, p). (i, ?f p)) (peers s)"
  let ?s1 = "s\<lparr>peers := filter (\<lambda>(i, p). \<not> (cp_conn p = None \<and> last_seen p < t1 - 60000000000)) ?seen\<rparr>"
  have d: "distinct (map fst ?seen)"
    using assms by (simp add: conns_with_def case_prod_unfold comp_def)
  have m: "map_of ?seen i = map_option ?f (map_of (peers s) i)" for i
    by (induction "peers s" rule: list.induct) (auto simp: map_of_map)
  have "peer_conn (peers ?s1) i = conn_of i s" for i
    using map_of_filter_distinct[OF d, of "\<lambda>(i, p). \<not> (cp_conn p = None \<and> last_seen p < t1 - 60000000000)" i]
      m[of i]
    by (auto simp: peer_conn_def split: option.splits)
  then have "peer_conn (peers ?s1) = peer_conn (peers s)" by blast
  moreover have "distinct (map fst (peers ?s1))"
    using d distinct_map_filter[of fst ?seen] by simp
  ultimately have "conns_with None ?s1"
    using assms by (simp add: conns_with_def)
  then show ?thesis
    unfolding health_tick_def Let_def by (subst conns_with_cong[of _ ?s1]) (simp_all add: store_gauge_def)
qed

section \<open>Channels\<close>

text \<open>
  Every registered channel exists, is open, is registered once, and holds at most 32 events;
  one registered for a non-empty topic holds none. No call has panicked.
\<close>

definition chans_ok :: "(string \<Rightarrow> nat list) \<Rightarrow> event_chan list \<Rightarrow> bool" where
  "chans_ok f chs \<longleftrightarrow>
     (\<forall>t. distinct (f t)) \<and>
     (\<forall>t u c. c \<in> set (f t) \<longrightarrow> c \<in> set (f u) \<longrightarrow> t = u) \<and>
     (\<forall>t. \<forall>c \<in> set (f t). c < length chs \<and> \<not> chan_closed (chs ! c) \<and> (t \<noteq> [] \<longrightarrow> chan_buf (chs ! c) = [])) \<and>
     (\<forall>ch \<in> set chs. length (chan_buf ch) \<le> 32)"

lemma chans_okD:
  "chans_ok f chs \<Longrightarrow> c \<in> set (f t) \<Longrightarrow>
   c < length chs \<and> \<not> chan_closed (chs ! c) \<and> (t \<noteq> [] \<longrightarrow> chan_buf (chs ! c) = [])"
  unfolding chans_ok_def by blast

lemma chans_okD_topic: "chans_ok f chs \<Longrightarrow> c \<in> set (f t) \<Longrightarrow> c \<in> set (f u) \<Longrightarrow> t = u"
  unfolding chans_ok_def by blast

lemma chans_ok_update:
  assumes ok: "chans_ok f chs" and ch: "chan_closed ch = chan_closed (chs ! c)" "length (chan_buf ch) \<le> 32"
    and e: "\<And>t. c \<in> set (f t) \<Longrightarrow> t \<noteq> [] \<Longrightarrow> chan_buf ch = []"
  shows "chans_ok f (chs[c := ch])"
proof -
  have "d < length (chs[c := ch]) \<and> \<not> chan_closed (chs[c := ch] ! d) \<and> (t \<noteq> [] \<longrightarrow> chan_buf (chs[c := ch] ! d) = [])"
    if "d \<in> set (f t)" for t d
    using ok ch e[of t] that by (cases "d = c") (simp_all add: chans_ok_def)
  moreover have "length (chan_buf x) \<le> 32" if "x \<in> set (chs[c := ch])" for x
    using set_update_subset_insert[of chs c ch] that ok ch by (auto simp: chans_ok_def)
  ultimately show ?thesis
    using ok by (simp add: chans_ok_def)
qed

lemma chans_ok_subs:
  assumes "chans_ok f chs" and "\<And>t. distinct (g t)" and "\<And>t. set (g t) \<subseteq> set (f t)"
  shows "chans_ok g chs"
  using assms unfolding chans_ok_def by (meson subsetD)

lemma chans_ok_new:
  assumes ok: "chans_ok f chs"
  shows "chans_ok (f(t := f t @ [length chs])) (chs @ [\<lparr>chan_buf = [], chan_closed = False\<rparr>])"
proof -
  let ?g = "f(t := f t @ [length chs])"
  let ?chs = "chs @ [\<lparr>chan_buf = [], chan_closed = False\<rparr>]"
  have less: "c < length chs" if "c \<in> set (f u)" for c u
    using ok that by (simp add: chans_ok_def)
  have "distinct (?g u)" for u
    using ok less[of "length chs" t] by (auto simp: chans_ok_def)
  moreover have "u = v" if "c \<in> set (?g u)" "c \<in> set (?g v)" for u v c
  proof (cases "c = length chs")
    case True
    with that less[of c u] less[of c v] show ?thesis by (auto split: if_splits)
  next
    case False
    with that have "c \<in> set (f u)" "c \<in> set (f v)" by (auto split: if_splits)
    with ok show ?thesis unfolding chans_ok_def by blast
  qed
  moreover have "c < length ?chs \<and> \<not> chan_closed (?chs ! c) \<and> (u \<noteq> [] \<longrightarrow> chan_buf (?chs ! c) = [])"
    if "c \<in> set (?g u)" for u c
  proof (cases "c = length chs")
    case False
    with that have c: "c \<in> set (f u)" by (auto split: if_splits)
    have "?chs ! c = chs ! c" using less[OF c] by (simp add: nth_append)
    with chans_okD[OF ok c] show ?thesis by simp
  qed simp
  moreover have "\<forall>ch \<in> set ?chs. length (chan_buf ch) \<le> 32"
    using ok by (simp add: chans_ok_def)
  ultimately show ?thesis
    unfolding chans_ok_def by blast
qed

definition events_ok :: "mesh \<Rightarrow> bool" where
  "events_ok s \<longleftrightarrow> chans_ok (\<lambda>t. subs_of t s) (chans s) \<and> \<not> panicked s"

lemma events_ok_cong:
  "subscribers s' = subscribers s \<Longrightarrow> chans s' = chans s \<Longrightarrow> panicked s' = panicked s \<Longrightarrow>
   events_ok s' = events_ok s"
  by (simp add: events_ok_def subs_of_def)

lemma subs_of_update:
  "subs_of u (s\<lparr>chans := chs, subscribers := AList.update t cs (subscribers s)\<rparr>) = (if u = t then cs else subs_of u s)"
  "subs_of u (s\<lparr>subscribers := AList.update t cs (subscribers s)\<rparr>) = (if u = t then cs else subs_of u s)"
  "subs_of u (s\<lparr>subscribers := AList.delete t (subscribers s)\<rparr>) = (if u = t then [] else subs_of u s)"
  by (simp_all add: subs_of_def AList.update_conv' AList.delete_conv')

text \<open>An event for the empty topic goes to channels of that topic only.\<close>

lemma offer_ok:
  assumes "events_ok s" and "c \<in> set (subs_of [] s)"
  shows "events_ok (offer ev c s) \<and> subscribers (offer ev c s) = subscribers s \<and>
    peers (offer ev c s) = peers s \<and> open_conns (offer ev c s) = open_conns s \<and>
    next_conn (offer ev c s) = next_conn s \<and> mesh_stat (offer ev c s) = mesh_stat s"
proof -
  have c: "c < length (chans s)" "\<not> chan_closed (chans s ! c)"
    using chans_okD[of "\<lambda>t. subs_of t s" "chans s" c "[]"] assms by (auto simp: events_ok_def)
  have e: "t = []" if "c \<in> set (subs_of t s)" for t
    using chans_okD_topic[of "\<lambda>t. subs_of t s" "chans s" c t "[]"] that assms by (simp add: events_ok_def)
  have "events_ok (offer ev c s)"
  proof (cases "length (chan_buf (chans s ! c)) < 32")
    case False
    with c assms show ?thesis by (simp add: offer_def Let_def)
  next
    case True
    let ?ch = "(chans s ! c)\<lparr>chan_buf := chan_buf (chans s ! c) @ [ev]\<rparr>"
    have "chans_ok (\<lambda>t. subs_of t s) ((chans s)[c := ?ch])"
      using assms(1) True e by (intro chans_ok_update) (auto simp: events_ok_def)
    with c True assms(1) show ?thesis by (simp add: offer_def Let_def events_ok_def subs_of_def)
  qed
  then show ?thesis
    using c by (simp add: offer_def Let_def)
qed

lemma offer_all_ok:
  "events_ok s \<Longrightarrow> set cs \<subseteq> set (subs_of [] s) \<Longrightarrow>
   events_ok (offer_all ev cs s) \<and> subscribers (offer_all ev cs s) = subscribers s \<and>
   peers (offer_all ev cs s) = peers s \<and> open_conns (offer_all ev cs s) = open_conns s \<and>
   next_conn (offer_all ev cs s) = next_conn s \<and> mesh_stat (offer_all ev cs s) = mesh_stat s"
proof (induction cs arbitrary: s)
  case (Cons c cs)
  then have "c \<in> set (subs_of [] s)" by simp
  note o = offer_ok[OF Cons.prems(1) this, of ev]
  then have "subs_of [] (offer ev c s) = subs_of [] s"
    by (simp add: subs_of_def)
  with Cons.IH[of "offer ev c s"] Cons.prems o show ?case by simp
qed simp

lemma emit_event_ok:
  "events_ok s \<Longrightarrow> events_ok (emit_event [] ev s) \<and> peers (emit_event [] ev s) = peers s \<and>
   open_conns (emit_event [] ev s) = open_conns s \<and> next_conn (emit_event [] ev s) = next_conn s \<and>
   mesh_stat (emit_event [] ev s) = mesh_stat s"
  using offer_all_ok[of s "subs_of [] s" ev] by (simp add: emit_event_def Let_def)

lemma subscribe_ok:
  assumes "events_ok s"
  shows "events_ok (snd (subscribe t s))"
  using assms chans_ok_new[of "\<lambda>t. subs_of t s" "chans s" t]
  by (simp add: subscribe_def Let_def events_ok_def subs_of_update fun_upd_def)

lemma unsubscribe_ok:
  assumes "events_ok s"
  shows "events_ok (unsubscribe t c s)"
proof -
  have "chans_ok (\<lambda>u. if u = t then remove1 c (subs_of t s) else subs_of u s) (chans s)"
  proof (rule chans_ok_subs[of "\<lambda>u. subs_of u s"])
    show "chans_ok (\<lambda>u. subs_of u s) (chans s)" using assms by (simp add: events_ok_def)
    then have "distinct (subs_of u s)" for u by (simp add: chans_ok_def)
    then show "distinct (if u = t then remove1 c (subs_of t s) else subs_of u s)" for u by simp
    show "set (if u = t then remove1 c (subs_of t s) else subs_of u s) \<subseteq> set (subs_of u s)" for u
      by (simp add: set_remove1_subset)
  qed
  with assms show ?thesis
    by (simp add: unsubscribe_def events_ok_def subs_of_update)
qed

lemma receive_ok:
  assumes "events_ok s"
  shows "events_ok (snd (receive c s))"
proof (cases "c < length (chans s) \<and> chan_buf (chans s ! c) \<noteq> []")
  case True
  then obtain ev evs where b: "chan_buf (chans s ! c) = ev # evs" by (cases "chan_buf (chans s ! c)") auto
  have "length (chan_buf (chans s ! c)) \<le> 32"
    using assms True by (simp add: events_ok_def chans_ok_def)
  moreover have "t = []" if "c \<in> set (subs_of t s)" for t
    using chans_okD[of "\<lambda>t. subs_of t s" "chans s" c t] assms that b by (auto simp: events_ok_def)
  ultimately have "chans_ok (\<lambda>t. subs_of t s) ((chans s)[c := (chans s ! c)\<lparr>chan_buf := evs\<rparr>])"
    using assms b by (intro chans_ok_update) (auto simp: events_ok_def)
  with True b assms show ?thesis by (simp add: receive_def events_ok_def subs_of_def)
qed (use assms in \<open>auto simp: receive_def split: list.splits\<close>)

lemma close_chan_open:
  "\<not> chan_closed (chans s ! c) \<Longrightarrow>
   close_chan c s = s\<lparr>chans := (chans s)[c := (chans s ! c)\<lparr>chan_closed := True\<rparr>]\<rparr>"
  by (simp add: close_chan_def)

lemma close_chans_open:
  "distinct cs \<Longrightarrow> \<forall>c \<in> set cs. c < length (chans s) \<and> \<not> chan_closed (chans s ! c) \<Longrightarrow>
   \<exists>chs. close_chans cs s = s\<lparr>chans := chs\<rparr> \<and> length chs = length (chans s) \<and>
     (\<forall>d. d \<notin> set cs \<longrightarrow> chs ! d = chans s ! d) \<and>
     (\<forall>ch \<in> set chs. \<exists>ch' \<in> set (chans s). chan_buf ch = chan_buf ch')"
proof (induction cs arbitrary: s)
  case Nil
  show ?case by (rule exI[of _ "chans s"]) auto
next
  case (Cons c cs)
  let ?s1 = "s\<lparr>chans := (chans s)[c := (chans s ! c)\<lparr>chan_closed := True\<rparr>]\<rparr>"
  have c: "c < length (chans s)" and one: "close_chan c s = ?s1"
    using Cons.prems by (auto simp: close_chan_open)
  have "\<forall>d \<in> set cs. d < length (chans ?s1) \<and> \<not> chan_closed (chans ?s1 ! d)"
    using Cons.prems by (auto simp: nth_list_update)
  then obtain chs where chs: "close_chans cs ?s1 = ?s1\<lparr>chans := chs\<rparr>" "length chs = length (chans s)"
    "\<And>d. d \<notin> set cs \<Longrightarrow> chs ! d = chans ?s1 ! d"
    "\<And>ch. ch \<in> set chs \<Longrightarrow> \<exists>ch' \<in> set (chans ?s1). chan_buf ch = chan_buf ch'"
    using Cons.IH[of ?s1] Cons.prems(1) by auto
  have "\<exists>ch' \<in> set (chans s). chan_buf ch = chan_buf ch'" if "ch \<in> set chs" for ch
  proof -
    from chs(4)[OF that] obtain x where x: "x \<in> set (chans ?s1)" "chan_buf ch = chan_buf x" by blast
    then consider "x \<in> set (chans s)" | "x = (chans s ! c)\<lparr>chan_closed := True\<rparr>"
      using set_update_subset_insert[of "chans s" c] by auto
    then show ?thesis
      using x(2) c by cases auto
  qed
  moreover have "chs ! d = chans s ! d" if "d \<notin> set (c # cs)" for d
    using chs(3)[of d] that by simp
  ultimately show ?case
    using chs one by (intro exI[of _ chs]) simp
qed

lemma close_topic_ok:
  assumes ok: "events_ok s"
  shows "events_ok ((close_chans (subs_of t s) s)\<lparr>subscribers := AList.delete t (subscribers s)\<rparr>) \<and>
    (\<exists>chs. close_chans (subs_of t s) s = s\<lparr>chans := chs\<rparr>)"
proof -
  have o: "chans_ok (\<lambda>u. subs_of u s) (chans s)" "\<not> panicked s"
    using ok by (auto simp: events_ok_def)
  have d: "distinct (subs_of t s)" using o(1) by (simp add: chans_ok_def)
  obtain chs where chs: "close_chans (subs_of t s) s = s\<lparr>chans := chs\<rparr>" "length chs = length (chans s)"
    "\<And>d. d \<notin> set (subs_of t s) \<Longrightarrow> chs ! d = chans s ! d"
    "\<And>ch. ch \<in> set chs \<Longrightarrow> \<exists>ch' \<in> set (chans s). chan_buf ch = chan_buf ch'"
    using close_chans_open[OF d, of s] chans_okD[OF o(1)] by blast
  let ?g = "\<lambda>u. if u = t then [] else subs_of u s"
  have g: "chans_ok ?g (chans s)"
    using o(1) by (rule chans_ok_subs) (use o(1) in \<open>auto simp: chans_ok_def\<close>)
  have "chs ! c = chans s ! c" if "c \<in> set (?g u)" for c u
    using chs(3)[of c] chans_okD_topic[OF o(1), of c t u] that by (auto split: if_splits)
  then have "c < length chs \<and> \<not> chan_closed (chs ! c) \<and> (u \<noteq> [] \<longrightarrow> chan_buf (chs ! c) = [])"
    if "c \<in> set (?g u)" for c u
    using chans_okD[OF g that] chs(2) that by auto
  moreover have "length (chan_buf ch) \<le> 32" if "ch \<in> set chs" for ch
    using chs(4)[OF that] o(1) by (auto simp: chans_ok_def)
  ultimately have "chans_ok ?g chs"
    using g unfolding chans_ok_def by blast
  then show ?thesis
    using chs(1) o(2) unfolding events_ok_def
    by (auto simp: subs_of_def AList.delete_conv' fun_upd_def if_distrib cong: if_cong)
qed

lemma close_topics_ok:
  "events_ok s \<Longrightarrow> events_ok (close_topics ts s) \<and> peers (close_topics ts s) = peers s \<and>
   open_conns (close_topics ts s) = open_conns s \<and> next_conn (close_topics ts s) = next_conn s"
proof (induction ts arbitrary: s)
  case (Cons t ts)
  from close_topic_ok[OF Cons.prems, of t] obtain chs where
    "close_chans (subs_of t s) s = s\<lparr>chans := chs\<rparr>"
    "events_ok (s\<lparr>chans := chs, subscribers := AList.delete t (subscribers s)\<rparr>)"
    by auto
  with Cons.IH[of "s\<lparr>chans := chs, subscribers := AList.delete t (subscribers s)\<rparr>"] show ?case
    by (simp add: Let_def)
qed simp

lemma close_peers_ok:
  "conns_with None s \<Longrightarrow> conns_with None (close_peers is s) \<and> events_ok (close_peers is s) = events_ok s \<and>
   peers (close_peers is s) = filter (\<lambda>p. fst p \<notin> set is) (peers s)"
proof (induction "is" arbitrary: s)
  case (Cons i js)
  let ?s1 = "close_conn (conn_of i s) s"
  let ?s2 = "?s1\<lparr>peers := AList.delete i (peers ?s1)\<rparr>"
  have "tracks ((peer_conn (peers s))(i := None)) (set (open_conns ?s2)) None"
    using tracks_drop[of "peer_conn (peers s)" _ i] Cons.prems by (simp add: conns_with_def)
  then have "conns_with None ?s2"
    using Cons.prems by (simp add: conns_with_def AList.distinct_delete)
  moreover have "events_ok ?s2 = events_ok s"
    by (rule events_ok_cong) simp_all
  moreover have "filter (\<lambda>p. fst p \<notin> set js) (AList.delete i (peers s)) =
      filter (\<lambda>p. fst p \<notin> set (i # js)) (peers s)"
    by (auto simp: AList.delete_eq intro: filter_cong)
  ultimately show ?case
    using Cons.IH[of ?s2] by (simp add: Let_def)
qed simp

section \<open>The invariant\<close>

definition mesh_inv :: "mesh \<Rightarrow> bool" where
  "mesh_inv s \<longleftrightarrow> conns_with None s \<and> gauge_ok s \<and> events_ok s"

lemma mesh_inv_cong:
  "peers s' = peers s \<Longrightarrow> set (open_conns s') = set (open_conns s) \<Longrightarrow> next_conn s' = next_conn s \<Longrightarrow>
   connected_peers (mesh_stat s') = connected_peers (mesh_stat s) \<Longrightarrow> subscribers s' = subscribers s \<Longrightarrow>
   chans s' = chans s \<Longrightarrow> panicked s' = panicked s \<Longrightarrow> mesh_inv s' = mesh_inv s"
  using conns_with_cong[of s' s None] events_ok_cong[of s' s] by (simp add: mesh_inv_def gauge_ok_def)

lemma emit_event_inv: "mesh_inv s \<Longrightarrow> mesh_inv (emit_event [] ev s)"
  using emit_event_ok[of s ev] conns_with_cong[of "emit_event [] ev s" s None]
  by (simp add: mesh_inv_def gauge_ok_def)

lemma enter_peer_fields [simp]:
  "subscribers (enter_peer t info c s) = subscribers s" "chans (enter_peer t info c s) = chans s"
  "panicked (enter_peer t info c s) = panicked s" "gauge_ok (enter_peer t info c s)"
  by (simp_all add: enter_peer_def Let_def)

lemma connect_inv:
  assumes "mesh_inv s"
  shows "mesh_inv (snd (connect net t info s))"
proof -
  let ?d = "dial_addrs net (info_addrs info) s"
  let ?s2 = "enter_peer t info (fst ?d) (snd ?d)"
  let ?s3 = "?s2\<lparr>mesh_stat := (mesh_stat ?s2)\<lparr>discovered_peers := discovered_peers (mesh_stat ?s2) + 1\<rparr>\<rparr>"
  have "conns_with None ?s2"
    using enter_peer_conns[OF dial_addrs_conns[of s net "info_addrs info"]] assms by (simp add: mesh_inv_def)
  moreover have "events_ok ?s2"
    using events_ok_cong[of ?s2 s] assms by (simp add: mesh_inv_def)
  ultimately have "mesh_inv ?s2" by (simp add: mesh_inv_def)
  then have "mesh_inv ?s3"
    by (subst mesh_inv_cong[of _ ?s2]) simp_all
  with assms show ?thesis
    by (simp add: connect_def Let_def case_prod_unfold emit_event_inv)
qed

lemma disconnect_inv: "mesh_inv s \<Longrightarrow> mesh_inv (snd (disconnect i s))"
  using disconnect_conns[of s i] events_ok_cong[of "snd (disconnect i s)" s]
  by (auto simp: mesh_inv_def disconnect_def Let_def split: option.splits)

lemma last_seen_inv: "mesh_inv s \<Longrightarrow> mesh_inv (update_peer_last_seen t i s)"
proof -
  have "length (AList.map_entry i f ps) = length ps" for f and ps :: "(string \<times> connected_peer) list"
    by (induction ps) auto
  moreover assume "mesh_inv s"
  ultimately show ?thesis
    using events_ok_cong[of "update_peer_last_seen t i s" s]
    by (auto simp: mesh_inv_def conns_with_def gauge_ok_def update_peer_last_seen_def AList.distinct_map_entry)
qed

lemma discover_inv: "mesh_inv s \<Longrightarrow> mesh_inv (foldl (\<lambda>s a. discover_addr a s) s as)"
  by (induction "as" arbitrary: s) (simp_all add: discover_addr_def emit_event_inv)

lemma gossip_receive_inv: "mesh_inv s \<Longrightarrow> mesh_inv (gossip_receive um t d s)"
proof -
  assume s: "mesh_inv s"
  have "mesh_inv (s\<lparr>mesh_stat := (mesh_stat s)\<lparr>messages_relayed := a, bytes_relayed := b\<rparr>\<rparr>)" for a b
    using s by (subst mesh_inv_cong[of _ s]) simp_all
  then show ?thesis
    using s by (auto simp: gossip_receive_def Let_def last_seen_inv intro!: discover_inv split: option.splits)
qed

lemma accept_inv:
  assumes "mesh_inv s"
  shows "mesh_inv (accept_conn hs t s)"
proof -
  let ?s1 = "s\<lparr>next_conn := Suc (next_conn s), open_conns := next_conn s # open_conns s\<rparr>"
  have o: "conns_with (Some (next_conn s)) ?s1" and e: "events_ok ?s1"
    using assms conns_with_open[of s] events_ok_cong[of ?s1 s] by (auto simp: mesh_inv_def)
  show ?thesis
  proof (cases hs)
    case None
    have "mesh_inv (close_conn (Some (next_conn s)) ?s1)"
      using conns_with_close[OF o] events_ok_cong[of "close_conn (Some (next_conn s)) ?s1" ?s1] e assms
      by (simp add: mesh_inv_def gauge_ok_def)
    with None show ?thesis by (simp add: accept_conn_def Let_def)
  next
    case (Some key)
    let ?info = "\<lparr>info_id = hex_encode (take (min 16 (length key)) key), info_public_key = [], info_addrs = []\<rparr>"
    let ?s2 = "enter_peer t ?info (Some (next_conn s)) ?s1"
    have "mesh_inv ?s2"
      using enter_peer_conns[OF o] events_ok_cong[of ?s2 ?s1] e by (simp add: mesh_inv_def)
    then have "mesh_inv (?s2\<lparr>readers := r\<rparr>)" for r
      by (subst mesh_inv_cong[of _ ?s2]) simp_all
    with Some show ?thesis by (simp add: accept_conn_def Let_def)
  qed
qed

lemma stop_inv:
  assumes "mesh_inv s"
  shows "mesh_inv (snd (stop late s))"
proof -
  let ?s1 = "s\<lparr>cancelled := True, started := False\<rparr>"
  have s1: "mesh_inv ?s1"
    using assms by (subst mesh_inv_cong[of _ s]) simp_all
  let ?s2 = "close_peers (map fst (peers s)) ?s1"
  have c: "conns_with None ?s2" "events_ok ?s2" "peers ?s2 = []"
    using close_peers_ok[of ?s1 "map fst (peers s)"] s1 by (auto simp: mesh_inv_def filter_empty_conv)
  let ?s3 = "close_topics (map fst (subscribers ?s2)) ?s2"
  have "mesh_inv ?s3"
    using close_topics_ok[OF c(2)] c conns_with_cong[of ?s3 ?s2 None] by (simp add: mesh_inv_def gauge_ok_def)
  with s1 assms show ?thesis by (simp add: stop_def Let_def)
qed

lemma mesh_step_inv: "mesh_step s t \<Longrightarrow> mesh_inv s \<Longrightarrow> mesh_inv t"
proof (induction rule: mesh_step.induct)
  case (step_start s)
  then show ?case by (subst mesh_inv_cong[of _ s]) (simp_all add: start_def)
next
  case (step_subscribe s t)
  then show ?case
    using subscribe_ok[of s t] conns_with_cong[of "snd (subscribe t s)" s None]
    by (auto simp: mesh_inv_def gauge_ok_def subscribe_def Let_def)
next
  case (step_unsubscribe s t c)
  then show ?case
    using unsubscribe_ok[of s t c] conns_with_cong[of "unsubscribe t c s" s None]
    by (auto simp: mesh_inv_def gauge_ok_def unsubscribe_def)
next
  case (step_receive s c)
  then show ?case
    using receive_ok[of s c] conns_with_cong[of "snd (receive c s)" s None]
    by (auto simp: mesh_inv_def gauge_ok_def receive_def split: list.splits)
next
  case (step_health s t1 t2)
  then show ?case
    using health_tick_conns[of s t1 t2] events_ok_cong[of "health_tick t1 t2 s" s]
    by (simp add: mesh_inv_def health_tick_def Let_def)
next
  case (step_metrics s)
  then show ?case by (subst mesh_inv_cong[of _ s]) (simp_all add: metrics_tick_def)
next
  case (step_gossip s marshal reach now)
  then show ?case by (subst mesh_inv_cong[of _ s]) (simp_all add: gossip_tick_def Let_def)
next
  case (step_stun s answer)
  then show ?case
    by (subst mesh_inv_cong[of _ s]) (auto simp: perform_stun_query_def Let_def split: option.splits)
next
  case (step_bootstrap a s net now)
  let ?info = "\<lparr>info_id = ''bootstrap-'' @ a, info_public_key = [], info_addrs = [a]\<rparr>"
  let ?c = "connect net now ?info s"
  have "mesh_inv (snd ?c)" using step_bootstrap by (simp add: connect_inv)
  then have "mesh_inv ((snd ?c)\<lparr>mesh_stat := (mesh_stat (snd ?c))\<lparr>mesh_errors := e\<rparr>\<rparr>)" for e
    by (subst mesh_inv_cong[of _ "snd ?c"]) simp_all
  with step_bootstrap \<open>mesh_inv (snd ?c)\<close> show ?case
    by (auto simp: bootstrap_round_def case_prod_unfold split: option.splits)
next
  case (step_reader_error r s)
  then have "mesh_inv (s\<lparr>readers := remove1 r (readers s)\<rparr>)"
    by (subst mesh_inv_cong[of _ s]) simp_all
  then show ?case by (simp add: reader_error_def disconnect_inv)
qed (simp_all add: stop_inv connect_inv disconnect_inv last_seen_inv gossip_receive_inv accept_inv reader_data_def)

lemma fresh_mesh_inv: "fresh_mesh s \<Longrightarrow> mesh_inv s"
  by (auto simp: fresh_mesh_def new_libp2p_service_def Let_def mesh_inv_def conns_with_def tracks_def
      gauge_ok_def events_ok_def chans_ok_def subs_of_def split: if_splits option.splits)

interpretation mesh_ts: transition_system fresh_mesh mesh_step mesh_inv
  by unfold_locales (auto intro: fresh_mesh_inv mesh_step_inv)

section \<open>Properties\<close>

text \<open>
  C14. In every state the service can reach, whatever its clients, its loops and the network
  do: no call has sent on or closed a closed channel; the connections it holds open are
  exactly those of its peers, each of one peer, so none leaks; the gauge of connected peers
  is their number unless there are none; a subscriber channel never holds more than 32
  events; and no event ever reaches a subscriber of a non-empty topic.
\<close>

theorem mesh_reachable_ok:
  assumes "fresh_mesh s0" and "mesh_step\<^sup>*\<^sup>* s0 s"
  shows "\<not> panicked s \<and> distinct (map fst (peers s)) \<and>
    (h \<in> set (open_conns s) \<longleftrightarrow> (\<exists>i. conn_of i s = Some h)) \<and>
    (conn_of i s = Some h \<longrightarrow> conn_of j s = Some h \<longrightarrow> i = j) \<and>
    (peers s = [] \<or> connected_peers (mesh_stat s) = of_nat (length (peers s))) \<and>
    (c \<in> set (subs_of t s) \<longrightarrow> length (chan_buf (chans s ! c)) \<le> 32 \<and> \<not> chan_closed (chans s ! c) \<and>
       (t \<noteq> [] \<longrightarrow> chan_buf (chans s ! c) = []))"
proof -
  have inv: "conns_with None s" "gauge_ok s" "chans_ok (\<lambda>t. subs_of t s) (chans s)" "\<not> panicked s"
    using mesh_ts.inv_reachable[OF assms] by (auto simp: mesh_inv_def events_ok_def)
  have "length (chan_buf (chans s ! c)) \<le> 32" if "c \<in> set (subs_of t s)"
    using chans_okD[OF inv(3) that] inv(3) by (simp add: chans_ok_def)
  with inv chans_okD[OF inv(3), of c t] show ?thesis
    unfolding conns_with_def tracks_def gauge_ok_def by blast
qed

definition sample_mesh :: mesh where
  "sample_mesh = \<lparr>listen_addrs = [], bootstrap = [], node_id = hex_encode (replicate 16 7),
     public_key = replicate 32 7, mesh_stat = zero_mesh_stats, peers = [], subscribers = [], chans = [],
     started = False, cancelled = False, open_conns = [], next_conn = 0, readers = [], panicked = False\<rparr>"

lemma sample_fresh: "fresh_mesh sample_mesh"
  unfolding fresh_mesh_def
  by (rule exI[of _ id], rule exI[of _ "Some (replicate 32 7)"], rule exI[of _ "[]"], rule exI[of _ "[]"],
      rule exI[of _ "[]"]) (simp add: new_libp2p_service_def sample_mesh_def Let_def)

theorem mesh_reachable_ok_witness:
  "\<not> panicked (snd (stop False (snd (connect (\<lambda>a. Secured) 5
      \<lparr>info_id = ''p'', info_public_key = [], info_addrs = [''a'']\<rparr>
      (snd (subscribe ''t'' (snd (start sample_mesh))))))))"
proof -
  let ?s1 = "snd (start sample_mesh)"
  let ?s2 = "snd (subscribe ''t'' ?s1)"
  let ?s3 = "snd (connect (\<lambda>a. Secured) 5 \<lparr>info_id = ''p'', info_public_key = [], info_addrs = [''a'']\<rparr> ?s2)"
  have 1: "mesh_step\<^sup>*\<^sup>* sample_mesh ?s1" by (rule r_into_rtranclp, rule step_start)
  have 2: "mesh_step\<^sup>*\<^sup>* sample_mesh ?s2" by (rule rtranclp.rtrancl_into_rtrancl, rule 1, rule step_subscribe)
  have 3: "mesh_step\<^sup>*\<^sup>* sample_mesh ?s3" by (rule rtranclp.rtrancl_into_rtrancl, rule 2, rule step_connect)
  have "mesh_step\<^sup>*\<^sup>* sample_mesh (snd (stop False ?s3))"
    by (rule rtranclp.rtrancl_into_rtrancl, rule 3, rule step_stop)
  from mesh_reachable_ok[OF sample_fresh this] show ?thesis by blast
qed

text \<open>
  When a peer connects again, its first connection is closed and its goroutine gets an
  error; that goroutine then removes the peer by its identifier, and closes the second
  connection with it: the peer that has just connected is no longer in the mesh.
\<close>

theorem reconnect_is_dropped:
  "let i = hex_encode (take (min 16 (length key)) key);
       s1 = accept_conn (Some key) t1 s; s2 = accept_conn (Some key) t2 s1;
       s3 = reader_error (i, next_conn s) s2
   in conn_of i s2 = Some (next_conn s1) \<and> next_conn s1 \<in> set (open_conns s2) \<and>
      (i, next_conn s) \<in> set (readers s2) \<and> next_conn s \<notin> set (open_conns s2) \<and>
      map_of (peers s3) i = None \<and> next_conn s1 \<notin> set (open_conns s3)"
proof -
  let ?i = "hex_encode (take (min 16 (length key)) key)"
  let ?s1 = "accept_conn (Some key) t1 s" and ?s2 = "accept_conn (Some key) t2 (accept_conn (Some key) t1 s)"
  have 1: "next_conn ?s1 = Suc (next_conn s)" "conn_of ?i ?s1 = Some (next_conn s)"
    "readers ?s1 = (?i, next_conn s) # readers s"
    by (simp_all add: accept_conn_def enter_peer_def Let_def)
  obtain p where p: "map_of (peers ?s2) ?i = Some p" "cp_conn p = Some (Suc (next_conn s))"
    by (simp add: accept_conn_def enter_peer_def Let_def AList.update_conv')
  have 2: "conn_of ?i ?s2 = Some (Suc (next_conn s))" "set (open_conns ?s2) =
      insert (Suc (next_conn s)) (set (open_conns ?s1)) - {next_conn s}"
    "(?i, next_conn s) \<in> set (readers ?s2)"
    using 1 by (simp_all add: accept_conn_def[of _ t2] enter_peer_def Let_def)
  have "map_of (peers (reader_error (?i, next_conn s) ?s2)) ?i = None \<and>
      Suc (next_conn s) \<notin> set (open_conns (reader_error (?i, next_conn s) ?s2))"
    using p by (simp add: reader_error_def disconnect_def Let_def AList.delete_conv')
  with 1 2 show ?thesis by (simp add: Let_def)
qed

lemma dial_addrs_conn: "(fst (dial_addrs net as s) \<noteq> None) = (\<exists>a \<in> set as. net a = Secured)"
  by (induction net as s rule: dial_addrs.induct) (auto simp: Let_def split: dial_result.splits)

lemma offer_all_peers: "peers (offer_all ev cs s) = peers s"
  by (induction cs arbitrary: s) (simp_all add: offer_def Let_def)

lemma connect_enters:
  assumes "started s"
  shows "fst (connect net now info s) = (if info_id info = node_id s then Some ErrSelfConnect else None) \<and>
    (info_id info \<noteq> node_id s \<longrightarrow>
       (\<exists>p. map_of (peers (snd (connect net now info s))) (info_id info) = Some p \<and> cp_info p = info \<and>
          ((cp_conn p \<noteq> None) = (\<exists>a \<in> set (info_addrs info). net a = Secured))))"
  using assms dial_addrs_conn[of net "info_addrs info" s]
  by (auto simp: connect_def Let_def case_prod_unfold emit_event_def offer_all_peers enter_peer_def
      AList.update_conv')

text \<open>
  C30. \<^verbatim>\<open>Connect\<close> succeeds on a started service for every peer but the node itself, even if
  none of its addresses answers: the peer is entered, with a connection exactly if one of
  its addresses can be dialled and passes the handshake.
\<close>

theorem connect_outcome:
  assumes "started s"
  shows "fst (connect net now info s) = (if info_id info = node_id s then Some ErrSelfConnect else None) \<and>
    (info_id info \<noteq> node_id s \<longrightarrow>
       (\<exists>p. map_of (peers (snd (connect net now info s))) (info_id info) = Some p \<and> cp_info p = info \<and>
          ((cp_conn p \<noteq> None) = (\<exists>a \<in> set (info_addrs info). net a = Secured))))"
  by (rule connect_enters[OF assms])

theorem connect_outcome_witness:
  "fst (connect (\<lambda>a. DialFailed) 5 \<lparr>info_id = ''p'', info_public_key = [], info_addrs = [''a'']\<rparr>
     (sample_mesh\<lparr>started := True\<rparr>)) = None"
proof -
  have n: "(''p'' = node_id sample_mesh) = False" by code_simp
  show ?thesis
    using connect_outcome[of "sample_mesh\<lparr>started := True\<rparr>" "\<lambda>a. DialFailed" 5
        "\<lparr>info_id = ''p'', info_public_key = [], info_addrs = [''a'']\<rparr>"] n
    by simp
qed

end
