(* ===== verification/Stun.thy ===== *)
theory Stun
  imports GoNet
begin

text \<open>
  \<^verbatim>\<open>mesh/nat_traversal.go\<close>: the STUN client. What comes of talking to a server (and the
  local address of the socket used) is an argument; sockets are numbered by the server they
  were opened for, and the operations return which are still open.
\<close>

section \<open>Types\<close>

datatype nat_type = NATUnknown | NATNone | NATFull | NATRestricted | NATPortRestricted | NATSymmetric

definition nat_type_string :: "nat_type \<Rightarrow> string" where
  "nat_type_string n =
     (case n of
        NATNone \<Rightarrow> ''No NAT (Public IP)''
      | NATFull \<Rightarrow> ''Full Cone NAT''
      | NATRestricted \<Rightarrow> ''Restricted Cone NAT''
      | NATPortRestricted \<Rightarrow> ''Port-Restricted Cone NAT''
      | NATSymmetric \<Rightarrow> ''Symmetric NAT''
      | _ \<Rightarrow> ''Unknown'')"

record nat_result =
  nat_kind :: nat_type
  public_addr :: string
  local_addr :: string
  mapping_stable :: bool

datatype stun_err =
  ResolveServer | DialServer | SendRequest | ReadResponse | ResponseTooShort
| UnexpectedType "16 word" | MessageTooShort | LengthMismatch | NoMappedAddress
| AttrTooShort | UnsupportedFamily byte | AllUnreachable

definition stun_binding_request :: "16 word" where "stun_binding_request = 0x0001"
definition stun_binding_response :: "16 word" where "stun_binding_response = 0x0101"
definition stun_magic_cookie :: bytes where "stun_magic_cookie = [0x21, 0x12, 0xA4, 0x42]"
definition stun_attr_mapped :: "16 word" where "stun_attr_mapped = 0x0001"
definition stun_attr_xor_mapped :: "16 word" where "stun_attr_xor_mapped = 0x0020"

definition new_stun_client :: "string list \<Rightarrow> string list" where
  "new_stun_client servers =
     (if servers = []
      then [''stun.l.google.com:19302'', ''stun1.l.google.com:19302'', ''stun.cloudflare.com:3478'']
      else servers)"

section \<open>Parsing a response\<close>

text \<open>\<^verbatim>\<open>stunMagicCookie >> 16\<close> is 0x2112.\<close>

definition parse_xor_mapped :: "bytes \<Rightarrow> bytes \<Rightarrow> stun_err + string" where
  "parse_xor_mapped data cookie =
     (if length data < 8 then Inl AttrTooShort
      else
        let family = data ! 1;
            port = be16 (data ! 2) (data ! 3) XOR 0x2112
        in if family = 1
           then Inr (sprintf_host_port
                  (ip_string (map (\<lambda>i. data ! (4 + i) XOR cookie ! i) [0, 1, 2, 3])) (unat port))
           else Inl (UnsupportedFamily family))"

definition parse_mapped :: "bytes \<Rightarrow> stun_err + string" where
  "parse_mapped data =
     (if length data < 8 then Inl AttrTooShort
      else
        let family = data ! 1;
            port = be16 (data ! 2) (data ! 3)
        in if family = 1
           then Inr (sprintf_host_port (ip_string (take 4 (drop 4 data))) (unat port))
           else Inl (UnsupportedFamily family))"

text \<open>The loop over the attributes; \<open>stop\<close> is \<^verbatim>\<open>int(msgLen)+20\<close>.\<close>

function parse_attrs :: "bytes \<Rightarrow> nat \<Rightarrow> nat \<Rightarrow> stun_err + string" where
  "parse_attrs msg stop offset =
     (if \<not> offset < stop then Inl NoMappedAddress
      else if offset + 4 > length msg then Inl NoMappedAddress
      else
        let attr_type = be16 (msg ! offset) (msg ! (offset + 1));
            attr_len = unat (be16 (msg ! (offset + 2)) (msg ! (offset + 3)));
            o1 = offset + 4
        in if o1 + attr_len > length msg then Inl NoMappedAddress
           else
             let data = take attr_len (drop o1 msg)
             in if attr_type = stun_attr_xor_mapped
                then parse_xor_mapped data (take 4 (drop 4 msg))
                else if attr_type = stun_attr_mapped then parse_mapped data
                else
                  let o2 = o1 + attr_len;
                      o3 = (if o2 mod 4 \<noteq> 0 then o2 + (4 - o2 mod 4) else o2)
                  in parse_attrs msg stop o3)"
  by pat_completeness auto
termination
  by (relation "measure (\<lambda>(msg, stop, offset). stop - offset)") auto

declare parse_attrs.simps [simp del]

definition parse_address :: "bytes \<Rightarrow> stun_err + string" where
  "parse_address msg =
     (if length msg < 20 then Inl MessageTooShort
      else
        let msg_len = unat (be16 (msg ! 2) (msg ! 3))
        in if msg_len + 20 > length msg then Inl LengthMismatch
           else parse_attrs msg (msg_len + 20) 20)"

section \<open>Talking to the servers\<close>

text \<open>\<^verbatim>\<open>copy(txID, []byte("airbridge5gxx"))\<close> keeps 12 bytes.\<close>

definition binding_request :: bytes where
  "binding_request =
     put16 stun_binding_request @ put16 0 @ stun_magic_cookie @ take 12 (bytes_of_str ''airbridge5gxx'')"

text \<open>How far the exchange with a server gets; a response is cut to the buffer of 1024 bytes.\<close>

datatype exchange = NoResolve | NoDial | NoSend | NoReply | Reply bytes

text \<open>The address, or the error; the socket is open afterwards exactly on success.\<close>

definition send_binding_request :: "exchange \<Rightarrow> stun_err + string" where
  "send_binding_request x =
     (case x of
        NoResolve \<Rightarrow> Inl ResolveServer
      | NoDial \<Rightarrow> Inl DialServer
      | NoSend \<Rightarrow> Inl SendRequest
      | NoReply \<Rightarrow> Inl ReadResponse
      | Reply response \<Rightarrow>
          (let buf = take 1024 response
           in if length buf < 20 then Inl ResponseTooShort
              else
                let msg_type = be16 (buf ! 0) (buf ! 1)
                in if msg_type \<noteq> stun_binding_response then Inl (UnexpectedType msg_type)
                   else parse_address buf))"

record discovery =
  first_addr :: string
  last_conn :: "nat option"
  open_socks :: "nat list"
  disc_result :: nat_result

text \<open>One round of the loop over the servers, with its index.\<close>

definition discover_round :: "exchange \<times> string \<Rightarrow> nat \<Rightarrow> discovery \<Rightarrow> discovery" where
  "discover_round x i d =
     (case send_binding_request (fst x) of
        Inl e \<Rightarrow> d
      | Inr addr \<Rightarrow>
          (let d1 = d\<lparr>open_socks := i # (case last_conn d of None \<Rightarrow> open_socks d
                                          | Some c \<Rightarrow> removeAll c (open_socks d)),
                      last_conn := Some i\<rparr>
           in if i = 0
              then d1\<lparr>first_addr := addr,
                      disc_result := (disc_result d1)\<lparr>public_addr := addr, local_addr := snd x\<rparr>\<rparr>
              else if addr \<noteq> first_addr d1
              then d1\<lparr>disc_result := (disc_result d1)\<lparr>nat_kind := NATSymmetric, mapping_stable := False\<rparr>\<rparr>
              else d1\<lparr>disc_result := (disc_result d1)\<lparr>mapping_stable := True\<rparr>\<rparr>))"

fun discover_loop :: "(exchange \<times> string) list \<Rightarrow> nat \<Rightarrow> discovery \<Rightarrow> discovery" where
  "discover_loop [] i d = d"
| "discover_loop (x # xs) i d = discover_loop xs (Suc i) (discover_round x i d)"

definition discover_public_address :: "(exchange \<times> string) list \<Rightarrow> (stun_err + nat_result) \<times> nat list" where
  "discover_public_address xs =
     (let d = discover_loop xs 0
            \<lparr>first_addr = [], last_conn = None, open_socks = [],
             disc_result = \<lparr>nat_kind = NATUnknown, public_addr = [], local_addr = [], mapping_stable = False\<rparr>\<rparr>;
          socks = (case last_conn d of None \<Rightarrow> open_socks d | Some c \<Rightarrow> removeAll c (open_socks d));
          r = disc_result d
      in if public_addr r = [] then (Inl AllUnreachable, socks)
         else
           (Inr (if nat_kind r \<noteq> NATSymmetric
                 then (if public_addr r = local_addr r then r\<lparr>nat_kind := NATNone\<rparr>
                       else if mapping_stable r then r\<lparr>nat_kind := NATFull\<rparr>
                       else r)
                 else r), socks))"

section \<open>Hole punching\<close>

datatype punch_err = ResolvePeer | ListenPunch | PunchCancelled | PunchTimeout

text \<open>
  Up to five packets, 200 ms apart, unless the context is cancelled before one of them (the
  argument says before which), then a wait for an answer. Returned are the packets sent.
\<close>

definition hole_punch ::
  "bool \<Rightarrow> bool \<Rightarrow> nat option \<Rightarrow> bool \<Rightarrow> (punch_err + unit) \<times> bytes list" where
  "hole_punch resolves listens cancelled_at answered =
     (if \<not> resolves then (Inl ResolvePeer, [])
      else if \<not> listens then (Inl ListenPunch, [])
      else
        let msg = bytes_of_str ''AIRBRIDGE_PUNCH''
        in case cancelled_at of
             Some k \<Rightarrow> if k < 5 then (Inl PunchCancelled, replicate k msg)
                       else (if answered then Inr () else Inl PunchTimeout, replicate 5 msg)
           | None \<Rightarrow> (if answered then Inr () else Inl PunchTimeout, replicate 5 msg))"

section \<open>The responses of a server\<close>

text \<open>
  A binding response as RFC 5389 lays it out: the header with the length of the attributes,
  the magic cookie and a transaction id, then the attributes, each padded to four bytes. The
  mapped address is masked with the cookie.
\<close>

definition pad4 :: "nat \<Rightarrow> nat" where
  "pad4 n = (if n mod 4 \<noteq> 0 then 4 - n mod 4 else 0)"

definition encode_attr :: "16 word \<times> bytes \<Rightarrow> bytes" where
  "encode_attr a = put16 (fst a) @ put16 (of_nat (length (snd a))) @ snd a @ replicate (pad4 (length (snd a))) 0"

definition xor_address :: "bytes \<Rightarrow> 16 word \<Rightarrow> bytes" where
  "xor_address ip port = [0, 1] @ put16 (port XOR 0x2112) @ map2 (XOR) ip stun_magic_cookie"

definition response :: "bytes \<Rightarrow> (16 word \<times> bytes) list \<Rightarrow> bytes" where
  "response txid attrs =
     (let body = concat (map encode_attr attrs)
      in put16 stun_binding_response @ put16 (of_nat (length body)) @ stun_magic_cookie @ txid @ body)"

lemma length_encode_attr: "length (encode_attr a) = 4 + length (snd a) + pad4 (length (snd a))"
  by (simp add: encode_attr_def)

lemma length_encode_attr_mod: "length (encode_attr a) mod 4 = 0"
  unfolding length_encode_attr pad4_def by presburger

lemma put16_pair_nth:
  "(pre @ put16 x @ put16 y @ rest) ! length pre = ucast (drop_bit 8 x)"
  "(pre @ put16 x @ put16 y @ rest) ! (length pre + 1) = ucast x"
  "(pre @ put16 x @ put16 y @ rest) ! (length pre + 2) = ucast (drop_bit 8 y)"
  "(pre @ put16 x @ put16 y @ rest) ! (length pre + 3) = ucast y"
  unfolding put16_def by (simp_all add: nth_append eval_nat_numeral)

lemma put16_pair:
  "be16 ((pre @ put16 x @ put16 y @ rest) ! length pre) ((pre @ put16 x @ put16 y @ rest) ! (length pre + 1)) = x"
  "be16 ((pre @ put16 x @ put16 y @ rest) ! (length pre + 2)) ((pre @ put16 x @ put16 y @ rest) ! (length pre + 3)) = y"
  unfolding put16_pair_nth by (rule put16_be16)+

lemma attr_header:
  assumes "msg = pre @ encode_attr a @ rest" and "length (snd a) < 65536"
  shows "be16 (msg ! length pre) (msg ! (length pre + 1)) = fst a"
    and "unat (be16 (msg ! (length pre + 2)) (msg ! (length pre + 3))) = length (snd a)"
    and "take (length (snd a)) (drop (length pre + 4) msg) = snd a"
    and "length pre + 4 + length (snd a) \<le> length msg"
proof -
  let ?rest = "snd a @ replicate (pad4 (length (snd a))) 0 @ rest"
  have m: "msg = pre @ put16 (fst a) @ put16 (of_nat (length (snd a))) @ ?rest"
    using assms(1) by (simp add: encode_attr_def)
  show "be16 (msg ! length pre) (msg ! (length pre + 1)) = fst a"
    unfolding m by (rule put16_pair)
  have "be16 (msg ! (length pre + 2)) (msg ! (length pre + 3)) = of_nat (length (snd a))"
    unfolding m by (rule put16_pair)
  then show "unat (be16 (msg ! (length pre + 2)) (msg ! (length pre + 3))) = length (snd a)"
    using assms(2) by (simp add: unsigned_of_nat take_bit_nat_eq_self)
  show "take (length (snd a)) (drop (length pre + 4) msg) = snd a"
    by (simp add: m put16_def)
  show "length pre + 4 + length (snd a) \<le> length msg"
    by (simp add: m)
qed

lemma parse_attrs_skip:
  assumes "msg = pre @ encode_attr a @ rest" and "length (snd a) < 65536" and "length pre mod 4 = 0"
    and "length pre < stop" and "fst a \<noteq> stun_attr_xor_mapped" and "fst a \<noteq> stun_attr_mapped"
  shows "parse_attrs msg stop (length pre) = parse_attrs msg stop (length (pre @ encode_attr a))"
proof -
  note h = attr_header[OF assms(1,2)]
  let ?o2 = "length pre + 4 + length (snd a)"
  have "(if ?o2 mod 4 \<noteq> 0 then ?o2 + (4 - ?o2 mod 4) else ?o2) = length (pre @ encode_attr a)"
    using assms(3) unfolding length_append length_encode_attr pad4_def by presburger
  then show ?thesis
    using assms(4-6) h by (subst parse_attrs.simps) (simp add: Let_def)
qed

lemma parse_attrs_xor:
  assumes "msg = pre @ encode_attr a @ rest" and "length (snd a) < 65536"
    and "length pre < stop" and "fst a = stun_attr_xor_mapped"
  shows "parse_attrs msg stop (length pre) = parse_xor_mapped (snd a) (take 4 (drop 4 msg))"
  using attr_header[OF assms(1,2)] assms(3,4) by (subst parse_attrs.simps) (simp add: Let_def)

lemma parse_attrs_skip_all:
  assumes "\<forall>a \<in> set as. length (snd a) < 65536 \<and> fst a \<noteq> stun_attr_xor_mapped \<and> fst a \<noteq> stun_attr_mapped"
    and "msg = pre @ concat (map encode_attr as) @ rest" and "length pre mod 4 = 0"
    and "length pre + length (concat (map encode_attr as)) \<le> stop"
  shows "parse_attrs msg stop (length pre) = parse_attrs msg stop (length (pre @ concat (map encode_attr as)))"
  using assms
proof (induction "as" arbitrary: pre)
  case (Cons a as)
  have "length pre < stop"
    using Cons.prems(4) by (simp add: length_encode_attr)
  then have "parse_attrs msg stop (length pre) = parse_attrs msg stop (length (pre @ encode_attr a))"
    using Cons.prems by (intro parse_attrs_skip[where rest = "concat (map encode_attr as) @ rest"]) auto
  moreover have "length (pre @ encode_attr a) mod 4 = 0"
    using Cons.prems(3) length_encode_attr_mod[of a] by (simp add: mod_add_eq[symmetric])
  ultimately show ?case
    using Cons.IH[of "pre @ encode_attr a"] Cons.prems by simp
qed simp

lemma parse_xor_mapped_xor_address:
  assumes "length ip = 4"
  shows "parse_xor_mapped (xor_address ip port) stun_magic_cookie =
    Inr (sprintf_host_port (ip4_string ip) (unat port))"
proof -
  obtain a b c d where ip: "ip = [a, b, c, d]" using assms by (auto simp: length_4_iff)
  have x: "(x XOR y) XOR y = x" for x y :: "'a::len word" by (simp add: xor.assoc)
  have "be16 (ucast (drop_bit 8 (port XOR 0x2112))) (ucast (port XOR 0x2112)) XOR 0x2112 = port"
    by (simp only: put16_be16 x)
  then show ?thesis
    by (simp add: parse_xor_mapped_def xor_address_def ip stun_magic_cookie_def put16_def Let_def
        x ip_string_v4)
qed

text \<open>
  C28. The client reads back the address a server sends: from a response with any attributes
  it does not know, of any lengths, before the masked address, and anything after it, it
  recovers the address and the port.
\<close>

theorem stun_address_roundtrip:
  assumes "length txid = 12" and "length ip = 4"
    and "\<forall>a \<in> set before. length (snd a) < 65536 \<and> fst a \<noteq> stun_attr_xor_mapped \<and> fst a \<noteq> stun_attr_mapped"
    and "length (concat (map encode_attr (before @ (stun_attr_xor_mapped, xor_address ip port) # after))) < 65536"
  shows "parse_address (response txid (before @ (stun_attr_xor_mapped, xor_address ip port) # after)) =
    Inr (sprintf_host_port (ip4_string ip) (unat port))"
proof -
  let ?a = "(stun_attr_xor_mapped, xor_address ip port)"
  let ?body = "concat (map encode_attr (before @ ?a # after))"
  let ?hdr = "put16 stun_binding_response @ put16 (of_nat (length ?body)) @ stun_magic_cookie @ txid"
  let ?msg = "response txid (before @ ?a # after)"
  have msg: "?msg = ?hdr @ ?body" by (simp add: response_def Let_def)
  have hdr: "length ?hdr = 20" using assms(1) by (simp add: stun_magic_cookie_def)
  have "be16 (?msg ! 2) (?msg ! 3) = of_nat (length ?body)"
    using put16_pair(2)[of "[]" stun_binding_response "of_nat (length ?body)" "stun_magic_cookie @ txid @ ?body"]
    by (simp only: msg append_assoc append_Nil list.size add_0)
  then have len: "unat (be16 (?msg ! 2) (?msg ! 3)) = length ?body"
    using assms(4) by (simp add: unsigned_of_nat take_bit_nat_eq_self del: map_append concat_append)
  have cookie: "take 4 (drop 4 ?msg) = stun_magic_cookie"
    unfolding msg put16_def by (simp add: stun_magic_cookie_def)
  let ?pre = "?hdr @ concat (map encode_attr before)"
  have body: "?body = concat (map encode_attr before) @ encode_attr ?a @ concat (map encode_attr after)"
    by simp
  have split: "?msg = ?pre @ encode_attr ?a @ concat (map encode_attr after)"
    unfolding msg by (subst (2) body) (simp only: append_assoc)
  have inside: "length ?pre < length ?body + 20"
    using hdr by (subst body) (simp add: length_encode_attr)
  have xor: "length (snd ?a) < 65536"
    using assms(2) by (simp add: xor_address_def stun_magic_cookie_def)
  have "parse_attrs ?msg (length ?body + 20) (length ?hdr) = parse_attrs ?msg (length ?body + 20) (length ?pre)"
  proof (rule parse_attrs_skip_all[OF assms(3)])
    show "?msg = ?hdr @ concat (map encode_attr before) @ encode_attr ?a @ concat (map encode_attr after)"
      using split by (simp only: append_assoc)
    show "length ?hdr mod 4 = 0" using hdr by simp
    show "length ?hdr + length (concat (map encode_attr before)) \<le> length ?body + 20"
      using inside by simp
  qed
  also have "\<dots> = parse_xor_mapped (xor_address ip port) stun_magic_cookie"
    using parse_attrs_xor[OF split xor inside] cookie by simp
  finally show ?thesis
    using len hdr parse_xor_mapped_xor_address[OF assms(2), of port]
    by (simp only: parse_address_def Let_def) (simp add: msg)
qed

theorem stun_address_roundtrip_witness:
  "parse_address (response (replicate 12 9)
     ([(0x8022, [1, 2, 3])] @ (stun_attr_xor_mapped, xor_address [203, 0, 113, 7] 5000) # [])) =
   Inr (sprintf_host_port (ip4_string [203, 0, 113, 7]) 5000)"
proof -
  have "unat (5000 :: 16 word) = 5000" by simp
  then show ?thesis
    using stun_address_roundtrip[of "replicate 12 9" "[203, 0, 113, 7]" "[(0x8022, [1, 2, 3])]" 5000 "[]"]
    by (simp add: stun_attr_xor_mapped_def stun_attr_mapped_def length_encode_attr pad4_def xor_address_def
        stun_magic_cookie_def)
qed

section \<open>Discovery\<close>

text \<open>The addresses the later servers report, in order.\<close>

fun answers :: "(exchange \<times> string) list \<Rightarrow> string list" where
  "answers [] = []"
| "answers (x # xs) = (case send_binding_request (fst x) of Inl e \<Rightarrow> answers xs | Inr a \<Rightarrow> a # answers xs)"

lemma send_binding_request_nonempty: "send_binding_request x = Inr a \<Longrightarrow> a \<noteq> []"
proof -
  have s: "sprintf_host_port h p \<noteq> []" for h p by (simp add: sprintf_host_port_def)
  have x: "parse_xor_mapped d c = Inr a \<Longrightarrow> a \<noteq> []" for d c a
    using s by (auto simp: parse_xor_mapped_def Let_def split: if_splits)
  have m: "parse_mapped d = Inr a \<Longrightarrow> a \<noteq> []" for d a
    using s by (auto simp: parse_mapped_def Let_def split: if_splits)
  have "parse_attrs msg stop offset = Inr a \<Longrightarrow> a \<noteq> []" for msg stop offset a
  proof (induction msg stop offset rule: parse_attrs.induct)
    case (1 msg stop offset)
    note parse = 1(2)[unfolded parse_attrs.simps[of msg stop offset]]
    show ?case
      using 1(1) parse by (simp add: Let_def split: if_splits) (auto dest: x m)
  qed
  then show "send_binding_request x = Inr a \<Longrightarrow> a \<noteq> []"
    by (auto simp: send_binding_request_def parse_address_def Let_def split: exchange.splits if_splits)
qed

definition one_sock :: "discovery \<Rightarrow> bool" where
  "one_sock d \<longleftrightarrow> open_socks d = (case last_conn d of None \<Rightarrow> [] | Some c \<Rightarrow> [c])"

lemma discover_round_sock: "one_sock d \<Longrightarrow> one_sock (discover_round x i d)"
  by (auto simp: one_sock_def discover_round_def Let_def split: sum.splits option.splits)

lemma discover_loop_sock: "one_sock d \<Longrightarrow> one_sock (discover_loop xs i d)"
  by (induction xs i d rule: discover_loop.induct) (simp_all add: discover_round_sock)

lemma discover_loop_later:
  "0 < i \<Longrightarrow> disc_result (discover_loop xs i d) =
     (disc_result d)\<lparr>nat_kind := (if \<exists>b \<in> set (answers xs). b \<noteq> first_addr d then NATSymmetric
                                  else nat_kind (disc_result d)),
       mapping_stable := (if answers xs = [] then mapping_stable (disc_result d)
                          else last (answers xs) = first_addr d)\<rparr>"
proof (induction xs i d rule: discover_loop.induct)
  case (2 x xs i d)
  then show ?case
    by (auto simp: discover_round_def Let_def split: sum.splits)
qed simp

lemma discover_loop_none: "\<forall>x \<in> set xs. \<exists>e. send_binding_request (fst x) = Inl e \<Longrightarrow> discover_loop xs i d = d"
  by (induction xs i d rule: discover_loop.induct) (auto simp: discover_round_def)

text \<open>
  C29. What discovery reports, for every list of servers and every behaviour of them. Every
  socket is closed at the end. If the first server does not answer properly, all servers are
  reported unreachable, whatever the others say. Otherwise the address is the one the first
  server saw; the NAT is symmetric when some later server saw another one; and the mapping
  counts as stable when the last server that answered agrees with the first, also if one in
  between did not.
\<close>

theorem discover_public_address_spec:
  "snd (discover_public_address (x # xs)) = [] \<and>
   fst (discover_public_address (x # xs)) =
     (case send_binding_request (fst x) of
        Inl e \<Rightarrow> Inl AllUnreachable
      | Inr a \<Rightarrow>
          Inr \<lparr>nat_kind = (if \<exists>b \<in> set (answers xs). b \<noteq> a then NATSymmetric
                            else if a = snd x then NATNone
                            else if answers xs \<noteq> [] then NATFull
                            else NATUnknown),
               public_addr = a, local_addr = snd x,
               mapping_stable = (answers xs \<noteq> [] \<and> last (answers xs) = a)\<rparr>)"
proof -
  let ?init = "\<lparr>first_addr = [], last_conn = None, open_socks = [],
     disc_result = \<lparr>nat_kind = NATUnknown, public_addr = [], local_addr = [], mapping_stable = False\<rparr>\<rparr>"
  let ?d = "discover_loop (x # xs) 0 ?init"
  have "one_sock ?d" by (rule discover_loop_sock) (simp add: one_sock_def)
  then have sock: "snd (discover_public_address (x # xs)) = []"
    by (auto simp: discover_public_address_def Let_def one_sock_def split: option.splits)
  have r: "disc_result ?d = (disc_result (discover_round x 0 ?init))\<lparr>
      nat_kind := (if \<exists>b \<in> set (answers xs). b \<noteq> first_addr (discover_round x 0 ?init) then NATSymmetric
                   else nat_kind (disc_result (discover_round x 0 ?init))),
      mapping_stable := (if answers xs = [] then mapping_stable (disc_result (discover_round x 0 ?init))
                         else last (answers xs) = first_addr (discover_round x 0 ?init))\<rparr>"
    using discover_loop_later[of "Suc 0" xs "discover_round x 0 ?init"] by simp
  show ?thesis
  proof (cases "send_binding_request (fst x)")
    case (Inl e)
    then have "discover_round x 0 ?init = ?init" by (simp add: discover_round_def)
    with r have "public_addr (disc_result ?d) = []" by simp
    with Inl sock show ?thesis
      by (simp add: discover_public_address_def Let_def)
  next
    case (Inr a)
    then have a: "a \<noteq> []" by (rule send_binding_request_nonempty)
    have "first_addr (discover_round x 0 ?init) = a"
      "disc_result (discover_round x 0 ?init) =
         \<lparr>nat_kind = NATUnknown, public_addr = a, local_addr = snd x, mapping_stable = False\<rparr>"
      using Inr by (simp_all add: discover_round_def Let_def)
    with r have d: "disc_result ?d = \<lparr>nat_kind = (if \<exists>b \<in> set (answers xs). b \<noteq> a then NATSymmetric else NATUnknown),
        public_addr = a, local_addr = snd x, mapping_stable = (answers xs \<noteq> [] \<and> last (answers xs) = a)\<rparr>"
      by simp
    have last: "answers xs \<noteq> [] \<Longrightarrow> \<forall>b \<in> set (answers xs). b = a \<Longrightarrow> last (answers xs) = a"
      using last_in_set by blast
    show ?thesis
      using sock a Inr last unfolding discover_public_address_def Let_def d by auto
  qed
qed

end
