(* ===== verification/KillSwitch.thy ===== *)
theory KillSwitch
  imports GoStd
begin

text \<open>
  The kill switches: the one the daemon uses, \<^verbatim>\<open>security/killswitch.go\<close>, and those of
  \<^verbatim>\<open>platform/platform_linux.go\<close>, \<^verbatim>\<open>platform_darwin.go\<close> and \<^verbatim>\<open>platform_windows.go\<close>. They
  act through external commands: \<open>'os\<close> is the state of the machine and a parameter says what
  a command does to it, whether it succeeds, and what it prints.
\<close>

section \<open>Commands\<close>

type_synonym 'os exec = "string list \<Rightarrow> 'os \<Rightarrow> (bool \<times> string) \<times> 'os"

text \<open>
  What the switches and the proxy configurators (theory Platform) share: a thing that is
  switched on and off by operations that may fail. An operation that succeeds leaves it as
  asked for, one that fails leaves it as it was.
\<close>

locale switch =
  fixes on :: "'s \<Rightarrow> 'e option \<times> 's"
    and off :: "'s \<Rightarrow> 'e option \<times> 's"
    and is_on :: "'s \<Rightarrow> bool"
  assumes on_ok: "on s = (None, s') \<Longrightarrow> is_on s'"
    and on_fail: "on s = (Some e, s') \<Longrightarrow> is_on s' = is_on s"
    and off_ok: "off s = (None, s') \<Longrightarrow> \<not> is_on s'"
    and off_fail: "off s = (Some e, s') \<Longrightarrow> is_on s' = is_on s"

text \<open>A sequence of requests, with the answer to each.\<close>

fun toggles :: "('s \<Rightarrow> 'e option \<times> 's) \<Rightarrow> ('s \<Rightarrow> 'e option \<times> 's) \<Rightarrow> bool list \<Rightarrow> 's \<Rightarrow> 'e option list \<times> 's" where
  "toggles on off [] s = ([], s)"
| "toggles on off (b # bs) s =
     (let (e, s') = (if b then on s else off s); (es, s'') = toggles on off bs s' in (e # es, s''))"

text \<open>What was last asked for with success.\<close>

fun last_granted :: "bool \<Rightarrow> bool list \<Rightarrow> 'e option list \<Rightarrow> bool" where
  "last_granted b (r # rs) (e # es) = last_granted (if e = None then r else b) rs es"
| "last_granted b rs es = b"

context switch
begin

lemma step: "(if b then on s else off s) = (e, s') \<Longrightarrow> is_on s' = (if e = None then b else is_on s)"
  using on_ok on_fail off_ok off_fail by (cases b; cases e) fastforce+

lemma follows: "toggles on off bs s = (es, s') \<Longrightarrow> is_on s' = last_granted (is_on s) bs es"
proof (induction bs arbitrary: s es)
  case (Cons b bs)
  obtain e s1 where 1: "(if b then on s else off s) = (e, s1)" by fastforce
  obtain es2 s2 where 2: "toggles on off bs s1 = (es2, s2)" by fastforce
  with Cons.prems 1 have "es = e # es2" "s' = s2" by auto
  with Cons.IH[of s1 es2] 2 step[OF 1] show ?case by simp
qed simp

end

text \<open>The loop over the rules: it ends at the first command that fails.\<close>

fun run_rules :: "'os exec \<Rightarrow> string list list \<Rightarrow> 'os \<Rightarrow> bool \<times> 'os" where
  "run_rules run [] os = (True, os)"
| "run_rules run (r # rs) os =
     (let (res, os') = run r os in if fst res then run_rules run rs os' else (False, os'))"

section \<open>The kill switch of the daemon\<close>

datatype ks_err = Unsupported string | AddRule | NeedsRoot | CommandFailed string

record kill_switch =
  ks_enabled :: bool
  ks_proxy :: string
  ks_grpc :: string

definition new_kill_switch :: "string \<Rightarrow> string \<Rightarrow> kill_switch" where
  "new_kill_switch p g = \<lparr>ks_enabled = False, ks_proxy = p, ks_grpc = g\<rparr>"

text \<open>What \<^verbatim>\<open>os\<close> and \<^verbatim>\<open>runtime\<close> tell about the process.\<close>

record process =
  goos :: string
  exe_path :: string
  pid :: nat
  euid :: nat

definition windows_rule_name :: string where
  "windows_rule_name = ''AirBridge5G-KillSwitch''"

definition windows_rule :: "string \<Rightarrow> string list \<Rightarrow> string list" where
  "windows_rule suffix args =
     [''netsh'', ''advfirewall'', ''firewall'', ''add'', ''rule'',
      ''name='' @ windows_rule_name @ suffix, ''dir=out''] @ args @ [''enable=yes'', ''profile=any'']"

definition windows_rules :: "string \<Rightarrow> string list list" where
  "windows_rules exe =
     [windows_rule ''-AllowLoopback'' [''action=allow'', ''remoteip=127.0.0.0/8''],
      windows_rule ''-AllowDNS'' [''action=allow'', ''protocol=UDP'', ''remoteport=53''],
      windows_rule ''-AllowDaemon'' [''action=allow'', ''program='' @ (if exe = [] then ''securemesh-node.exe'' else exe)],
      windows_rule ''-AllowLAN'' [''action=allow'', ''remoteip=192.168.0.0/16,10.0.0.0/8,172.16.0.0/12''],
      windows_rule ''-BlockAll'' [''action=block'']]"

definition linux_rules :: "nat \<Rightarrow> string list list" where
  "linux_rules p =
     map (\<lambda>r. [''iptables'', ''-A'', ''OUTPUT''] @ r)
       [[''-o'', ''lo'', ''-j'', ''ACCEPT''],
        [''-m'', ''state'', ''--state'', ''ESTABLISHED,RELATED'', ''-j'', ''ACCEPT''],
        [''-m'', ''owner'', ''--pid-owner'', dec_nat p, ''-j'', ''ACCEPT''],
        [''-d'', ''192.168.0.0/16'', ''-j'', ''ACCEPT''],
        [''-d'', ''10.0.0.0/8'', ''-j'', ''ACCEPT''],
        [''-p'', ''udp'', ''--dport'', ''53'', ''-j'', ''ACCEPT''],
        [''-j'', ''DROP'']]"

text \<open>Commands whose errors are dropped.\<close>

fun run_all :: "'os exec \<Rightarrow> string list list \<Rightarrow> 'os \<Rightarrow> 'os" where
  "run_all run [] os = os"
| "run_all run (c # cs) os = run_all run cs (snd (run c os))"

definition disable_windows :: "'os exec \<Rightarrow> 'os \<Rightarrow> 'os" where
  "disable_windows run =
     run_all run (map (\<lambda>s. [''netsh'', ''advfirewall'', ''firewall'', ''delete'', ''rule'',
         ''name='' @ windows_rule_name @ s])
       [''-AllowLoopback'', ''-AllowDNS'', ''-AllowDaemon'', ''-AllowLAN'', ''-BlockAll''])"

definition enable_windows :: "'os exec \<Rightarrow> string \<Rightarrow> 'os \<Rightarrow> ks_err option \<times> 'os" where
  "enable_windows run exe os =
     (let (ok, os') = run_rules run (windows_rules exe) os
      in if ok then (None, os') else (Some AddRule, disable_windows run os'))"

definition disable_linux :: "'os exec \<Rightarrow> 'os \<Rightarrow> 'os" where
  "disable_linux run =
     run_all run [[''iptables'', ''-F'', ''OUTPUT''], [''iptables'', ''-P'', ''OUTPUT'', ''ACCEPT'']]"

definition enable_linux :: "'os exec \<Rightarrow> nat \<Rightarrow> 'os \<Rightarrow> ks_err option \<times> 'os" where
  "enable_linux run p os =
     (let (ok, os') = run_rules run (linux_rules p) os
      in if ok then (None, os') else (Some AddRule, disable_linux run os'))"

definition enable_darwin :: "'os exec \<Rightarrow> nat \<Rightarrow> 'os \<Rightarrow> ks_err option \<times> 'os" where
  "enable_darwin run uid os =
     (if uid \<noteq> 0 then (Some NeedsRoot, os) else (None, snd (run [''pfctl'', ''-e''] os)))"

definition disable_darwin :: "'os exec \<Rightarrow> nat \<Rightarrow> 'os \<Rightarrow> 'os" where
  "disable_darwin run uid os = (if uid = 0 then snd (run [''pfctl'', ''-d''] os) else os)"

definition ks_enable ::
  "process \<Rightarrow> 'os exec \<Rightarrow> kill_switch \<times> 'os \<Rightarrow> ks_err option \<times> kill_switch \<times> 'os" where
  "ks_enable pr run s =
     (let (ks, os) = s in
      if ks_enabled ks then (None, s)
      else if goos pr \<notin> {''windows'', ''linux'', ''darwin''} then (Some (Unsupported (goos pr)), s)
      else
        let (err, os') =
          (if goos pr = ''windows'' then enable_windows run (exe_path pr) os
           else if goos pr = ''linux'' then enable_linux run (pid pr) os
           else enable_darwin run (euid pr) os)
        in case err of
             Some e \<Rightarrow> (Some e, ks, os')
           | None \<Rightarrow> (None, ks\<lparr>ks_enabled := True\<rparr>, os'))"

definition ks_disable ::
  "process \<Rightarrow> 'os exec \<Rightarrow> kill_switch \<times> 'os \<Rightarrow> ks_err option \<times> kill_switch \<times> 'os" where
  "ks_disable pr run s =
     (let (ks, os) = s in
      if \<not> ks_enabled ks then (None, s)
      else if goos pr \<notin> {''windows'', ''linux'', ''darwin''} then (Some (Unsupported (goos pr)), s)
      else
        (None, ks\<lparr>ks_enabled := False\<rparr>,
         if goos pr = ''windows'' then disable_windows run os
         else if goos pr = ''linux'' then disable_linux run os
         else disable_darwin run (euid pr) os))"

interpretation ks_switch: switch "ks_enable pr run" "ks_disable pr run" "\<lambda>s. ks_enabled (fst s)" for pr run
  by unfold_locales
    (auto simp: ks_enable_def ks_disable_def Let_def case_prod_unfold split: if_splits option.splits)

section \<open>The kill switches of the platforms\<close>

text \<open>
  \<^verbatim>\<open>LinuxKillSwitch\<close>, \<^verbatim>\<open>DarwinKillSwitch\<close> and \<^verbatim>\<open>WindowsKillSwitch\<close>; the state is the
  flag \<^verbatim>\<open>enabled\<close>. An error carries what the command printed.
\<close>

fun run_checked :: "'os exec \<Rightarrow> string list list \<Rightarrow> 'os \<Rightarrow> ks_err option \<times> 'os" where
  "run_checked run [] os = (None, os)"
| "run_checked run (c # cs) os =
     (let (res, os') = run c os
      in if fst res then run_checked run cs os' else (Some (CommandFailed (snd res)), os'))"

definition set_flag :: "bool \<Rightarrow> ks_err option \<times> 'os \<Rightarrow> bool \<Rightarrow> ks_err option \<times> bool \<times> 'os" where
  "set_flag b r old = (fst r, (if fst r = None then b else old), snd r)"

definition linux_platform_rules :: "string list list" where
  "linux_platform_rules =
     map (\<lambda>r. [''iptables'', ''-A'', ''OUTPUT''] @ r)
       [[''-o'', ''lo'', ''-j'', ''ACCEPT''],
        [''-d'', ''192.168.0.0/16'', ''-j'', ''ACCEPT''],
        [''-d'', ''10.0.0.0/8'', ''-j'', ''ACCEPT''],
        [''-d'', ''172.16.0.0/12'', ''-j'', ''ACCEPT''],
        [''-p'', ''tcp'', ''--dport'', ''1080'', ''-j'', ''ACCEPT''],
        [''-j'', ''DROP'']]"

definition linux_ks_enable :: "'os exec \<Rightarrow> bool \<times> 'os \<Rightarrow> ks_err option \<times> bool \<times> 'os" where
  "linux_ks_enable run s = set_flag True (run_checked run linux_platform_rules (snd s)) (fst s)"

definition linux_ks_disable :: "'os exec \<Rightarrow> bool \<times> 'os \<Rightarrow> ks_err option \<times> bool \<times> 'os" where
  "linux_ks_disable run s =
     set_flag False (run_checked run [[''iptables'', ''-F'', ''OUTPUT'']] (snd s)) (fst s)"

definition nl :: string where "nl = [CHR 0x0A]"

definition darwin_pf_rules :: string where
  "darwin_pf_rules =
     nl @ ''# AirBridge Kill Switch'' @ nl @ ''block out all'' @ nl @ ''pass out on lo0'' @ nl @
     ''pass out to 192.168.0.0/16'' @ nl @ ''pass out to 10.0.0.0/8'' @ nl @
     ''pass out to 172.16.0.0/12'' @ nl @ ''pass out proto tcp to any port 1080'' @ nl"

definition darwin_ks_enable :: "'os exec \<Rightarrow> bool \<times> 'os \<Rightarrow> ks_err option \<times> bool \<times> 'os" where
  "darwin_ks_enable run s =
     set_flag True (run_checked run
       [[''bash'', ''-c'', ''echo '' @ [CHR 0x27] @ darwin_pf_rules @ [CHR 0x27] @ '' | sudo pfctl -ef -'']]
       (snd s)) (fst s)"

definition darwin_ks_disable :: "'os exec \<Rightarrow> bool \<times> 'os \<Rightarrow> ks_err option \<times> bool \<times> 'os" where
  "darwin_ks_disable run s = set_flag False (run_checked run [[''sudo'', ''pfctl'', ''-d'']] (snd s)) (fst s)"

definition windows_ks_rules :: "string list" where
  "windows_ks_rules =
     [''AirBridge-KillSwitch-BlockOutbound'', ''AirBridge-KillSwitch-AllowTunnel'',
      ''AirBridge-KillSwitch-AllowLocal'']"

definition windows_ks_enable :: "'os exec \<Rightarrow> bool \<times> 'os \<Rightarrow> ks_err option \<times> bool \<times> 'os" where
  "windows_ks_enable run s =
     (let add = (\<lambda>name args. [''netsh'', ''advfirewall'', ''firewall'', ''add'', ''rule'',
                   ''name='' @ name, ''dir=out''] @ args @ [''enable=yes''])
      in set_flag True (run_checked run
           [add ''AirBridge-KillSwitch-BlockOutbound'' [''action=block''],
            add ''AirBridge-KillSwitch-AllowTunnel'' [''action=allow'', ''remoteip=127.0.0.1''],
            add ''AirBridge-KillSwitch-AllowLocal''
              [''action=allow'', ''remoteip=192.168.0.0/16,10.0.0.0/8,172.16.0.0/12'']]
           (snd s)) (fst s))"

definition windows_ks_disable :: "'os exec \<Rightarrow> bool \<times> 'os \<Rightarrow> ks_err option \<times> bool \<times> 'os" where
  "windows_ks_disable run s =
     (None, False,
      run_all run (map (\<lambda>r. [''netsh'', ''advfirewall'', ''firewall'', ''delete'', ''rule'', ''name='' @ r])
        windows_ks_rules) (snd s))"

interpretation linux_switch: switch "linux_ks_enable run" "linux_ks_disable run" fst for run
  by unfold_locales (auto simp: linux_ks_enable_def linux_ks_disable_def set_flag_def)

interpretation darwin_switch: switch "darwin_ks_enable run" "darwin_ks_disable run" fst for run
  by unfold_locales (auto simp: darwin_ks_enable_def darwin_ks_disable_def set_flag_def)

interpretation windows_switch: switch "windows_ks_enable run" "windows_ks_disable run" fst for run
  by unfold_locales (auto simp: windows_ks_enable_def windows_ks_disable_def set_flag_def Let_def)

section \<open>Rules that are appended\<close>

text \<open>A command that appends a rule to what \<open>view\<close> shows of the machine, or fails and changes nothing there.\<close>

definition appending :: "'os exec \<Rightarrow> ('r \<Rightarrow> string list) \<Rightarrow> ('os \<Rightarrow> 'r list) \<Rightarrow> bool" where
  "appending run cmd view \<longleftrightarrow>
     (\<forall>r os. view (snd (run (cmd r) os)) = (if fst (fst (run (cmd r) os)) then view os @ [r] else view os))"

lemma run_rules_appends:
  assumes "appending run cmd view" and "run_rules run (map cmd rs) os = (ok, os')"
  shows "\<exists>k. view os' = view os @ take k rs \<and> (if ok then k = length rs else k < length rs)"
  using assms(2)
proof (induction rs arbitrary: os)
  case (Cons r rs)
  obtain res os1 where 1: "run (cmd r) os = (res, os1)" by fastforce
  have v: "view os1 = (if fst res then view os @ [r] else view os)"
    using assms(1) 1 unfolding appending_def by (metis fst_conv snd_conv)
  show ?case
  proof (cases "fst res")
    case True
    with Cons.IH[of os1] Cons.prems 1 obtain k where
      "view os' = view os1 @ take k rs" "if ok then k = length rs else k < length rs"
      by auto
    with True v show ?thesis by (intro exI[of _ "Suc k"]) (auto split: if_splits)
  next
    case False
    with v Cons.prems 1 show ?thesis by (intro exI[of _ 0]) auto
  qed
qed simp

lemma run_checked_rules:
  "run_checked run cs os = (e, os') \<Longrightarrow> run_rules run cs os = (e = None, os')"
  by (induction cs arbitrary: os) (auto simp: Let_def split: prod.splits if_splits)

section \<open>Linux\<close>

text \<open>
  What the code relies on of \<^verbatim>\<open>iptables\<close>, with \<open>chain\<close> the rules of the chain \<^verbatim>\<open>OUTPUT\<close>:
  \<^verbatim>\<open>-A\<close> appends a rule and \<^verbatim>\<open>-F\<close> removes all rules, or they fail (no root, no binary, a lock) and change
  nothing; the policy is no rule.
\<close>

definition append_rule :: "string list \<Rightarrow> string list" where
  "append_rule r = [''iptables'', ''-A'', ''OUTPUT''] @ r"

definition flushed :: "'os exec \<Rightarrow> ('os \<Rightarrow> string list list) \<Rightarrow> 'os \<Rightarrow> string list list" where
  "flushed run chain os = (if fst (fst (run [''iptables'', ''-F'', ''OUTPUT''] os)) then [] else chain os)"

definition iptables_ok :: "'os exec \<Rightarrow> ('os \<Rightarrow> string list list) \<Rightarrow> bool" where
  "iptables_ok run chain \<longleftrightarrow>
     appending run append_rule chain \<and>
     (\<forall>os. chain (snd (run [''iptables'', ''-F'', ''OUTPUT''] os)) = flushed run chain os) \<and>
     (\<forall>os. chain (snd (run [''iptables'', ''-P'', ''OUTPUT'', ''ACCEPT''] os)) = chain os)"

definition installed_rules :: "nat \<Rightarrow> string list list" where
  "installed_rules p = map (drop 3) (linux_rules p)"

lemma linux_rules_append:
  "linux_rules p = map append_rule (installed_rules p)"
  "linux_platform_rules = map append_rule (map (drop 3) linux_platform_rules)"
  by (simp_all add: installed_rules_def linux_rules_def linux_platform_rules_def append_rule_def)

lemma disable_linux_chain: "iptables_ok run chain \<Longrightarrow> chain (disable_linux run os) = flushed run chain os"
  by (simp add: disable_linux_def iptables_ok_def)

lemma enable_linux_chain:
  assumes "iptables_ok run chain" and "enable_linux run p os = (e, os')"
  shows "e = None \<and> chain os' = chain os @ installed_rules p \<or>
    e = Some AddRule \<and> (\<exists>k < length (installed_rules p). \<exists>o1.
       chain o1 = chain os @ take k (installed_rules p) \<and> chain os' = flushed run chain o1)"
proof -
  obtain ok o1 where r: "run_rules run (linux_rules p) os = (ok, o1)" by fastforce
  have "appending run append_rule chain" using assms(1) by (simp add: iptables_ok_def)
  from run_rules_appends[OF this, of "installed_rules p" os ok o1] r obtain k where
    "chain o1 = chain os @ take k (installed_rules p)"
    "if ok then k = length (installed_rules p) else k < length (installed_rules p)"
    by (auto simp: linux_rules_append(1))
  with assms(2) r disable_linux_chain[OF assms(1), of o1] show ?thesis
    by (cases ok) (auto simp: enable_linux_def)
qed

text \<open>
  C34. On Linux \<open>Enable\<close> of the kill switch of the daemon appends its seven rules to the chain and counts as
  on; or a rule fails, and it reports the error, stays off and flushes the whole chain: the rules of
  the machine from before are gone too, unless the flush fails as well, and then the rules added so far
  stay. \<open>Disable\<close> always reports success and counts as off: the chain is empty, or, if the flush failed,
  all rules are still there and the traffic is still blocked. The kill switch of the platform package,
  when a rule fails, leaves the rules before it in place and stays as it was.
\<close>

theorem linux_enable_outcome:
  assumes "iptables_ok run chain" and "goos pr = ''linux''" and "\<not> ks_enabled ks"
  shows "(case ks_enable pr run (ks, os) of (e, ks', os') \<Rightarrow>
       e = None \<and> ks' = ks\<lparr>ks_enabled := True\<rparr> \<and> chain os' = chain os @ installed_rules (pid pr) \<or>
       e = Some AddRule \<and> ks' = ks \<and>
         (\<exists>k < length (installed_rules (pid pr)). \<exists>o1. chain o1 = chain os @ take k (installed_rules (pid pr)) \<and>
            chain os' = flushed run chain o1)) \<and>
    (case ks_disable pr run (ks\<lparr>ks_enabled := True\<rparr>, os) of (e, ks', os') \<Rightarrow>
       e = None \<and> \<not> ks_enabled ks' \<and> chain os' = flushed run chain os) \<and>
    (case linux_ks_enable run (b, os) of (e, b', os') \<Rightarrow>
       e = None \<and> b' \<and> chain os' = chain os @ map (drop 3) linux_platform_rules \<or>
       e \<noteq> None \<and> b' = b \<and>
         (\<exists>k < length linux_platform_rules. chain os' = chain os @ take k (map (drop 3) linux_platform_rules)))"
proof (intro conjI)
  obtain e o1 where e: "enable_linux run (pid pr) os = (e, o1)" by fastforce
  show "case ks_enable pr run (ks, os) of (e, ks', os') \<Rightarrow>
       e = None \<and> ks' = ks\<lparr>ks_enabled := True\<rparr> \<and> chain os' = chain os @ installed_rules (pid pr) \<or>
       e = Some AddRule \<and> ks' = ks \<and>
         (\<exists>k < length (installed_rules (pid pr)). \<exists>o1. chain o1 = chain os @ take k (installed_rules (pid pr)) \<and>
            chain os' = flushed run chain o1)"
    using enable_linux_chain[OF assms(1) e] assms(2,3) e
    by (elim disjE conjE) (simp_all add: ks_enable_def)
  show "case ks_disable pr run (ks\<lparr>ks_enabled := True\<rparr>, os) of (e, ks', os') \<Rightarrow>
       e = None \<and> \<not> ks_enabled ks' \<and> chain os' = flushed run chain os"
    using disable_linux_chain[OF assms(1)] assms(2) by (simp add: ks_disable_def)
  obtain x o2 where c: "run_checked run linux_platform_rules os = (x, o2)" by fastforce
  have r: "run_rules run (map append_rule (map (drop 3) linux_platform_rules)) os = (x = None, o2)"
    using run_checked_rules[OF c] unfolding linux_rules_append(2)[symmetric] .
  have "appending run append_rule chain" using assms(1) by (simp add: iptables_ok_def)
  from run_rules_appends[OF this r] obtain k where "chain o2 = chain os @ take k (map (drop 3) linux_platform_rules)"
    "if x = None then k = length (map (drop 3) linux_platform_rules) else k < length (map (drop 3) linux_platform_rules)"
    by blast
  then show "case linux_ks_enable run (b, os) of (e, b', os') \<Rightarrow>
       e = None \<and> b' \<and> chain os' = chain os @ map (drop 3) linux_platform_rules \<or>
       e \<noteq> None \<and> b' = b \<and>
         (\<exists>k < length linux_platform_rules. chain os' = chain os @ take k (map (drop 3) linux_platform_rules))"
    using c by (cases "x = None") (auto simp: linux_ks_enable_def set_flag_def)
qed

text \<open>Machines for the witness: a chain that takes rules until it has some number of them, and that can be flushed or not.\<close>

definition small_machine :: "nat \<Rightarrow> bool \<Rightarrow> string list list exec" where
  "small_machine n can_flush c os =
     (if take 3 c = [''iptables'', ''-A'', ''OUTPUT''] \<and> length os < n then ((True, []), os @ [drop 3 c])
      else if c = [''iptables'', ''-F'', ''OUTPUT''] \<and> can_flush then ((True, []), [])
      else ((False, ''iptables: error''), os))"

definition linux_process :: process where
  "linux_process = \<lparr>goos = ''linux'', exe_path = [], pid = 1, euid = 0\<rparr>"

theorem linux_enable_outcome_witness:
  "fst (ks_enable linux_process (small_machine 9 False) (new_kill_switch ''p'' ''g'', [[''user''] ])) = None \<and>
   snd (snd (ks_disable linux_process (small_machine 9 False)
     ((new_kill_switch ''p'' ''g'')\<lparr>ks_enabled := True\<rparr>, [[''user''] ]))) = [[''user''] ]"
proof -
  have ok: "iptables_ok (small_machine 9 False) id"
    by (simp add: iptables_ok_def appending_def flushed_def small_machine_def append_rule_def)
  have pr: "goos linux_process = ''linux''" "\<not> ks_enabled (new_kill_switch ''p'' ''g'')"
    by (simp_all add: linux_process_def new_kill_switch_def)
  have "fst (ks_enable linux_process (small_machine 9 False) (new_kill_switch ''p'' ''g'', [[''user''] ])) = None"
    by (simp add: ks_enable_def enable_linux_def linux_rules_def linux_process_def new_kill_switch_def small_machine_def Let_def)
  moreover have "flushed (small_machine 9 False) id [[''user''] ] = [[''user''] ]"
    by (simp add: flushed_def small_machine_def)
  ultimately show ?thesis
    using linux_enable_outcome[OF ok pr, of "[[''user''] ]" False] by (auto split: prod.splits)
qed

section \<open>Windows\<close>

text \<open>
  What the code relies on of \<^verbatim>\<open>netsh\<close>, with \<open>rules\<close> the names and arguments of the rules of the
  firewall in their order: \<^verbatim>\<open>add rule\<close> appends a rule and \<^verbatim>\<open>delete rule\<close> removes all rules of a name, or they
  fail and change nothing.
\<close>

definition add_rule :: "string \<times> string list \<Rightarrow> string list" where
  "add_rule r = [''netsh'', ''advfirewall'', ''firewall'', ''add'', ''rule'', ''name='' @ fst r] @ snd r"

definition delete_rule :: "string \<Rightarrow> string list" where
  "delete_rule n = [''netsh'', ''advfirewall'', ''firewall'', ''delete'', ''rule'', ''name='' @ n]"

definition netsh_ok :: "'os exec \<Rightarrow> ('os \<Rightarrow> (string \<times> string list) list) \<Rightarrow> bool" where
  "netsh_ok run rules \<longleftrightarrow>
     appending run add_rule rules \<and>
     (\<forall>n os. rules (snd (run (delete_rule n) os)) =
        (if fst (fst (run (delete_rule n) os)) then filter (\<lambda>r. fst r \<noteq> n) (rules os) else rules os))"

text \<open>Deleting a rule that is there works.\<close>

definition can_delete :: "'os exec \<Rightarrow> ('os \<Rightarrow> (string \<times> string list) list) \<Rightarrow> bool" where
  "can_delete run rules \<longleftrightarrow> (\<forall>n os. n \<in> fst ` set (rules os) \<longrightarrow> fst (fst (run (delete_rule n) os)))"

definition own_names :: "string list" where
  "own_names = map ((@) windows_rule_name)
     [''-AllowLoopback'', ''-AllowDNS'', ''-AllowDaemon'', ''-AllowLAN'', ''-BlockAll'']"

definition own :: "string \<times> string list \<Rightarrow> bool" where
  "own r \<longleftrightarrow> fst r \<in> set own_names"

definition windows_installed :: "string \<Rightarrow> (string \<times> string list) list" where
  "windows_installed exe = map (\<lambda>c. (drop 5 (c ! 5), drop 6 c)) (windows_rules exe)"

lemma windows_rules_add: "windows_rules exe = map add_rule (windows_installed exe)"
  by (simp add: windows_rules_def windows_installed_def windows_rule_def add_rule_def)

lemma windows_installed_own: "filter own (windows_installed exe) = windows_installed exe"
  by (simp add: windows_installed_def windows_rules_def windows_rule_def own_def own_names_def)

lemma disable_windows_deletes: "disable_windows run = run_all run (map delete_rule own_names)"
  by (simp add: disable_windows_def delete_rule_def own_names_def)

lemma run_all_deletes:
  assumes "netsh_ok run rules"
  shows "\<exists>P. (\<forall>r. fst r \<notin> set ns \<longrightarrow> P r) \<and> (can_delete run rules \<longrightarrow> (\<forall>r. P r \<longrightarrow> fst r \<notin> set ns)) \<and>
    rules (run_all run (map delete_rule ns) os) = filter P (rules os)"
proof (induction ns arbitrary: os)
  case Nil
  show ?case by (intro exI[of _ "\<lambda>_. True"]) simp
next
  case (Cons n ns)
  let ?o1 = "snd (run (delete_rule n) os)" and ?ok = "fst (fst (run (delete_rule n) os))"
  obtain P where P: "\<forall>r. fst r \<notin> set ns \<longrightarrow> P r" "can_delete run rules \<longrightarrow> (\<forall>r. P r \<longrightarrow> fst r \<notin> set ns)"
    "rules (run_all run (map delete_rule ns) ?o1) = filter P (rules ?o1)"
    using Cons.IH by blast
  let ?Q = "\<lambda>r. P r \<and> ((?ok \<or> can_delete run rules) \<longrightarrow> fst r \<noteq> n)"
  have d: "rules ?o1 = (if ?ok then filter (\<lambda>r. fst r \<noteq> n) (rules os) else rules os)"
    using assms by (simp add: netsh_ok_def)
  have c: "fst r \<noteq> n" if "\<not> ?ok" "can_delete run rules" "r \<in> set (rules os)" for r
    using that unfolding can_delete_def by blast
  have "filter P (rules ?o1) = filter ?Q (rules os)"
    unfolding d using c by (auto intro!: filter_cong)
  with P show ?case by (intro exI[of _ ?Q]) auto
qed

lemma filter_neither: "(\<And>x. P x \<Longrightarrow> Q x \<Longrightarrow> False) \<Longrightarrow> filter P (filter Q xs) = []"
  by (auto simp: filter_empty_conv)

lemma filter_both: "(\<And>x. P x \<Longrightarrow> Q x) \<Longrightarrow> filter P (filter Q xs) = filter P xs"
  by (auto intro!: filter_cong)

lemma disable_windows_rules:
  assumes "netsh_ok run rules"
  shows "filter (Not \<circ> own) (rules (disable_windows run os)) = filter (Not \<circ> own) (rules os)"
    and "can_delete run rules \<Longrightarrow> filter own (rules (disable_windows run os)) = []"
proof -
  obtain P where P: "\<forall>r. \<not> own r \<longrightarrow> P r" "can_delete run rules \<longrightarrow> (\<forall>r. P r \<longrightarrow> \<not> own r)"
    "rules (disable_windows run os) = filter P (rules os)"
    using run_all_deletes[OF assms, of own_names os] by (auto simp: disable_windows_deletes own_def)
  show "filter (Not \<circ> own) (rules (disable_windows run os)) = filter (Not \<circ> own) (rules os)"
    unfolding P(3) by (rule filter_both) (use P(1) in auto)
  show "filter own (rules (disable_windows run os)) = []" if "can_delete run rules"
    unfolding P(3) by (rule filter_neither) (use P(2) that in auto)
qed

text \<open>What holds between the requests.\<close>

definition firewall_inv ::
  "string \<Rightarrow> ('os \<Rightarrow> (string \<times> string list) list) \<Rightarrow> bool \<Rightarrow> (string \<times> string list) list \<Rightarrow> kill_switch \<times> 'os \<Rightarrow> bool" where
  "firewall_inv exe rules tidy others s \<longleftrightarrow>
     filter (Not \<circ> own) (rules (snd s)) = others \<and>
     (tidy \<longrightarrow>
        filter own (rules (snd s)) = (if ks_enabled (fst s) then windows_installed exe else []))"

lemma enable_windows_rules:
  assumes "netsh_ok run rules" and "enable_windows run exe os = (e, os')"
  shows "filter (Not \<circ> own) (rules os') = filter (Not \<circ> own) (rules os)"
    and "can_delete run rules \<Longrightarrow>
      filter own (rules os') = (if e = None then filter own (rules os) @ windows_installed exe else [])"
proof -
  obtain ok o1 where r: "run_rules run (windows_rules exe) os = (ok, o1)" by fastforce
  have "appending run add_rule rules" using assms(1) by (simp add: netsh_ok_def)
  from run_rules_appends[OF this, of "windows_installed exe" os ok o1] r obtain k where
    k: "rules o1 = rules os @ take k (windows_installed exe)"
    "if ok then k = length (windows_installed exe) else k < length (windows_installed exe)"
    by (auto simp: windows_rules_add)
  have i: "\<forall>x \<in> set (windows_installed exe). own x"
    using windows_installed_own[of exe] by (simp add: filter_id_conv)
  have "filter (Not \<circ> own) (take k (windows_installed exe)) = []"
    by (simp add: filter_empty_conv) (metis i in_set_takeD)
  with k(1) have o1: "filter (Not \<circ> own) (rules o1) = filter (Not \<circ> own) (rules os)" by simp
  show "filter (Not \<circ> own) (rules os') = filter (Not \<circ> own) (rules os)"
    using assms(2) r o1 disable_windows_rules(1)[OF assms(1), of o1] by (cases ok) (auto simp: enable_windows_def)
  show "filter own (rules os') = (if e = None then filter own (rules os) @ windows_installed exe else [])"
    if "can_delete run rules"
    using assms(2) r k disable_windows_rules(2)[OF assms(1) that, of o1] windows_installed_own[of exe]
    by (cases ok) (auto simp: enable_windows_def)
qed

lemma firewall_inv_step:
  assumes "netsh_ok run rules" and "goos pr = ''windows''" and "tidy \<Longrightarrow> can_delete run rules" and "firewall_inv (exe_path pr) rules tidy others s"
  shows "firewall_inv (exe_path pr) rules tidy others (snd (if b then ks_enable pr run s else ks_disable pr run s))"
proof -
  obtain ks os where s: "s = (ks, os)" by fastforce
  obtain e o1 where e: "enable_windows run (exe_path pr) os = (e, o1)" by fastforce
  show ?thesis
    using assms s e enable_windows_rules[OF assms(1) e] disable_windows_rules[OF assms(1), of os]
    by (cases tidy) (auto simp: firewall_inv_def ks_enable_def ks_disable_def Let_def split: option.splits)
qed

lemma firewall_inv_toggles:
  assumes "netsh_ok run rules" and "goos pr = ''windows''" and "tidy \<Longrightarrow> can_delete run rules"
  shows "firewall_inv (exe_path pr) rules tidy others s \<Longrightarrow>
    firewall_inv (exe_path pr) rules tidy others (snd (toggles (ks_enable pr run) (ks_disable pr run) bs s))"
proof (induction bs arbitrary: s)
  case (Cons b bs)
  from Cons.IH[OF firewall_inv_step[OF assms Cons.prems, of b]] show ?case
    by (simp add: Let_def case_prod_unfold)
qed simp

text \<open>
  C35. On Windows the kill switch of the daemon keeps the firewall in step with its requests: after any
  sequence of calls of \<open>Enable\<close> and \<open>Disable\<close>, whatever commands fail, the rules of others are
  untouched and in their order, and the switch counts as on exactly if the last call
  without error was \<open>Enable\<close>. Started with no rule of its own, and where a rule that is there can be deleted,
  the firewall has exactly its five rules, in the order of the code, when it counts as on, and none of them when it
  counts as off, also after an \<open>Enable\<close> that failed half-way.
\<close>

theorem windows_firewall_follows:
  assumes "netsh_ok run rules" and "goos pr = ''windows''" and "\<not> ks_enabled ks"
    and "toggles (ks_enable pr run) (ks_disable pr run) bs (ks, os) = (es, ks', os')"
  shows "ks_enabled ks' = last_granted False bs es \<and>
    filter (Not \<circ> own) (rules os') = filter (Not \<circ> own) (rules os) \<and>
    (can_delete run rules \<and> filter own (rules os) = [] \<longrightarrow>
       filter own (rules os') = (if ks_enabled ks' then windows_installed (exe_path pr) else []))"
proof (intro conjI impI)
  show "ks_enabled ks' = last_granted False bs es"
    using ks_switch.follows[OF assms(4)] assms(3) by simp
  have inv: "firewall_inv (exe_path pr) rules tidy (filter (Not \<circ> own) (rules os)) (ks', os')"
    if "tidy \<longrightarrow> can_delete run rules \<and> filter own (rules os) = []" for tidy
    using firewall_inv_toggles[OF assms(1,2), of tidy "filter (Not \<circ> own) (rules os)" "(ks, os)" bs] assms(3,4) that
    by (simp add: firewall_inv_def)
  show "filter (Not \<circ> own) (rules os') = filter (Not \<circ> own) (rules os)"
    using inv[of False] by (simp add: firewall_inv_def)
  show "filter own (rules os') = (if ks_enabled ks' then windows_installed (exe_path pr) else [])"
    if "can_delete run rules \<and> filter own (rules os) = []"
    using inv[of True] that by (simp add: firewall_inv_def)
qed

text \<open>A firewall for the witness, with room for a number of rules.\<close>

definition small_firewall :: "nat \<Rightarrow> (string \<times> string list) list exec" where
  "small_firewall n c os =
     (if take 5 c = [''netsh'', ''advfirewall'', ''firewall'', ''add'', ''rule''] \<and> length os < n
      then ((True, []), os @ [(drop 5 (c ! 5), drop 6 c)])
      else if take 5 c = [''netsh'', ''advfirewall'', ''firewall'', ''delete'', ''rule'']
      then ((True, []), filter (\<lambda>r. fst r \<noteq> drop 5 (c ! 5)) os)
      else ((False, ''error''), os))"

definition windows_process :: process where
  "windows_process = \<lparr>goos = ''windows'', exe_path = [], pid = 1, euid = 0\<rparr>"

theorem windows_firewall_follows_witness:
  "(case toggles (ks_enable windows_process (small_firewall 4)) (ks_disable windows_process (small_firewall 4)) [True]
      (new_kill_switch ''p'' ''g'', [(''user'', [])]) of
     (es, ks', os') \<Rightarrow> es = [Some AddRule] \<and> os' = [(''user'', [])])"
proof -
  let ?run = "small_firewall 4" and ?os = "[(''user'', [])] :: (string \<times> string list) list"
  have ok: "netsh_ok ?run id" and del: "can_delete ?run id"
    by (auto simp: netsh_ok_def appending_def can_delete_def small_firewall_def add_rule_def delete_rule_def)
  have pr: "goos windows_process = ''windows''" "\<not> ks_enabled (new_kill_switch ''p'' ''g'')"
    by (simp_all add: windows_process_def new_kill_switch_def)
  obtain es ks' os' where t: "toggles (ks_enable windows_process ?run) (ks_disable windows_process ?run) [True]
      (new_kill_switch ''p'' ''g'', ?os) = (es, ks', os')" by (metis prod.exhaust)
  have e: "es = [Some AddRule]"
    using t by (simp add: ks_enable_def enable_windows_def windows_rules_def windows_rule_def windows_process_def
        new_kill_switch_def small_firewall_def windows_rule_name_def Let_def split: prod.splits)
  have o: "filter own ?os = []" by (simp add: own_def own_names_def windows_rule_name_def)
  from windows_firewall_follows[OF ok pr t] del o e
  have "filter (Not \<circ> own) os' = ?os" "filter own os' = []"
    by (auto simp: own_def own_names_def windows_rule_name_def)
  then have "os' = ?os" by (metis comp_def filter_empty_conv filter_id_conv)
  with t e show ?thesis by simp
qed


text \<open>
  On macOS the kill switch of the daemon installs no rule at all: run as root it only
  turns the packet filter on, and whatever comes of that it reports success and counts as
  enabled; without root it is refused and stays as it was.
\<close>

theorem darwin_enable_only_pfctl:
  "goos pr = ''darwin'' \<Longrightarrow> \<not> ks_enabled ks \<Longrightarrow>
   ks_enable pr run (ks, os) =
     (if euid pr = 0 then (None, ks\<lparr>ks_enabled := True\<rparr>, snd (run [''pfctl'', ''-e''] os))
      else (Some NeedsRoot, ks, os))"
  by (simp add: ks_enable_def enable_darwin_def Let_def)

theorem darwin_enable_only_pfctl_witness:
  "fst (ks_enable \<lparr>goos = ''darwin'', exe_path = [], pid = 1, euid = 0\<rparr> (small_machine 3 True)
     (new_kill_switch ''p'' ''g'', [])) = None"
  using darwin_enable_only_pfctl[of "\<lparr>goos = ''darwin'', exe_path = [], pid = 1, euid = 0\<rparr>"
      "new_kill_switch ''p'' ''g''" "small_machine 3 True" "[]"]
  by (simp add: new_kill_switch_def)

end
