(* ===== verification/Platform.thy ===== *)
theory Platform
  imports KillSwitch
begin

text \<open>
  \<^verbatim>\<open>platform/platform.go\<close> and the proxy configurators of \<^verbatim>\<open>platform_linux.go\<close>,
  \<^verbatim>\<open>platform_darwin.go\<close> and \<^verbatim>\<open>platform_windows.go\<close>. Commands are run as in theory
  KillSwitch; the environment and the files of the machine are arguments.
\<close>

section \<open>Platforms\<close>

datatype platform =
  PlatformAndroid | PlatformIOS | PlatformWindows | PlatformMacOS | PlatformLinux | PlatformUnknown

definition is_android_env :: "(string \<Rightarrow> string) \<Rightarrow> bool \<Rightarrow> bool" where
  "is_android_env getenv build_prop =
     (if getenv ''ANDROID_ROOT'' \<noteq> [] \<or> getenv ''ANDROID_DATA'' \<noteq> [] then True
      else build_prop)"

definition detect :: "string \<Rightarrow> (string \<Rightarrow> string) \<Rightarrow> bool \<Rightarrow> platform" where
  "detect os getenv build_prop =
     (if os = ''android'' then PlatformAndroid
      else if os = ''ios'' then PlatformIOS
      else if os = ''windows'' then PlatformWindows
      else if os = ''darwin'' then PlatformMacOS
      else if os = ''linux'' then
        (if is_android_env getenv build_prop then PlatformAndroid else PlatformLinux)
      else PlatformUnknown)"

definition platform_string :: "platform \<Rightarrow> string" where
  "platform_string p =
     (case p of
        PlatformAndroid \<Rightarrow> ''android'' | PlatformIOS \<Rightarrow> ''ios'' | PlatformWindows \<Rightarrow> ''windows''
      | PlatformMacOS \<Rightarrow> ''macos'' | PlatformLinux \<Rightarrow> ''linux'' | PlatformUnknown \<Rightarrow> ''unknown'')"

definition is_mobile :: "platform \<Rightarrow> bool" where
  "is_mobile p = (p = PlatformAndroid \<or> p = PlatformIOS)"

definition is_desktop :: "platform \<Rightarrow> bool" where
  "is_desktop p = (p = PlatformWindows \<or> p = PlatformMacOS \<or> p = PlatformLinux)"

record vpn_config =
  tunnel_address :: string
  dns_servers :: "string list"
  routes :: "string list"
  mtu :: int
  vpn_proxy_host :: string
  vpn_proxy_port :: int

definition default_vpn_config :: vpn_config where
  "default_vpn_config =
     \<lparr>tunnel_address = ''10.0.0.2/24'', dns_servers = [''1.1.1.1'', ''8.8.8.8''],
      routes = [''0.0.0.0/0''], mtu = 1500, vpn_proxy_host = ''127.0.0.1'', vpn_proxy_port = 1080\<rparr>"

section \<open>Proxy auto-configuration\<close>

definition quoted :: "string \<Rightarrow> string" where
  "quoted s = CHR 0x22 # s @ [CHR 0x22]"

definition pac_net :: "string \<Rightarrow> string \<Rightarrow> string" where
  "pac_net net netmask = ''        isInNet(dnsResolve(host), '' @ quoted net @ '', '' @ quoted netmask @ '')''"

definition pac_proxies :: "string \<Rightarrow> int \<Rightarrow> string" where
  "pac_proxies host port =
     ''SOCKS5 '' @ host @ '':'' @ dec_int port @ ''; SOCKS '' @ host @ '':'' @ dec_int port @ ''; DIRECT''"

text \<open>\<^verbatim>\<open>GeneratePACFile\<close>; the one for Windows has two comments more.\<close>

definition generate_pac_file :: "bool \<Rightarrow> string \<Rightarrow> int \<Rightarrow> string" where
  "generate_pac_file windows host port =
     ''function FindProxyForURL(url, host) {'' @ nl @
     (if windows then ''    // Direct connections for local/private addresses'' @ nl else []) @
     ''    if (isPlainHostName(host) ||'' @ nl @
     ''        shExpMatch(host, '' @ quoted ''*.local'' @ '') ||'' @ nl @
     pac_net ''10.0.0.0'' ''255.0.0.0'' @ '' ||'' @ nl @
     pac_net ''172.16.0.0'' ''255.240.0.0'' @ '' ||'' @ nl @
     pac_net ''192.168.0.0'' ''255.255.0.0'' @ '' ||'' @ nl @
     pac_net ''127.0.0.0'' ''255.0.0.0'' @ '') {'' @ nl @
     ''        return '' @ quoted ''DIRECT'' @ '';'' @ nl @
     ''    }'' @ nl @
     (if windows then ''    // Route all other traffic through AirBridge SOCKS5 proxy'' @ nl else []) @
     ''    return '' @ quoted (pac_proxies host port) @ '';'' @ nl @
     ''}''"

section \<open>Linux\<close>

record linux_configurator =
  lin_configured :: bool
  env_vars :: "string \<rightharpoonup> string"

definition new_linux_configurator :: linux_configurator where
  "new_linux_configurator = \<lparr>lin_configured = False, env_vars = Map.empty\<rparr>"

text \<open>The GNOME settings are tried, the rest is done whatever comes of them.\<close>

definition linux_set_proxy ::
  "'os exec \<Rightarrow> string \<Rightarrow> int \<Rightarrow> linux_configurator \<times> 'os \<Rightarrow> ks_err option \<times> linux_configurator \<times> 'os" where
  "linux_set_proxy run host port s =
     (let proxy_addr = ''socks5://'' @ host @ '':'' @ dec_int port;
          (res, os1) = run [''gsettings'', ''set'', ''org.gnome.system.proxy'', ''mode'', ''manual''] (snd s);
          os2 = (if fst res
                 then run_all run
                   [[''gsettings'', ''set'', ''org.gnome.system.proxy.socks'', ''host'', host],
                    [''gsettings'', ''set'', ''org.gnome.system.proxy.socks'', ''port'', dec_int port]] os1
                 else os1)
      in (None,
          (fst s)\<lparr>env_vars := (env_vars (fst s))(''ALL_PROXY'' \<mapsto> proxy_addr, ''all_proxy'' \<mapsto> proxy_addr),
                  lin_configured := True\<rparr>, os2))"

definition linux_clear_proxy ::
  "'os exec \<Rightarrow> linux_configurator \<times> 'os \<Rightarrow> ks_err option \<times> linux_configurator \<times> 'os" where
  "linux_clear_proxy run s =
     (None, (fst s)\<lparr>env_vars := Map.empty, lin_configured := False\<rparr>,
      snd (run [''gsettings'', ''set'', ''org.gnome.system.proxy'', ''mode'', ''none''] (snd s)))"

definition linux_is_configured :: "'os exec \<Rightarrow> linux_configurator \<times> 'os \<Rightarrow> (ks_err + bool) \<times> 'os" where
  "linux_is_configured run s =
     (let (res, os') = run [''gsettings'', ''get'', ''org.gnome.system.proxy'', ''mode''] (snd s)
      in (Inr (if fst res then str_contains (snd res) ''manual'' else lin_configured (fst s)), os'))"

section \<open>macOS\<close>

definition str_equal_fold :: "string \<Rightarrow> string \<Rightarrow> bool" where
  "str_equal_fold a b = (str_lower a = str_lower b)"

definition header_line :: "string \<Rightarrow> bool" where
  "header_line l = has_prefix l ''An asterisk''"

text \<open>\<^verbatim>\<open>detectActiveNetworkService\<close> on the output of \<^verbatim>\<open>networksetup\<close>, \<open>None\<close> if it failed.\<close>

fun find_wifi :: "string list \<Rightarrow> string option" where
  "find_wifi [] = None"
| "find_wifi (l # ls) =
     (let line = trim_space l
      in if line = [] \<or> has_prefix line ''*'' \<or> header_line line then find_wifi ls
         else if str_equal_fold line ''Wi-Fi'' \<or> str_equal_fold line ''WiFi'' then Some line
         else find_wifi ls)"

fun find_fallback :: "string list \<Rightarrow> string option" where
  "find_fallback [] = None"
| "find_fallback (l # ls) =
     (let line = trim_space l
      in if line \<noteq> [] \<and> \<not> header_line line then Some line else find_fallback ls)"

definition detect_active_network_service :: "string option \<Rightarrow> string" where
  "detect_active_network_service output =
     (case output of
        None \<Rightarrow> ''Wi-Fi''
      | Some out \<Rightarrow>
          (let ls = split_on (CHR 0x0A) out
           in case find_wifi ls of
                Some l \<Rightarrow> l
              | None \<Rightarrow> (case find_fallback ls of Some l \<Rightarrow> l | None \<Rightarrow> ''Wi-Fi'')))"

record darwin_configurator =
  dar_configured :: bool
  network_service :: string

definition new_darwin_configurator :: "string option \<Rightarrow> darwin_configurator" where
  "new_darwin_configurator output =
     \<lparr>dar_configured = False, network_service = detect_active_network_service output\<rparr>"

definition darwin_set_proxy ::
  "'os exec \<Rightarrow> string \<Rightarrow> int \<Rightarrow> darwin_configurator \<times> 'os \<Rightarrow> ks_err option \<times> darwin_configurator \<times> 'os" where
  "darwin_set_proxy run host port s =
     (let svc = network_service (fst s);
          (err, os') = run_checked run
            [[''networksetup'', ''-setsocksfirewallproxy'', svc, host, dec_int port],
             [''networksetup'', ''-setsocksfirewallproxystate'', svc, ''on'']] (snd s)
      in (err, (if err = None then (fst s)\<lparr>dar_configured := True\<rparr> else fst s), os'))"

definition darwin_clear_proxy ::
  "'os exec \<Rightarrow> darwin_configurator \<times> 'os \<Rightarrow> ks_err option \<times> darwin_configurator \<times> 'os" where
  "darwin_clear_proxy run s =
     (let (err, os') = run_checked run
            [[''networksetup'', ''-setsocksfirewallproxystate'', network_service (fst s), ''off'']] (snd s)
      in (err, (if err = None then (fst s)\<lparr>dar_configured := False\<rparr> else fst s), os'))"

definition darwin_is_configured :: "'os exec \<Rightarrow> darwin_configurator \<times> 'os \<Rightarrow> (ks_err + bool) \<times> 'os" where
  "darwin_is_configured run s =
     (let (res, os') = run [''networksetup'', ''-getsocksfirewallproxy'', network_service (fst s)] (snd s)
      in (Inr (if fst res then str_contains (snd res) ''Enabled: Yes'' else dar_configured (fst s)), os'))"

section \<open>Windows\<close>

record windows_configurator =
  previous_proxy :: string
  win_configured :: bool

definition new_windows_configurator :: windows_configurator where
  "new_windows_configurator = \<lparr>previous_proxy = [], win_configured = False\<rparr>"

definition internet_settings :: string where
  "internet_settings =
     ''HKCU'' @ [CHR 0x5C] @ ''Software'' @ [CHR 0x5C] @ ''Microsoft'' @ [CHR 0x5C] @ ''Windows'' @ [CHR 0x5C] @
     ''CurrentVersion'' @ [CHR 0x5C] @ ''Internet Settings''"

definition windows_set_proxy ::
  "'os exec \<Rightarrow> string \<Rightarrow> int \<Rightarrow> windows_configurator \<times> 'os \<Rightarrow> ks_err option \<times> windows_configurator \<times> 'os" where
  "windows_set_proxy run host port s =
     (let proxy_addr = ''socks='' @ host @ '':'' @ dec_int port;
          (res, os1) = run [''netsh'', ''winhttp'', ''set'', ''proxy'', ''proxy-server='' @ proxy_addr] (snd s)
      in if \<not> fst res then (Some (CommandFailed (snd res)), fst s, os1)
         else
           (None, (fst s)\<lparr>win_configured := True\<rparr>,
            run_all run
              [[''reg'', ''add'', internet_settings, ''/v'', ''ProxyEnable'', ''/t'', ''REG_DWORD'', ''/d'', ''1'', ''/f''],
               [''reg'', ''add'', internet_settings, ''/v'', ''ProxyServer'', ''/t'', ''REG_SZ'', ''/d'', proxy_addr, ''/f'']]
              os1))"

definition windows_clear_proxy ::
  "'os exec \<Rightarrow> windows_configurator \<times> 'os \<Rightarrow> ks_err option \<times> windows_configurator \<times> 'os" where
  "windows_clear_proxy run s =
     (let (res, os1) = run [''netsh'', ''winhttp'', ''reset'', ''proxy''] (snd s)
      in if \<not> fst res then (Some (CommandFailed (snd res)), fst s, os1)
         else
           (None, (fst s)\<lparr>win_configured := False\<rparr>,
            run_all run
              [[''reg'', ''add'', internet_settings, ''/v'', ''ProxyEnable'', ''/t'', ''REG_DWORD'', ''/d'', ''0'', ''/f'']]
              os1))"

definition windows_is_configured :: "'os exec \<Rightarrow> windows_configurator \<times> 'os \<Rightarrow> (ks_err + bool) \<times> 'os" where
  "windows_is_configured run s =
     (let (res, os') = run [''reg'', ''query'', internet_settings, ''/v'', ''ProxyEnable''] (snd s)
      in (if fst res then Inr (str_contains (snd res) ''0x1'') else Inl (CommandFailed (snd res)), os'))"

section \<open>The configurators as switches\<close>

interpretation linux_proxy: switch "linux_set_proxy run host port" "linux_clear_proxy run"
    "\<lambda>s. lin_configured (fst s)" for run host port
  by unfold_locales (auto simp: linux_set_proxy_def linux_clear_proxy_def Let_def case_prod_unfold)

interpretation darwin_proxy: switch "darwin_set_proxy run host port" "darwin_clear_proxy run"
    "\<lambda>s. dar_configured (fst s)" for run host port
  by unfold_locales
    (auto simp: darwin_set_proxy_def darwin_clear_proxy_def Let_def case_prod_unfold split: if_splits)

interpretation windows_proxy: switch "windows_set_proxy run host port" "windows_clear_proxy run"
    "\<lambda>s. win_configured (fst s)" for run host port
  by unfold_locales
    (auto simp: windows_set_proxy_def windows_clear_proxy_def Let_def case_prod_unfold split: if_splits)

section \<open>Properties\<close>

definition all_proxy_ok :: "string \<Rightarrow> int \<Rightarrow> linux_configurator \<Rightarrow> bool" where
  "all_proxy_ok host port c \<longleftrightarrow>
     env_vars c ''ALL_PROXY'' = (if lin_configured c then Some (''socks5://'' @ host @ '':'' @ dec_int port) else None)"

lemma all_proxy_toggles:
  "all_proxy_ok host port (fst s) \<Longrightarrow>
   all_proxy_ok host port (fst (snd (toggles (linux_set_proxy run host port) (linux_clear_proxy run) bs s)))"
proof (induction bs arbitrary: s)
  case (Cons b bs)
  have "all_proxy_ok host port (fst (snd (if b then linux_set_proxy run host port s else linux_clear_proxy run s)))"
    by (simp add: all_proxy_ok_def linux_set_proxy_def linux_clear_proxy_def Let_def case_prod_unfold)
  from Cons.IH[OF this] show ?case by (simp add: Let_def case_prod_unfold)
qed simp

text \<open>
  The configurator for Linux has \<^verbatim>\<open>ALL_PROXY\<close> set to the proxy exactly while it is configured, which it is
  if the last request was to set it, whatever comes of the commands.
\<close>

theorem all_proxy_follows:
  "let (es, c, os') = toggles (linux_set_proxy run host port) (linux_clear_proxy run) bs (new_linux_configurator, os) in
     all_proxy_ok host port c \<and> lin_configured c = last_granted False bs es"
  using all_proxy_toggles[of host port "(new_linux_configurator, os)" run bs]
    linux_proxy.follows[of run host port bs "(new_linux_configurator, os)"]
  by (auto simp: all_proxy_ok_def new_linux_configurator_def Let_def split: prod.splits)

text \<open>
  The network service chosen on macOS: if no enabled service is called Wi-Fi, it is the
  first line of the list after the header, also when the asterisk on it says that the
  service is disabled.
\<close>

theorem detect_service_fallback:
  assumes "find_wifi (split_on (CHR 0x0A) out) = None"
  shows "detect_active_network_service (Some out) =
    (case filter (\<lambda>l. l \<noteq> [] \<and> \<not> header_line l) (map trim_space (split_on (CHR 0x0A) out)) of
       [] \<Rightarrow> ''Wi-Fi'' | l # ls \<Rightarrow> l)"
proof -
  have "find_fallback ls = (case filter (\<lambda>l. l \<noteq> [] \<and> \<not> header_line l) (map trim_space ls) of
      [] \<Rightarrow> None | l # ls \<Rightarrow> Some l)" for ls
    by (induction ls) (auto simp: Let_def)
  with assms show ?thesis
    by (auto simp: detect_active_network_service_def split: list.splits)
qed

theorem detect_service_fallback_witness:
  "detect_active_network_service (Some (''An asterisk'' @ [CHR 0x0A] @ ''*Thunderbolt'' @ [CHR 0x0A] @ ''Ethernet'')) =
   ''*Thunderbolt''"
proof -
  let ?out = "''An asterisk'' @ [CHR 0x0A] @ ''*Thunderbolt'' @ [CHR 0x0A] @ ''Ethernet''"
  have "find_wifi (split_on (CHR 0x0A) ?out) = None" by code_simp
  moreover have "(case filter (\<lambda>l. l \<noteq> [] \<and> \<not> header_line l) (map trim_space (split_on (CHR 0x0A) ?out)) of
      [] \<Rightarrow> ''Wi-Fi'' | l # ls \<Rightarrow> l) = ''*Thunderbolt''" by code_simp
  ultimately show ?thesis by (simp only: detect_service_fallback)
qed

end
