(* ===== verification/Tunnel.thy ===== *)
theory Tunnel
  imports Prelude
begin

text \<open>
  The start of the tunnel, \<^verbatim>\<open>StartTunnel\<close> of \<^verbatim>\<open>services/daemon.go\<close>, as two goroutines: the
  caller, which holds the lock of the daemon from its first line to its return, and the one
  that runs the proxy server and on failure takes the lock to record it before it reports
  the error on a channel. The caller waits for the channel or for 100 ms, whichever happens.
\<close>

section \<open>The two goroutines\<close>

datatype tunnel_state = TunnelStopped | TunnelStarting | TunnelRunning | TunnelDegraded

text \<open>The caller waits, or goes on (arms the kill switch), or has returned, with or without an error.\<close>

datatype caller_pc = CSelect | CArm | CReturned bool

text \<open>The server listens, serves, waits for the lock, is about to send, is done.\<close>

datatype server_pc = SListen | SServe | SLock | SSend | SDone

record startup =
  su_lock :: bool
  su_caller :: caller_pc
  su_server :: server_pc
  su_chan :: bool
  su_state :: tunnel_state

definition startup_begin :: "startup \<Rightarrow> bool" where
  "startup_begin s \<longleftrightarrow>
     s = \<lparr>su_lock = True, su_caller = CSelect, su_server = SListen, su_chan = False, su_state = TunnelStarting\<rparr>"

inductive startup_step :: "startup \<Rightarrow> startup \<Rightarrow> bool" where
  bind_ok: "su_server s = SListen \<Longrightarrow> startup_step s (s\<lparr>su_server := SServe\<rparr>)"
| bind_fails: "su_server s = SListen \<Longrightarrow> startup_step s (s\<lparr>su_server := SLock\<rparr>)"
| serve_fails: "su_server s = SServe \<Longrightarrow> startup_step s (s\<lparr>su_server := SLock\<rparr>)"
| degrade: "su_server s = SLock \<Longrightarrow> \<not> su_lock s \<Longrightarrow>
    startup_step s (s\<lparr>su_state := TunnelDegraded, su_server := SSend\<rparr>)"
| report: "su_server s = SSend \<Longrightarrow> startup_step s (s\<lparr>su_chan := True, su_server := SDone\<rparr>)"
| received: "su_caller s = CSelect \<Longrightarrow> su_chan s \<Longrightarrow>
    startup_step s (s\<lparr>su_caller := CReturned True, su_lock := False\<rparr>)"
| waited: "su_caller s = CSelect \<Longrightarrow> startup_step s (s\<lparr>su_caller := CArm\<rparr>)"
| armed: "su_caller s = CArm \<Longrightarrow>
    startup_step s (s\<lparr>su_state := TunnelRunning, su_caller := CReturned False, su_lock := False\<rparr>)"

code_pred (modes: i \<Rightarrow> o \<Rightarrow> bool, i \<Rightarrow> i \<Rightarrow> bool) startup_step .

definition failed :: "server_pc \<Rightarrow> bool" where
  "failed p = (p = SSend \<or> p = SDone)"

lemma failed_simps [simp]:
  "\<not> failed SListen" "\<not> failed SServe" "\<not> failed SLock" "failed SSend" "failed SDone"
  by (simp_all add: failed_def)

text \<open>The invariant, by where the caller is.\<close>

definition startup_inv :: "startup \<Rightarrow> bool" where
  "startup_inv s \<longleftrightarrow>
     (case su_caller s of
        CReturned True \<Rightarrow> False
      | CReturned False \<Rightarrow>
          \<not> su_lock s \<and> su_state s = (if failed (su_server s) then TunnelDegraded else TunnelRunning)
      | _ \<Rightarrow> su_lock s \<and> \<not> su_chan s \<and> \<not> failed (su_server s) \<and> su_state s = TunnelStarting)"

lemma startup_inv_step: "startup_step s t \<Longrightarrow> startup_inv s \<Longrightarrow> startup_inv t"
  by (induction rule: startup_step.induct)
    (simp_all add: startup_inv_def split: caller_pc.splits bool.splits)

text \<open>The steps of the caller, and how many it has left.\<close>

definition caller_step :: "startup \<Rightarrow> startup \<Rightarrow> bool" where
  "caller_step s t \<longleftrightarrow> startup_step s t \<and> su_caller t \<noteq> su_caller s"

definition caller_left :: "startup \<Rightarrow> nat" where
  "caller_left s = (case su_caller s of CSelect \<Rightarrow> 2 | CArm \<Rightarrow> 1 | CReturned b \<Rightarrow> 0)"

inductive_cases startup_stepE: "startup_step s t"

interpretation startup_ts: closing_system startup_begin startup_step startup_inv caller_step "\<lambda>s. True" caller_left
proof
  show "startup_begin s \<Longrightarrow> startup_inv s" for s
    by (simp add: startup_begin_def startup_inv_def)
  show "startup_inv s \<Longrightarrow> startup_step s t \<Longrightarrow> startup_inv t" for s t
    by (rule startup_inv_step)
  show "caller_step s t \<Longrightarrow> startup_step s t" for s t
    by (simp add: caller_step_def)
  show "caller_step s t \<Longrightarrow> caller_left t < caller_left s" for s t
    by (auto simp: caller_step_def caller_left_def elim!: startup_stepE)
qed simp_all

text \<open>From every state the caller can return, by its own steps alone.\<close>

lemma caller_rests: "startup_inv s \<Longrightarrow> \<nexists>u. caller_step s u \<Longrightarrow> su_caller s = CReturned False"
  using waited[of s] armed[of s]
  by (cases "su_caller s") (fastforce simp: caller_step_def startup_inv_def split: bool.splits)+

lemma caller_returns:
  assumes "startup_inv s"
  shows "\<exists>t. caller_step\<^sup>*\<^sup>* s t \<and> su_caller t = CReturned False"
  using startup_ts.comes_to_rest[OF assms] caller_rests by blast

text \<open>
  C31. \<^verbatim>\<open>StartTunnel\<close> never reports that the proxy could not bind, in any interleaving with
  the goroutine that finds it out: that goroutine needs the lock which the caller holds until
  it returns. While the caller waits the channel stays empty; by its own steps it can always return, and
  it returns without an error and with the tunnel running; only afterwards does a failure degrade it.
\<close>

theorem start_tunnel_never_reports_bind_failure:
  assumes "startup_begin s0" and "startup_step\<^sup>*\<^sup>* s0 s"
  shows "su_caller s \<noteq> CReturned True \<and>
    (su_caller s = CSelect \<longrightarrow> \<not> su_chan s \<and> \<not> failed (su_server s)) \<and>
    (su_caller s = CReturned False \<longrightarrow>
       su_state s = (if failed (su_server s) then TunnelDegraded else TunnelRunning)) \<and>
    (\<exists>t. caller_step\<^sup>*\<^sup>* s t \<and> su_caller t = CReturned False)"
  using startup_ts.inv_reachable[OF assms] caller_returns[OF startup_ts.inv_reachable[OF assms]]
  by (simp add: startup_inv_def split: caller_pc.splits bool.splits)

text \<open>The run in which the port is taken: the caller has returned success, and then the tunnel is degraded.\<close>

theorem start_tunnel_never_reports_bind_failure_witness:
  "\<exists>s0 s. startup_begin s0 \<and> startup_step\<^sup>*\<^sup>* s0 s \<and> su_server s = SSend \<and>
     su_caller s = CReturned False \<and> su_state s = TunnelDegraded"
proof -
  let ?s0 = "\<lparr>su_lock = True, su_caller = CSelect, su_server = SListen, su_chan = False, su_state = TunnelStarting\<rparr>"
  let ?s1 = "?s0\<lparr>su_server := SLock\<rparr>"
  let ?s2 = "?s1\<lparr>su_caller := CArm\<rparr>"
  let ?s3 = "?s2\<lparr>su_state := TunnelRunning, su_caller := CReturned False, su_lock := False\<rparr>"
  let ?s4 = "?s3\<lparr>su_state := TunnelDegraded, su_server := SSend\<rparr>"
  have 1: "startup_step\<^sup>*\<^sup>* ?s0 ?s1" by (rule r_into_rtranclp, rule bind_fails) simp
  have 2: "startup_step\<^sup>*\<^sup>* ?s0 ?s2" by (rule rtranclp.rtrancl_into_rtrancl, rule 1, rule waited) simp
  have 3: "startup_step\<^sup>*\<^sup>* ?s0 ?s3" by (rule rtranclp.rtrancl_into_rtrancl, rule 2, rule armed) simp
  have 4: "startup_step\<^sup>*\<^sup>* ?s0 ?s4" by (rule rtranclp.rtrancl_into_rtrancl, rule 3, rule degrade) simp_all
  have b: "startup_begin ?s0" by (simp add: startup_begin_def)
  have "su_state ?s4 = TunnelDegraded"
    using start_tunnel_never_reports_bind_failure[OF b 4] by simp
  with b 4 show ?thesis by (intro exI[of _ ?s0] exI[of _ ?s4]) simp
qed

end
