(* ===== verification/Daemon.thy ===== *)
theory Daemon
  imports Tunnel Ttl Fragment UserAgent RateLimiter ProxyServer Storage Mesh KillSwitch
begin

text \<open>
  \<^verbatim>\<open>services/daemon.go\<close> and \<^verbatim>\<open>services/daemon_api.go\<close>: the control plane, which owns the
  proxy, the mesh, the privacy engines, the store and the kill switch. Every method is an
  operation on the daemon; those that use the kill switch also change the machine \<open>'os\<close>.
  The library (random numbers, base64, JSON, floating point) and the clock are arguments.
\<close>

section \<open>State\<close>

datatype node_role = RoleUnspecified | RoleMaster | RoleClient

definition role_string :: "node_role \<Rightarrow> string" where
  "role_string r = (case r of RoleMaster \<Rightarrow> ''master'' | RoleClient \<Rightarrow> ''client'' | RoleUnspecified \<Rightarrow> ''unspecified'')"

record qr_credentials =
  qr_node_id :: string
  qr_proxy_host :: string
  qr_proxy_port :: int
  qr_quic_port :: int
  qr_key :: string
  qr_expires_at :: int
  qr_auth_token :: string

record 'f traffic =
  ts_bytes_in :: i64
  ts_bytes_out :: i64
  ts_in_bps :: 'f
  ts_out_bps :: 'f
  ts_active :: i64
  ts_total :: i64
  ts_packets :: i64
  ts_time :: int

record privacy_config =
  pc_doh :: bool
  pc_kill_switch :: bool
  pc_ttl :: bool
  pc_fragmenter :: bool
  pc_ua :: bool
  pc_bandwidth_kbps :: int

definition zero_privacy_config :: privacy_config where
  "zero_privacy_config = \<lparr>pc_doh = False, pc_kill_switch = False, pc_ttl = False, pc_fragmenter = False,
     pc_ua = False, pc_bandwidth_kbps = 0\<rparr>"

record daemon_config =
  dc_node_id :: string
  dc_grpc_address :: string
  dc_proxy_address :: string
  dc_quic_port :: int
  dc_version :: string

definition default_daemon_config :: daemon_config where
  "default_daemon_config =
     \<lparr>dc_node_id = ''airbridge-node'', dc_grpc_address = ''127.0.0.1:50051'',
      dc_proxy_address = ''127.0.0.1:1080'', dc_quic_port = 4433, dc_version = ''1.0.0''\<rparr>"

text \<open>The proxy server with its limiter, and whether \<^verbatim>\<open>ListenAndServe\<close> was called and not shut down.\<close>

record proxy_handle =
  ph_server :: "token_authenticator socks_server"
  ph_limiter :: rate_limiter
  ph_serving :: bool

record 'f daemon =
  d_cfg :: daemon_config
  d_role :: node_role
  d_tunnel :: tunnel_state
  d_started_at :: int
  d_proxy :: "proxy_handle option"
  d_mesh :: "mesh option"
  d_ttl :: "ttl_normalizer option"
  d_frag :: "fragmenter option"
  d_ua :: "ua_harmonizer option"
  d_store :: "peers_table option"
  d_kill_switch :: "kill_switch option"
  d_privacy :: privacy_config
  d_history :: "'f traffic list"
  d_max_history :: nat
  d_cancelled :: bool

text \<open>\<^verbatim>\<open>proxy.NewServer\<close> with the limiter it makes, \<^verbatim>\<open>NewRateLimiter(0)\<close>.\<close>

definition new_proxy :: "token_authenticator server_config \<Rightarrow> proxy_handle" where
  "new_proxy cfg = \<lparr>ph_server = new_server cfg, ph_limiter = new_rate_limiter 0 0 0, ph_serving = False\<rparr>"

definition new_daemon ::
  "daemon_config \<Rightarrow> proxy_handle option \<Rightarrow> mesh option \<Rightarrow> ttl_normalizer option \<Rightarrow> fragmenter option \<Rightarrow>
   ua_harmonizer option \<Rightarrow> peers_table option \<Rightarrow> kill_switch option \<Rightarrow> 'f daemon" where
  "new_daemon cfg px ms tt fr ua st ks =
     \<lparr>d_cfg = cfg, d_role = RoleUnspecified, d_tunnel = TunnelStopped, d_started_at = 0, d_proxy = px,
      d_mesh = ms, d_ttl = tt, d_frag = fr, d_ua = ua, d_store = st, d_kill_switch = ks,
      d_privacy = zero_privacy_config, d_history = [], d_max_history = 60, d_cancelled = False\<rparr>"

section \<open>Life cycle and status\<close>

definition daemon_start :: "int \<Rightarrow> 'f daemon \<Rightarrow> 'f daemon" where
  "daemon_start now d =
     d\<lparr>d_started_at := now, d_cancelled := False,
       d_mesh := map_option (\<lambda>m. snd (start m)) (d_mesh d)\<rparr>"

definition shutdown_proxy :: "proxy_handle \<Rightarrow> proxy_handle" where
  "shutdown_proxy p = p\<lparr>ph_serving := False\<rparr>"

text \<open>The argument says whether the context of \<^verbatim>\<open>Stop\<close> ends before the loops of the mesh do.\<close>

definition daemon_stop :: "bool \<Rightarrow> 'f daemon \<Rightarrow> 'f daemon" where
  "daemon_stop late d =
     d\<lparr>d_cancelled := True, d_proxy := map_option shutdown_proxy (d_proxy d),
       d_mesh := map_option (\<lambda>m. snd (stop late m)) (d_mesh d), d_tunnel := TunnelStopped\<rparr>"

definition set_role :: "node_role \<Rightarrow> 'f daemon \<Rightarrow> 'f daemon" where
  "set_role r d = d\<lparr>d_role := r\<rparr>"

record node_status =
  ns_node_id :: string
  ns_tunnel :: tunnel_state
  ns_connected :: nat
  ns_started_at :: int

definition status :: "'f daemon \<Rightarrow> node_status" where
  "status d =
     \<lparr>ns_node_id = dc_node_id (d_cfg d), ns_tunnel = d_tunnel d,
      ns_connected = (case d_mesh d of None \<Rightarrow> 0 | Some m \<Rightarrow> length (list_connected_peers m)),
      ns_started_at = d_started_at d\<rparr>"

definition daemon_list_peers :: "'t codecs \<Rightarrow> 'f daemon \<Rightarrow> store_err + 't peer list" where
  "daemon_list_peers cd d = (case d_store d of None \<Rightarrow> Inr [] | Some db \<Rightarrow> list_peers cd db)"

section \<open>The tunnel\<close>

text \<open>
  \<^verbatim>\<open>StartTunnel\<close> up to its return, which by theory Tunnel does not depend on the server
  goroutine; \<^verbatim>\<open>serve_failed\<close> is what that goroutine does to the state when the server
  returns an error. An error of the kill switch is only logged.
\<close>

definition start_tunnel :: "process \<Rightarrow> 'os exec \<Rightarrow> 'f daemon \<times> 'os \<Rightarrow> 'f daemon \<times> 'os" where
  "start_tunnel pr run s =
     (let (d, os) = s in
      if d_tunnel d = TunnelRunning then s
      else
        let d1 = d\<lparr>d_tunnel := TunnelStarting\<rparr>;
            d2 = (if d_role d1 = RoleMaster
                  then d1\<lparr>d_proxy := map_option (\<lambda>p. p\<lparr>ph_serving := True\<rparr>) (d_proxy d1)\<rparr> else d1);
            (d3, os') = (case d_kill_switch d2 of
                           None \<Rightarrow> (d2, os)
                         | Some ks \<Rightarrow> (let (e, ks', os') = ks_enable pr run (ks, os)
                                       in (d2\<lparr>d_kill_switch := Some ks'\<rparr>, os')))
        in (d3\<lparr>d_tunnel := TunnelRunning\<rparr>, os'))"

definition serve_failed :: "'f daemon \<Rightarrow> 'f daemon" where
  "serve_failed d = d\<lparr>d_tunnel := TunnelDegraded\<rparr>"

definition stop_tunnel :: "process \<Rightarrow> 'os exec \<Rightarrow> 'f daemon \<times> 'os \<Rightarrow> 'f daemon \<times> 'os" where
  "stop_tunnel pr run s =
     (let (d, os) = s;
          (d1, os1) = (case d_kill_switch d of
                         None \<Rightarrow> (d, os)
                       | Some ks \<Rightarrow> (let (e, ks', os') = ks_disable pr run (ks, os)
                                     in (d\<lparr>d_kill_switch := Some ks'\<rparr>, os')))
      in (d1\<lparr>d_proxy := map_option shutdown_proxy (d_proxy d1), d_tunnel := TunnelStopped\<rparr>, os1))"

section \<open>Configuration at run time\<close>

text \<open>
  \<^verbatim>\<open>UpdateDaemonConfig\<close>: a new proxy address shuts the server down and makes a new one
  (\<open>reload_config\<close>); a running tunnel is then stopped and started again, in the background, which
  is here done at once. In the transition system below other calls may come in between.
\<close>

definition reloaded_config :: "'f daemon \<Rightarrow> token_authenticator server_config" where
  "reloaded_config d =
     \<lparr>bind_address = dc_proxy_address (d_cfg d), tls_config = False, auth = None, max_connections = 1000,
      dial_timeout = 10, relay_buf_size = 32768, doh_enabled = False, kill_switch_enabled = False,
      ttl_engine_on = (d_ttl d \<noteq> None)\<rparr>"

definition proxy_moves :: "daemon_config \<Rightarrow> daemon_config \<Rightarrow> bool" where
  "proxy_moves new c \<longleftrightarrow> dc_proxy_address new \<noteq> [] \<and> dc_proxy_address c \<noteq> dc_proxy_address new"

definition merge_config :: "daemon_config \<Rightarrow> daemon_config \<Rightarrow> daemon_config" where
  "merge_config new c0 =
     (let c1 = (if dc_node_id new \<noteq> [] then c0\<lparr>dc_node_id := dc_node_id new\<rparr> else c0);
          c2 = (if proxy_moves new c1 then c1\<lparr>dc_proxy_address := dc_proxy_address new\<rparr> else c1);
          c3 = (if dc_grpc_address new \<noteq> [] then c2\<lparr>dc_grpc_address := dc_grpc_address new\<rparr> else c2)
      in if dc_quic_port new > 0 then c3\<lparr>dc_quic_port := dc_quic_port new\<rparr> else c3)"

definition reload_config :: "daemon_config \<Rightarrow> 'f daemon \<Rightarrow> 'f daemon" where
  "reload_config new d =
     (let d1 = d\<lparr>d_cfg := merge_config new (d_cfg d)\<rparr>
      in if proxy_moves new (d_cfg d) \<and> d_proxy d \<noteq> None
         then d1\<lparr>d_proxy := Some (new_proxy (reloaded_config d1))\<rparr> else d1)"

definition update_daemon_config ::
  "process \<Rightarrow> 'os exec \<Rightarrow> daemon_config \<Rightarrow> 'f daemon \<times> 'os \<Rightarrow> 'f daemon \<times> 'os" where
  "update_daemon_config pr run new s =
     (let (d, os) = s;
          d1 = reload_config new d
      in if proxy_moves new (d_cfg d) \<and> d_proxy d \<noteq> None \<and> d_tunnel d1 = TunnelRunning
         then start_tunnel pr run (stop_tunnel pr run (d1, os)) else (d1, os))"

definition set_bandwidth_limit :: "int \<Rightarrow> proxy_handle \<Rightarrow> proxy_handle" where
  "set_bandwidth_limit bps p = p\<lparr>ph_limiter := set_rate bps (ph_limiter p)\<rparr>"

definition set_privacy_config :: "privacy_config \<Rightarrow> 'f daemon \<Rightarrow> 'f daemon" where
  "set_privacy_config c d =
     d\<lparr>d_privacy := c,
       d_ttl := map_option (ttl_set_enabled (pc_ttl c)) (d_ttl d),
       d_frag := map_option (frag_set_enabled (pc_fragmenter c)) (d_frag d),
       d_ua := map_option (ua_set_enabled (pc_ua c)) (d_ua d),
       d_proxy := map_option (\<lambda>p. set_bandwidth_limit (pc_bandwidth_kbps c * 1024 div 8)
           (p\<lparr>ph_server := update_privacy_config (pc_doh c) (pc_kill_switch c) (ph_server p)\<rparr>)) (d_proxy d)\<rparr>"

definition get_privacy_config :: "'f daemon \<Rightarrow> privacy_config" where
  "get_privacy_config d = d_privacy d"

section \<open>Traffic history\<close>

definition current_traffic :: "'f \<Rightarrow> int \<Rightarrow> 'f daemon \<Rightarrow> 'f traffic" where
  "current_traffic zero now d =
     (let m = (case d_proxy d of None \<Rightarrow> empty_metrics | Some p \<Rightarrow> get_metrics (ph_server p))
      in \<lparr>ts_bytes_in = bytes_in m, ts_bytes_out = bytes_out m, ts_in_bps = zero, ts_out_bps = zero,
          ts_active = active_connections m, ts_total = total_connections m,
          ts_packets = (case d_ttl d of None \<Rightarrow> 0 | Some t \<Rightarrow> packets_processed (ttl_get_stats t)),
          ts_time = now\<rparr>)"

record collector =
  prev_in :: i64
  prev_out :: i64
  prev_time :: int

text \<open>
  A tick of \<^verbatim>\<open>collectTrafficStats\<close>. \<open>bps n e\<close> is \<^verbatim>\<open>float64(n) * 8 / elapsed\<close>, with the elapsed
  time in nanoseconds; a difference is a signed 64-bit word.
\<close>

definition add_history :: "nat \<Rightarrow> 'h list \<Rightarrow> 'h \<Rightarrow> 'h list" where
  "add_history n h x =
     (let h' = h @ [x] in if length h' > n then drop (length h' - n) h' else h')"

definition collect_tick ::
  "'f \<Rightarrow> (int \<Rightarrow> int \<Rightarrow> 'f) \<Rightarrow> int \<Rightarrow> int \<Rightarrow> collector \<times> 'f daemon \<Rightarrow> collector \<times> 'f daemon" where
  "collect_tick zero bps t now cd =
     (let (c, d) = cd;
          snap = current_traffic zero t d;
          e = now - prev_time c;
          elapsed = (if e \<le> 0 then 1000000000 else e);
          din = ts_bytes_in snap - prev_in c;
          dout = ts_bytes_out snap - prev_out c;
          snap' = snap\<lparr>ts_in_bps := bps (if sint din < 0 then 0 else sint din) elapsed,
                       ts_out_bps := bps (if sint dout < 0 then 0 else sint dout) elapsed,
                       ts_time := now\<rparr>
      in (\<lparr>prev_in = ts_bytes_in snap, prev_out = ts_bytes_out snap, prev_time = now\<rparr>,
          d\<lparr>d_history := add_history (d_max_history d) (d_history d) snap'\<rparr>))"

definition get_traffic_stats :: "'f \<Rightarrow> int \<Rightarrow> 'f daemon \<Rightarrow> 'f traffic \<times> 'f traffic list" where
  "get_traffic_stats zero now d = (current_traffic zero now d, d_history d)"

definition get_traffic_snapshot :: "'f \<Rightarrow> int \<Rightarrow> 'f daemon \<Rightarrow> 'f traffic" where
  "get_traffic_snapshot zero now d =
     (if d_history d \<noteq> [] then last (d_history d) else current_traffic zero now d)"

record privacy_stats =
  ps_ttl :: "ttl_stats option"
  ps_frag :: "fragment_stats option"
  ps_ua :: "ua_stats option"

definition get_privacy_stats :: "'f daemon \<Rightarrow> privacy_stats" where
  "get_privacy_stats d =
     \<lparr>ps_ttl = map_option ttl_get_stats (d_ttl d), ps_frag = map_option frag_get_stats (d_frag d),
      ps_ua = map_option ua_get_stats (d_ua d)\<rparr>"

section \<open>Addresses\<close>

definition extract_port :: "string \<Rightarrow> int" where
  "extract_port address =
     (case split_host_port address of
        Inl e \<Rightarrow> 1080
      | Inr (h, port_str) \<Rightarrow>
          (case atoi port_str of
             None \<Rightarrow> 1080
           | Some port \<Rightarrow> if port \<le> 0 \<or> port > 65535 then 1080 else port))"

record interface =
  if_name :: string
  if_up :: bool
  if_loopback :: bool
  if_addrs :: "bytes list option"

definition is_virtual :: "string \<Rightarrow> bool" where
  "is_virtual name =
     list_ex (\<lambda>p. str_contains (str_lower name) p)
       [''docker'', ''vbox'', ''veth'', ''wsl'', ''br-'', ''tun'', ''tap'', ''vnic'', ''vmnet'']"

definition is_preferred :: "string \<Rightarrow> bool" where
  "is_preferred name = list_ex (\<lambda>p. str_contains (str_lower name) p) [''wlan'', ''wifi'', ''eth'', ''en'']"

text \<open>\<^verbatim>\<open>IP.IsLoopback\<close> of an address with four bytes; any other is skipped anyway.\<close>

definition ip4_loopback :: "bytes \<Rightarrow> bool" where
  "ip4_loopback a = (a ! 0 = 127)"

text \<open>
  The addresses of one interface: the first IPv4 address decides if the name is one of the
  preferred ones, otherwise it becomes the fallback, unless there is one already.
\<close>

fun scan_addrs :: "string \<Rightarrow> bytes list \<Rightarrow> string \<Rightarrow> string option \<times> string" where
  "scan_addrs name [] fallback = (None, fallback)"
| "scan_addrs name (a # as) fallback =
     (case ip_to4 a of
        None \<Rightarrow> scan_addrs name as fallback
      | Some a4 \<Rightarrow>
          if ip4_loopback a4 then scan_addrs name as fallback
          else if is_preferred name then (Some (ip4_string a4), fallback)
          else scan_addrs name as (if fallback = [] then ip4_string a4 else fallback))"

fun scan_ifaces :: "interface list \<Rightarrow> string \<Rightarrow> string option \<times> string" where
  "scan_ifaces [] fallback = (None, fallback)"
| "scan_ifaces (i # is) fallback =
     (if \<not> if_up i \<or> if_loopback i \<or> is_virtual (if_name i) then scan_ifaces is fallback
      else case if_addrs i of
             None \<Rightarrow> scan_ifaces is fallback
           | Some as \<Rightarrow>
               (case scan_addrs (if_name i) as fallback of
                  (Some r, f) \<Rightarrow> (Some r, f)
                | (None, f) \<Rightarrow> scan_ifaces is f))"

definition detect_local_ip :: "interface list option \<Rightarrow> string" where
  "detect_local_ip ifaces =
     (case ifaces of
        None \<Rightarrow> ''127.0.0.1''
      | Some is \<Rightarrow>
          (case scan_ifaces is [] of
             (Some r, f) \<Rightarrow> r
           | (None, f) \<Rightarrow> if f \<noteq> [] then f else ''127.0.0.1''))"

section \<open>Pairing by QR code\<close>

datatype qr_err = RandomFailed | MarshalFailed | DecodeFailed | UnmarshalFailed | Expired int | MeshConnect mesh_err

record qr_codec =
  b64_encode :: "bytes \<Rightarrow> string"
  b64_decode :: "string \<Rightarrow> bytes option"
  qr_marshal :: "qr_credentials \<Rightarrow> bytes option"
  qr_unmarshal :: "bytes \<Rightarrow> qr_credentials option"

definition generate_qr ::
  "qr_codec \<Rightarrow> bytes option \<Rightarrow> bytes option \<Rightarrow> interface list option \<Rightarrow> int \<Rightarrow> 'f daemon \<Rightarrow> qr_err + qr_credentials" where
  "generate_qr qc key token ifaces now d =
     (case key of
        None \<Rightarrow> Inl RandomFailed
      | Some k \<Rightarrow>
          (case token of
             None \<Rightarrow> Inl RandomFailed
           | Some t \<Rightarrow>
               Inr \<lparr>qr_node_id = dc_node_id (d_cfg d), qr_proxy_host = detect_local_ip ifaces,
                    qr_proxy_port = extract_port (dc_proxy_address (d_cfg d)),
                    qr_quic_port = dc_quic_port (d_cfg d), qr_key = b64_encode qc k,
                    qr_expires_at = (now + 24 * 3600 * 1000000000) div 1000000,
                    qr_auth_token = b64_encode qc t\<rparr>))"

definition encode_qr :: "qr_codec \<Rightarrow> qr_credentials \<Rightarrow> qr_err + string" where
  "encode_qr qc c = (case qr_marshal qc c of None \<Rightarrow> Inl MarshalFailed | Some b \<Rightarrow> Inr (b64_encode qc b))"

definition decode_qr :: "qr_codec \<Rightarrow> string \<Rightarrow> qr_err + qr_credentials" where
  "decode_qr qc p =
     (case b64_decode qc p of
        None \<Rightarrow> Inl DecodeFailed
      | Some b \<Rightarrow> (case qr_unmarshal qc b of None \<Rightarrow> Inl UnmarshalFailed | Some c \<Rightarrow> Inr c))"

definition import_qr ::
  "qr_codec \<Rightarrow> (string \<Rightarrow> dial_result) \<Rightarrow> int \<Rightarrow> string \<Rightarrow> 'f daemon \<Rightarrow> qr_err option \<times> 'f daemon" where
  "import_qr qc net now payload d =
     (case decode_qr qc payload of
        Inl e \<Rightarrow> (Some e, d)
      | Inr c \<Rightarrow>
          if now div 1000000 > qr_expires_at c then (Some (Expired (qr_expires_at c)), d)
          else
            (case d_mesh d of
               None \<Rightarrow> (None, d)
             | Some m \<Rightarrow>
                 (let info = \<lparr>info_id = qr_node_id c, info_public_key = [],
                              info_addrs = [qr_proxy_host c @ '':'' @ dec_int (qr_quic_port c)]\<rparr>;
                      (e, m') = connect net now info m
                  in (map_option MeshConnect e, d\<lparr>d_mesh := Some m'\<rparr>))))"

text \<open>
  A tick of the rotation loop: credentials are made and dropped, and the proxy is told to
  invalidate its sessions.
\<close>

definition rotation_tick ::
  "qr_codec \<Rightarrow> bytes option \<Rightarrow> bytes option \<Rightarrow> interface list option \<Rightarrow> int \<Rightarrow> 'f daemon \<Rightarrow> 'f daemon" where
  "rotation_tick qc key token ifaces now d =
     (case generate_qr qc key token ifaces now d of
        Inl e \<Rightarrow> d
      | Inr c \<Rightarrow> d\<lparr>d_proxy := map_option (\<lambda>p. p\<lparr>ph_server := invalidate_sessions (ph_server p)\<rparr>) (d_proxy d)\<rparr>)"

section \<open>The daemon as a transition system\<close>

text \<open>
  Everything that changes the daemon: its own methods and ticks, what the mesh does, and the
  running proxy and engines, which change their counters only.
\<close>

inductive daemon_step :: "process \<Rightarrow> 'os exec \<Rightarrow> 'f daemon \<times> 'os \<Rightarrow> 'f daemon \<times> 'os \<Rightarrow> bool"
  for pr and run where
  ds_start: "daemon_step pr run (d, os) (daemon_start now d, os)"
| ds_stop: "daemon_step pr run (d, os) (daemon_stop late d, os)"
| ds_set_role: "daemon_step pr run (d, os) (set_role r d, os)"
| ds_start_tunnel: "daemon_step pr run s (start_tunnel pr run s)"
| ds_serve_failed: "daemon_step pr run (d, os) (serve_failed d, os)"
| ds_stop_tunnel: "daemon_step pr run s (stop_tunnel pr run s)"
| ds_update: "daemon_step pr run s (update_daemon_config pr run new s)"
| ds_reload: "daemon_step pr run (d, os) (reload_config new d, os)"
| ds_privacy: "daemon_step pr run (d, os) (set_privacy_config c d, os)"
| ds_collect: "daemon_step pr run (d, os) (snd (collect_tick zero bps t now (col, d)), os)"
| ds_import: "daemon_step pr run (d, os) (snd (import_qr qc net now payload d), os)"
| ds_rotate: "daemon_step pr run (d, os) (rotation_tick qc key token ifaces now d, os)"
| ds_mesh: "d_mesh d = Some m \<Longrightarrow> mesh_step m m' \<Longrightarrow> daemon_step pr run (d, os) (d\<lparr>d_mesh := Some m'\<rparr>, os)"
| ds_proxy: "d_proxy d = Some p \<Longrightarrow> srv_cfg srv = srv_cfg (ph_server p) \<Longrightarrow>
    daemon_step pr run (d, os) (d\<lparr>d_proxy := Some (p\<lparr>ph_server := srv, ph_limiter := l\<rparr>)\<rparr>, os)"
| ds_engines: "daemon_step pr run (d, os) (d\<lparr>d_ttl := tt, d_frag := fr, d_ua := ua\<rparr>, os)"

text \<open>
  The daemon as \<^verbatim>\<open>main\<close> puts it together: a proxy with an authenticator that holds no
  token, the engines with their default configuration, a mesh, and the kill switch.
\<close>

definition wired_daemon ::
  "string \<Rightarrow> string \<Rightarrow> mesh \<Rightarrow> fragmenter \<Rightarrow> peers_table \<Rightarrow> 'f daemon" where
  "wired_daemon node version m fr db =
     (let cfg = default_daemon_config\<lparr>dc_node_id := node, dc_version := version\<rparr>
      in new_daemon cfg
           (Some (new_proxy (default_server_config\<lparr>auth := Some (new_token_authenticator Map.empty),
              ttl_engine_on := True\<rparr>)))
           (Some m) (Some (new_ttl_normalizer default_ttl_config)) (Some fr)
           (Some (new_ua_harmonizer default_ua_config)) (Some db)
           (Some (new_kill_switch (dc_proxy_address cfg) (dc_grpc_address cfg))))"

section \<open>Invariant\<close>

definition proxy_ok :: "proxy_handle option \<Rightarrow> bool" where
  "proxy_ok px \<longleftrightarrow>
     (\<forall>p. px = Some p \<longrightarrow>
        auth (srv_cfg (ph_server p)) = None \<or>
        auth (srv_cfg (ph_server p)) = Some (new_token_authenticator Map.empty))"

definition daemon_inv :: "'f daemon \<times> 'os \<Rightarrow> bool" where
  "daemon_inv s \<longleftrightarrow>
     proxy_ok (d_proxy (fst s)) \<and> length (d_history (fst s)) \<le> d_max_history (fst s) \<and>
     d_max_history (fst s) = 60 \<and> (\<forall>m. d_mesh (fst s) = Some m \<longrightarrow> mesh_inv m)"

lemma proxy_ok_map:
  "proxy_ok px \<Longrightarrow> (\<And>p. auth (srv_cfg (ph_server (f p))) = auth (srv_cfg (ph_server p))) \<Longrightarrow>
   proxy_ok (map_option f px)"
  by (auto simp: proxy_ok_def)

lemma new_server_auth [simp]: "auth (srv_cfg (new_server cfg)) = auth cfg"
  by (simp add: new_server_def Let_def)

lemma daemon_inv_cong:
  "d_proxy d' = d_proxy d \<Longrightarrow> d_history d' = d_history d \<Longrightarrow> d_max_history d' = d_max_history d \<Longrightarrow>
   d_mesh d' = d_mesh d \<Longrightarrow> daemon_inv (d', os') = daemon_inv (d, os)"
  by (simp add: daemon_inv_def)

lemma daemon_inv_proxy:
  "daemon_inv (d, os) \<Longrightarrow> proxy_ok px \<Longrightarrow> daemon_inv (d\<lparr>d_proxy := px\<rparr>, os')"
  by (simp add: daemon_inv_def)

lemma start_tunnel_fields:
  "d_history (fst (start_tunnel pr run s)) = d_history (fst s)"
  "d_max_history (fst (start_tunnel pr run s)) = d_max_history (fst s)"
  "d_mesh (fst (start_tunnel pr run s)) = d_mesh (fst s)"
  "d_privacy (fst (start_tunnel pr run s)) = d_privacy (fst s)"
  "map_option ph_server (d_proxy (fst (start_tunnel pr run s))) = map_option ph_server (d_proxy (fst s))"
  "map_option ph_limiter (d_proxy (fst (start_tunnel pr run s))) = map_option ph_limiter (d_proxy (fst s))"
  "d_tunnel (fst (start_tunnel pr run s)) = TunnelRunning"
  by (auto simp: start_tunnel_def Let_def case_prod_unfold option.map_comp comp_def split: option.splits)

lemma stop_tunnel_fields:
  "d_history (fst (stop_tunnel pr run s)) = d_history (fst s)"
  "d_max_history (fst (stop_tunnel pr run s)) = d_max_history (fst s)"
  "d_mesh (fst (stop_tunnel pr run s)) = d_mesh (fst s)"
  "d_privacy (fst (stop_tunnel pr run s)) = d_privacy (fst s)"
  "map_option ph_server (d_proxy (fst (stop_tunnel pr run s))) = map_option ph_server (d_proxy (fst s))"
  "map_option ph_limiter (d_proxy (fst (stop_tunnel pr run s))) = map_option ph_limiter (d_proxy (fst s))"
  "d_tunnel (fst (stop_tunnel pr run s)) = TunnelStopped"
  by (auto simp: stop_tunnel_def shutdown_proxy_def Let_def case_prod_unfold option.map_comp comp_def
      split: option.splits)

lemma proxy_ok_servers: "map_option ph_server px' = map_option ph_server px \<Longrightarrow> proxy_ok px' = proxy_ok px"
  by (cases px; cases px') (auto simp: proxy_ok_def)

lemma start_tunnel_inv: "daemon_inv s \<Longrightarrow> daemon_inv (start_tunnel pr run s)"
  using start_tunnel_fields[of pr run s] proxy_ok_servers[of "d_proxy (fst (start_tunnel pr run s))" "d_proxy (fst s)"]
  by (simp add: daemon_inv_def)

lemma stop_tunnel_inv: "daemon_inv s \<Longrightarrow> daemon_inv (stop_tunnel pr run s)"
  using stop_tunnel_fields[of pr run s] proxy_ok_servers[of "d_proxy (fst (stop_tunnel pr run s))" "d_proxy (fst s)"]
  by (simp add: daemon_inv_def)

lemma reload_inv:
  assumes "daemon_inv (d, os)"
  shows "daemon_inv (reload_config new d, os)"
proof -
  have c: "daemon_inv (d\<lparr>d_cfg := c\<rparr>, os)" for c
    using assms by (simp add: daemon_inv_def)
  then have "daemon_inv (d\<lparr>d_cfg := c, d_proxy := Some (new_proxy (reloaded_config d'))\<rparr>, os)" for c and d' :: "'a daemon"
    by (simp add: daemon_inv_def proxy_ok_def new_proxy_def reloaded_config_def)
  with c show ?thesis
    by (simp add: reload_config_def Let_def)
qed

lemma update_inv: "daemon_inv (d, os) \<Longrightarrow> daemon_inv (update_daemon_config pr run new (d, os))"
  by (simp add: update_daemon_config_def Let_def reload_inv start_tunnel_inv stop_tunnel_inv)

lemma length_add_history: "length h \<le> n \<Longrightarrow> length (add_history n h x) \<le> n"
  by (cases n) (auto simp: add_history_def Let_def)

lemma daemon_step_inv: "daemon_step pr run s t \<Longrightarrow> daemon_inv s \<Longrightarrow> daemon_inv t"
proof (induction rule: daemon_step.induct)
  case (ds_start d os now)
  have "mesh_inv (snd (start m))" if "mesh_inv m" for m
    using mesh_step_inv[OF step_start that] .
  with ds_start show ?case by (auto simp: daemon_inv_def daemon_start_def)
next
  case (ds_stop d os late)
  then show ?case
    by (auto simp: daemon_inv_def daemon_stop_def stop_inv shutdown_proxy_def intro!: proxy_ok_map)
next
  case (ds_privacy d os c)
  then show ?case
    by (auto simp: daemon_inv_def set_privacy_config_def set_bandwidth_limit_def update_privacy_config_def intro!: proxy_ok_map)
next
  case (ds_collect d os zero bps t now col)
  then show ?case
    by (simp add: daemon_inv_def collect_tick_def Let_def length_add_history)
next
  case (ds_import d os qc net now payload)
  then show ?case
    by (auto simp: daemon_inv_def import_qr_def Let_def case_prod_unfold connect_inv split: sum.splits option.splits)
next
  case (ds_rotate d os qc key token ifaces now)
  then show ?case
    by (auto simp: daemon_inv_def rotation_tick_def invalidate_sessions_def intro!: proxy_ok_map split: sum.splits)
next
  case (ds_mesh d m m' os)
  then show ?case by (auto simp: daemon_inv_def mesh_step_inv)
next
  case (ds_proxy d p srv os l)
  then show ?case by (auto simp: daemon_inv_def proxy_ok_def)
next
  case (ds_update s new)
  then show ?case by (cases s) (simp add: update_inv)
qed (simp_all add: start_tunnel_inv stop_tunnel_inv reload_inv, simp_all add: daemon_inv_def set_role_def serve_failed_def)

lemma wired_inv: "fresh_mesh m \<Longrightarrow> daemon_inv (wired_daemon node version m fr db, os)"
  by (simp add: daemon_inv_def wired_daemon_def new_daemon_def new_proxy_def Let_def proxy_ok_def fresh_mesh_inv)

interpretation daemon_ts: transition_system
  "\<lambda>s. \<exists>node version m fr db os. fresh_mesh m \<and> s = (wired_daemon node version m fr db, os)"
  "daemon_step pr run" daemon_inv for pr run
proof
  show "\<exists>node version m fr db os. fresh_mesh m \<and> s = (wired_daemon node version m fr db, os) \<Longrightarrow> daemon_inv s"
    for s :: "'a daemon \<times> 'b"
    by (auto intro: wired_inv)
  show "daemon_inv s \<Longrightarrow> daemon_step pr run s t \<Longrightarrow> daemon_inv t" for s t :: "'a daemon \<times> 'b"
    by (rule daemon_step_inv)
qed

section \<open>Properties\<close>

text \<open>
  C5. Who gets through the proxy, in every state the daemon can reach from the wiring of
  \<^verbatim>\<open>main\<close>, whatever is called and however the mesh, the proxy and the engines run in
  between: either the proxy asks for no authentication at all, or it accepts no credential
  whatever, in particular not the token of a QR code, which is never registered. The history
  never holds more than 60 snapshots and the mesh never panics.
\<close>

theorem daemon_reachable_ok:
  assumes "fresh_mesh m" and "(daemon_step pr run)\<^sup>*\<^sup>* (wired_daemon node version m fr db, os0) (d, os)"
  shows "(d_proxy d = Some p \<longrightarrow>
       auth (srv_cfg (ph_server p)) = None \<or>
       (\<exists>a. auth (srv_cfg (ph_server p)) = Some a \<and> \<not> ta_validate a user password)) \<and>
    length (d_history d) \<le> 60 \<and> (d_mesh d = Some m' \<longrightarrow> \<not> panicked m')"
proof -
  have "daemon_inv (d, os)"
    using daemon_ts.inv_reachable[OF _ assms(2)] assms(1) by blast
  then show ?thesis
    by (auto simp: daemon_inv_def proxy_ok_def mesh_inv_def events_ok_def new_token_authenticator_def ta_validate_def)
qed

definition no_exec :: "unit exec" where
  "no_exec c os = ((True, []), os)"

definition sample_fragmenter :: fragmenter where
  "sample_fragmenter = \<lparr>frag_cfg = default_fragmenter_config, frag_st = empty_fragment_stats\<rparr>"

definition sample_daemon :: "unit daemon" where
  "sample_daemon = wired_daemon ''n'' ''1'' sample_mesh sample_fragmenter []"

theorem daemon_reachable_ok_witness:
  "length (d_history (fst (start_tunnel linux_process no_exec (set_role RoleMaster sample_daemon, ())))) \<le> 60"
proof -
  let ?s0 = "(sample_daemon, ())" and ?s1 = "(set_role RoleMaster sample_daemon, ())"
  let ?s2 = "start_tunnel linux_process no_exec ?s1"
  have 1: "(daemon_step linux_process no_exec)\<^sup>*\<^sup>* ?s0 ?s1"
    by (rule r_into_rtranclp, rule ds_set_role)
  have "(daemon_step linux_process no_exec)\<^sup>*\<^sup>* ?s0 ?s2"
    by (rule rtranclp.rtrancl_into_rtrancl, rule 1, rule ds_start_tunnel)
  then have "(daemon_step linux_process no_exec)\<^sup>*\<^sup>*
      (wired_daemon ''n'' ''1'' sample_mesh sample_fragmenter [], ()) (fst ?s2, snd ?s2)"
    by (simp only: sample_daemon_def prod.collapse)
  from daemon_reachable_ok[OF sample_fresh this] show ?thesis by blast
qed

text \<open>
  C19. \<^verbatim>\<open>SetPrivacyConfig\<close> puts the configuration in force: it is what is reported
  afterwards, every engine is on exactly as asked, an engine that is off hands on all its
  input unchanged and stays as it is, the proxy has the two flags, and bandwidth is limited
  exactly if the limit is positive, to 128 bytes per second for each kbit/s. The kill switch
  itself is not touched: its flag reaches the proxy only.
\<close>

theorem privacy_config_in_force:
  assumes "d_ttl d = Some t" and "d_frag d = Some f" and "d_ua d = Some u" and "d_proxy d = Some p"
  shows "let d' = set_privacy_config c d in
    get_privacy_config d' = c \<and> d_kill_switch d' = d_kill_switch d \<and>
    (\<exists>t' f' u' p'. d_ttl d' = Some t' \<and> d_frag d' = Some f' \<and> d_ua d' = Some u' \<and> d_proxy d' = Some p' \<and>
       ttl_is_enabled t' = pc_ttl c \<and> frag_is_enabled f' = pc_fragmenter c \<and> ua_is_enabled u' = pc_ua c \<and>
       doh_enabled (srv_cfg (ph_server p')) = pc_doh c \<and>
       kill_switch_enabled (srv_cfg (ph_server p')) = pc_kill_switch c \<and>
       rl_is_enabled (ph_limiter p') = (0 < pc_bandwidth_kbps c) \<and>
       (0 < pc_bandwidth_kbps c \<longrightarrow> bytes_per_sec (ph_limiter p') = 128 * pc_bandwidth_kbps c) \<and>
       (\<not> pc_ttl c \<longrightarrow>
          run_list (\<lambda>n x. let (r, x', n') = normalize_packet n x in (x', n')) t' xs = (xs, t')) \<and>
       (\<not> pc_ua c \<longrightarrow>
          run_list (\<lambda>h x. let (r, h') = harmonize_raw_http rd wr h x in (fst r, h')) u' xs = (xs, u')) \<and>
       (\<not> pc_fragmenter c \<longrightarrow>
          run_list (\<lambda>f x. case fragment ent k f x of
              (Inl e, k', f') \<Rightarrow> (x, f') | (Inr fs, k', f') \<Rightarrow> (concat fs, f')) f' xs = (xs, f')))"
  using assms ttl_engine.switched_off[of t xs] ua_engine.switched_off[of rd wr u xs]
    fragment_engine.switched_off[of ent k f xs] ttl_engine.is_on_set[of "pc_ttl c" t]
    fragment_engine.is_on_set[of "pc_fragmenter c" f] ua_engine.is_on_set[of "pc_ua c" u]
  by (simp add: set_privacy_config_def set_bandwidth_limit_def get_privacy_config_def update_privacy_config_def set_rate_def
      rl_is_enabled_def Let_def)

theorem privacy_config_in_force_witness:
  "get_privacy_config (set_privacy_config (zero_privacy_config\<lparr>pc_ttl := True\<rparr>) sample_daemon) =
   zero_privacy_config\<lparr>pc_ttl := True\<rparr>"
proof -
  have "\<exists>t. d_ttl sample_daemon = Some t" "\<exists>f. d_frag sample_daemon = Some f" "\<exists>u. d_ua sample_daemon = Some u"
    "\<exists>p. d_proxy sample_daemon = Some p"
    by (simp_all add: sample_daemon_def wired_daemon_def new_daemon_def Let_def)
  then obtain t f u p where "d_ttl sample_daemon = Some t" "d_frag sample_daemon = Some f"
    "d_ua sample_daemon = Some u" "d_proxy sample_daemon = Some p"
    by blast
  from privacy_config_in_force[OF this, of "zero_privacy_config\<lparr>pc_ttl := True\<rparr>", unfolded Let_def]
  show ?thesis by (rule conjunct1)
qed

lemma tunnel_keeps_engines:
  "d_ttl (fst (start_tunnel pr run s)) = d_ttl (fst s) \<and> d_frag (fst (start_tunnel pr run s)) = d_frag (fst s) \<and>
   d_ua (fst (start_tunnel pr run s)) = d_ua (fst s)"
  "d_ttl (fst (stop_tunnel pr run s)) = d_ttl (fst s) \<and> d_frag (fst (stop_tunnel pr run s)) = d_frag (fst s) \<and>
   d_ua (fst (stop_tunnel pr run s)) = d_ua (fst s)"
  by (auto simp: start_tunnel_def stop_tunnel_def Let_def case_prod_unfold split: option.splits)



end
