(* ===== verification/Pairing.thy ===== *)
theory Pairing
  imports Daemon
begin

text \<open>
  Pairing by QR code, \<^verbatim>\<open>GenerateQRCredentials\<close>, \<^verbatim>\<open>EncodeQRPayload\<close>, \<^verbatim>\<open>DecodeQRPayload\<close> and
  \<^verbatim>\<open>ImportQRCredentials\<close> of theory Daemon: which address is announced, that the credentials are
  well-formed, and that a code made by one node enters it as a peer of the node that scans it.
\<close>

section \<open>The address announced\<close>

text \<open>The IPv4 addresses of the interfaces that are up and real, and whether the name is a preferred one.\<close>

definition usable :: "interface \<Rightarrow> bool" where
  "usable i \<longleftrightarrow> if_up i \<and> \<not> if_loopback i \<and> \<not> is_virtual (if_name i)"

definition lan_quads :: "bytes list \<Rightarrow> bytes list" where
  "lan_quads as = filter (\<lambda>q. \<not> ip4_loopback q) (List.map_filter ip_to4 as)"

definition iface_candidates :: "interface \<Rightarrow> (bool \<times> bytes) list" where
  "iface_candidates i =
     (if usable i then (case if_addrs i of None \<Rightarrow> [] | Some as \<Rightarrow> map (Pair (is_preferred (if_name i))) (lan_quads as))
      else [])"

definition candidates :: "interface list option \<Rightarrow> (bool \<times> bytes) list" where
  "candidates ifaces = (case ifaces of None \<Rightarrow> [] | Some is \<Rightarrow> concat (map iface_candidates is))"

text \<open>What is announced: the first preferred candidate, without one the first candidate.\<close>

definition announced :: "(bool \<times> bytes) list \<Rightarrow> bytes" where
  "announced cs =
     (case find fst cs of
        Some c \<Rightarrow> snd c
      | None \<Rightarrow> (case cs of [] \<Rightarrow> [127, 0, 0, 1] | c # _ \<Rightarrow> snd c))"

lemma ip4_string_not_Nil [simp]: "ip4_string q \<noteq> []" "[] \<noteq> ip4_string q"
  by (simp_all add: ip4_string_def)

lemma lan_quads_Cons:
  "lan_quads (a # as) =
     (case ip_to4 a of None \<Rightarrow> lan_quads as | Some q \<Rightarrow> if ip4_loopback q then lan_quads as else q # lan_quads as)"
  by (simp add: lan_quads_def List.map_filter_simps split: option.split)

definition first_string :: "bytes list \<Rightarrow> string" where
  "first_string qs = (case qs of [] \<Rightarrow> [] | q # _ \<Rightarrow> ip4_string q)"

lemma first_string_simps [simp]: "first_string [] = []" "first_string (q # qs) = ip4_string q"
  by (simp_all add: first_string_def)

lemma first_string_append:
  "first_string (qs @ rs) = (if first_string qs = [] then first_string rs else first_string qs)"
  by (cases qs) simp_all

lemma scan_addrs_preferred:
  "is_preferred name \<Longrightarrow> scan_addrs name as f = (map_option ip4_string (find (\<lambda>_. True) (lan_quads as)), f)"
  by (induction as) (simp_all add: lan_quads_def List.map_filter_simps split: option.split)

lemma scan_addrs_other:
  "\<not> is_preferred name \<Longrightarrow>
   scan_addrs name as f = (None, if f = [] then first_string (lan_quads as) else f)"
  by (induction as arbitrary: f) (simp_all add: lan_quads_def List.map_filter_simps split: option.split)

lemma find_map_Pair:
  "find fst (map (Pair b) qs) = (if b then map_option (Pair True) (find (\<lambda>_. True) qs) else None)"
  by (cases b; induction qs) simp_all

lemma find_append: "find P (xs @ ys) = (case find P xs of Some x \<Rightarrow> Some x | None \<Rightarrow> find P ys)"
  by (induction xs) simp_all

lemma scan_ifaces_spec:
  "fst (scan_ifaces is f) = map_option (ip4_string \<circ> snd) (find fst (candidates (Some is))) \<and>
   (find fst (candidates (Some is)) = None \<longrightarrow>
      snd (scan_ifaces is f) = (if f = [] then first_string (map snd (candidates (Some is))) else f))"
proof (induction "is" arbitrary: f)
  case Nil
  show ?case by (simp add: candidates_def)
next
  case (Cons i "is")
  let ?cs = "candidates (Some is)"
  have cs: "candidates (Some (i # is)) = iface_candidates i @ ?cs"
    by (simp add: candidates_def)
  show ?case
  proof (cases "usable i")
    case False
    then have "scan_ifaces (i # is) f = scan_ifaces is f" by (auto simp: usable_def)
    with Cons False show ?thesis by (simp add: cs iface_candidates_def)
  next
    case True
    then have u: "if_up i" "\<not> if_loopback i" "\<not> is_virtual (if_name i)" by (simp_all add: usable_def)
    show ?thesis
    proof (cases "if_addrs i")
      case None
      with Cons True u show ?thesis by (simp add: cs iface_candidates_def)
    next
      case (Some as)
      show ?thesis
      proof (cases "is_preferred (if_name i)")
        case p: True
        with Cons True u Some show ?thesis
          by (cases "lan_quads as") (simp_all add: cs iface_candidates_def scan_addrs_preferred)
      next
        case p: False
        with Cons.IH True u Some show ?thesis
          by (simp add: cs iface_candidates_def scan_addrs_other find_append find_map_Pair first_string_append comp_def)
      qed
    qed
  qed
qed

lemma detect_local_ip_announced: "detect_local_ip ifaces = ip4_string (announced (candidates ifaces))"
proof (cases ifaces)
  case None
  then show ?thesis by (simp add: detect_local_ip_def candidates_def announced_def) code_simp
next
  case (Some "is")
  have l: "ip4_string [127, 0, 0, 1] = ''127.0.0.1''" by code_simp
  from Some scan_ifaces_spec[of "is" "[]"] show ?thesis
    by (cases "scan_ifaces is []"; cases "candidates (Some is)")
      (auto simp: detect_local_ip_def announced_def l split: option.splits)
qed

section \<open>The credentials\<close>

lemma extract_port_range: "1 \<le> extract_port a \<and> extract_port a \<le> 65535"
  by (simp add: extract_port_def split: sum.split prod.split option.split)

lemma extract_port_sprintf:
  "plain_host h \<Longrightarrow> p < 2 ^ 63 \<Longrightarrow>
   extract_port (sprintf_host_port h p) = (if 1 \<le> p \<and> p \<le> 65535 then int p else 1080)"
  by (simp add: extract_port_def split_host_port_sprintf atoi_dec_nat)

lemma lan_quads_length: "q \<in> set (lan_quads as) \<Longrightarrow> length q = 4"
  by (auto simp: lan_quads_def map_filter_def ip_to4_def split: if_splits)

lemma candidates_length: "(b, q) \<in> set (candidates ifaces) \<Longrightarrow> length q = 4"
  by (auto simp: candidates_def iface_candidates_def lan_quads_length split: option.splits if_splits)

lemma length_announced: "length (announced (candidates ifaces)) = 4"
proof (cases "find fst (candidates ifaces)")
  case None
  then show ?thesis
    using candidates_length[of "fst (hd (candidates ifaces))" _ ifaces]
    by (cases "candidates ifaces") (auto simp: announced_def split: if_splits)
next
  case (Some c)
  then have "c \<in> set (candidates ifaces)"
    by (auto simp: find_Some_iff)
  with Some show ?thesis
    using candidates_length[of "fst c" "snd c" ifaces] by (simp add: announced_def)
qed

definition valid_credentials :: "qr_credentials \<Rightarrow> bool" where
  "valid_credentials c \<longleftrightarrow>
     (\<exists>q. length q = 4 \<and> qr_proxy_host c = ip4_string q) \<and>
     1 \<le> qr_proxy_port c \<and> qr_proxy_port c \<le> 65535"

text \<open>
  C27. The address announced is the first usable IPv4 address of an interface with a preferred
  name, else the first usable one, else the loopback address: the search with its fallback
  variable over interfaces and addresses equals this selection from the list of candidates.
\<close>

theorem detect_local_ip_selects: "detect_local_ip ifaces = ip4_string (announced (candidates ifaces))"
  by (rule detect_local_ip_announced)

text \<open>
  C26. The credentials generated are well-formed: the host is a dotted quad, the port is a valid
  one, and the port of the proxy if its address has one; the key and the token decode to the
  random bytes drawn, in that order, and the code expires a day later, in milliseconds. Nothing
  is generated if either draw fails.
\<close>

theorem generated_credentials_valid:
  assumes "\<And>b. b64_decode qc (b64_encode qc b) = Some b"
    and "generate_qr qc key token ifaces now d = Inr c"
  shows "valid_credentials c \<and> key \<noteq> None \<and> token \<noteq> None \<and>
    b64_decode qc (qr_key c) = key \<and> b64_decode qc (qr_auth_token c) = token \<and>
    qr_expires_at c = now div 1000000 + 86400000 \<and>
    (dc_proxy_address (d_cfg d) = sprintf_host_port h p \<and> plain_host h \<and> 1 \<le> p \<and> p \<le> 65535 \<longrightarrow>
       qr_proxy_port c = int p)"
proof -
  have "(now + 24 * 3600 * 1000000000) div 1000000 = now div 1000000 + 86400000"
    by simp
  moreover have "\<exists>q. length q = 4 \<and> detect_local_ip ifaces = ip4_string q"
    using detect_local_ip_announced length_announced by blast
  ultimately show ?thesis
    using assms(2) by (auto simp: generate_qr_def assms(1) extract_port_sprintf extract_port_range valid_credentials_def
        split: option.splits)
qed

definition plain_codec :: "qr_credentials \<Rightarrow> qr_codec" where
  "plain_codec c =
     \<lparr>b64_encode = str_of_bytes, b64_decode = (\<lambda>s. Some (bytes_of_str s)),
      qr_marshal = (\<lambda>x. if x = c then Some [123, 125] else None),
      qr_unmarshal = (\<lambda>b. if b = [123, 125] then Some c else None)\<rparr>"

definition sample_credentials :: qr_credentials where
  "sample_credentials =
     \<lparr>qr_node_id = ''n'', qr_proxy_host = ''192.168.1.7'', qr_proxy_port = 1080, qr_quic_port = 4433,
      qr_key = str_of_bytes [1, 2], qr_expires_at = 86400001, qr_auth_token = str_of_bytes [3]\<rparr>"

definition sample_interfaces :: "interface list" where
  "sample_interfaces =
     [\<lparr>if_name = ''docker0'', if_up = True, if_loopback = False, if_addrs = Some [[172, 17, 0, 1]]\<rparr>,
      \<lparr>if_name = ''eth0'', if_up = True, if_loopback = False, if_addrs = Some [[192, 168, 1, 7]]\<rparr>]"

lemma sample_generate:
  "generate_qr (plain_codec sample_credentials) (Some [1, 2]) (Some [3]) (Some sample_interfaces) 1000000
     (sample_daemon :: unit daemon) = Inr sample_credentials"
proof -
  have ip: "detect_local_ip (Some sample_interfaces) = ''192.168.1.7''" by code_simp
  have "''127.0.0.1:1080'' = sprintf_host_port ''127.0.0.1'' 1080" by code_simp
  then have port: "extract_port ''127.0.0.1:1080'' = 1080"
    using extract_port_sprintf[of "''127.0.0.1''" 1080] by (simp add: plain_host_def)
  show ?thesis
    by (simp add: generate_qr_def ip port sample_credentials_def plain_codec_def sample_daemon_def wired_daemon_def
        new_daemon_def default_daemon_config_def Let_def)
qed

theorem generated_credentials_valid_witness:
  "valid_credentials sample_credentials \<and> qr_proxy_port sample_credentials = int 1080"
proof -
  have "dc_proxy_address (d_cfg (sample_daemon :: unit daemon)) = sprintf_host_port ''127.0.0.1'' 1080"
    by (simp add: sample_daemon_def wired_daemon_def new_daemon_def default_daemon_config_def Let_def) code_simp
  moreover have "b64_decode (plain_codec sample_credentials) (b64_encode (plain_codec sample_credentials) b) = Some b" for b
    by (simp add: plain_codec_def)
  ultimately show ?thesis
    using generated_credentials_valid[OF _ sample_generate, of "''127.0.0.1''" 1080] by (simp add: plain_host_def)
qed

section \<open>From one node to the other\<close>

lemma decode_encode_qr:
  assumes "\<And>b. b64_decode qc (b64_encode qc b) = Some b" and "\<And>b. qr_marshal qc c = Some b \<Longrightarrow> qr_unmarshal qc b = Some c"
    and "encode_qr qc c = Inr payload"
  shows "decode_qr qc payload = Inr c"
  using assms by (auto simp: encode_qr_def decode_qr_def split: option.splits)

text \<open>
  C25. Pairing. The code of one node is read by another as the credentials that were put into
  it. Until it expires the import enters the first node as a peer, under its name, at an
  address that splits into the host announced and the QUIC port, connected exactly if that
  address can be dialled and passes the handshake; a millisecond after it has expired the
  import reports so and changes nothing. A node does not enter itself.
\<close>

theorem pairing_roundtrip:
  assumes "\<And>b. b64_decode qc (b64_encode qc b) = Some b"
    and "\<And>b. qr_marshal qc c = Some b \<Longrightarrow> qr_unmarshal qc b = Some c"
    and "generate_qr qc key token ifaces now d1 = Inr c" and "encode_qr qc c = Inr payload"
    and "d_mesh d2 = Some m" and "started m" and "dc_quic_port (d_cfg d1) = int port"
  shows "decode_qr qc payload = Inr c \<and>
    (now2 div 1000000 > now div 1000000 + 86400000 \<longrightarrow>
       import_qr qc net now2 payload d2 = (Some (Expired (now div 1000000 + 86400000)), d2)) \<and>
    (now2 div 1000000 \<le> now div 1000000 + 86400000 \<longrightarrow>
       fst (import_qr qc net now2 payload d2) =
         (if dc_node_id (d_cfg d1) = node_id m then Some (MeshConnect ErrSelfConnect) else None) \<and>
       (dc_node_id (d_cfg d1) \<noteq> node_id m \<longrightarrow>
          (\<exists>m' p addr. d_mesh (snd (import_qr qc net now2 payload d2)) = Some m' \<and>
             map_of (peers m') (dc_node_id (d_cfg d1)) = Some p \<and> info_addrs (cp_info p) = [addr] \<and>
             split_host_port addr = Inr (detect_local_ip ifaces, dec_nat port) \<and>
             (cp_conn p \<noteq> None) = (net addr = Secured))))"
proof -
  let ?host = "detect_local_ip ifaces" and ?id = "dc_node_id (d_cfg d1)"
  let ?addr = "sprintf_host_port ?host port"
  let ?info = "\<lparr>info_id = ?id, info_public_key = [], info_addrs = [?addr]\<rparr>"
  have c: "qr_node_id c = ?id" "qr_proxy_host c = ?host" "qr_quic_port c = int port"
    "qr_expires_at c = now div 1000000 + 86400000"
    using assms(3,7) by (auto simp: generate_qr_def split: option.splits)
  have dec: "decode_qr qc payload = Inr c"
    by (rule decode_encode_qr) (use assms in auto)
  have split: "split_host_port ?addr = Inr (?host, dec_nat port)"
    by (rule split_host_port_sprintf) (simp add: detect_local_ip_announced ip4_string_plain)
  have imp: "import_qr qc net now2 payload d2 =
      (map_option MeshConnect (fst (connect net now2 ?info m)), d2\<lparr>d_mesh := Some (snd (connect net now2 ?info m))\<rparr>)"
    if "now2 div 1000000 \<le> now div 1000000 + 86400000"
    using that by (simp add: import_qr_def dec c assms(5) dec_int_def sprintf_host_port_def case_prod_unfold Let_def)
  have exp: "import_qr qc net now2 payload d2 = (Some (Expired (now div 1000000 + 86400000)), d2)"
    if "now2 div 1000000 > now div 1000000 + 86400000"
    using that by (simp add: import_qr_def dec c)
  from connect_enters[OF assms(6), of net now2 ?info] show ?thesis
    using dec split exp imp by auto
qed

theorem pairing_roundtrip_witness:
  "fst (import_qr (plain_codec sample_credentials) (\<lambda>a. Secured) 2000000 (str_of_bytes [123, 125])
     ((sample_daemon :: unit daemon)\<lparr>d_mesh := Some (sample_mesh\<lparr>started := True\<rparr>)\<rparr>)) = None"
proof -
  have n: "(''n'' = node_id sample_mesh) = False" by code_simp
  have e: "encode_qr (plain_codec sample_credentials) sample_credentials = Inr (str_of_bytes [123, 125])"
    by (simp add: encode_qr_def plain_codec_def)
  have q: "dc_quic_port (d_cfg (sample_daemon :: unit daemon)) = int 4433"
    "dc_node_id (d_cfg (sample_daemon :: unit daemon)) = ''n''"
    by (simp_all add: sample_daemon_def wired_daemon_def new_daemon_def default_daemon_config_def Let_def)
  show ?thesis
    using pairing_roundtrip[OF _ _ sample_generate e _ _ q(1),
        of "(sample_daemon :: unit daemon)\<lparr>d_mesh := Some (sample_mesh\<lparr>started := True\<rparr>)\<rparr>"
        "sample_mesh\<lparr>started := True\<rparr>" 2000000 "\<lambda>a. Secured"] n q(2)
    by (simp add: plain_codec_def)
qed

end
