(* ===== verification/Grpc.thy ===== *)
theory Grpc
  imports Daemon
begin

text \<open>
  \<^verbatim>\<open>services/grpc_server.go\<close>: the control plane service. A unary call passes the interceptor,
  which limits the calls of an address, and then the handler of its method, an operation of the
  daemon with the request and the response translated. A response is what the handler returns;
  its encoding is that of the gRPC library.
\<close>

section \<open>Enumerations of the protocol\<close>

text \<open>An enumeration is a 32-bit integer on the wire; a request may hold any.\<close>

type_synonym proto_enum = "32 word"

definition map_tunnel_state :: "tunnel_state \<Rightarrow> proto_enum" where
  "map_tunnel_state s =
     (case s of TunnelStopped \<Rightarrow> 1 | TunnelStarting \<Rightarrow> 2 | TunnelRunning \<Rightarrow> 3 | TunnelDegraded \<Rightarrow> 4)"

definition map_node_role :: "node_role \<Rightarrow> proto_enum" where
  "map_node_role r = (case r of RoleMaster \<Rightarrow> 1 | RoleClient \<Rightarrow> 2 | RoleUnspecified \<Rightarrow> 0)"

definition map_proto_role :: "proto_enum \<Rightarrow> node_role" where
  "map_proto_role r = (if r = 1 then RoleMaster else if r = 2 then RoleClient else RoleUnspecified)"

section \<open>Requests and responses\<close>

datatype grpc_err = Internal | ResourceExhaustedImport | ResourceExhausted | Unimplemented

record status_response =
  sr_node_id :: string
  sr_tunnel_state :: proto_enum
  sr_role :: proto_enum
  sr_connected_peers :: "32 word"
  sr_started_at_ms :: int
  sr_uptime :: int
  sr_version :: string
  sr_platform :: string

record start_response =
  str_state :: proto_enum
  str_proxy_address :: string
  str_quic_port :: "32 word"

record role_response =
  rr_role :: proto_enum
  rr_tunnel_state :: proto_enum

record qr_response =
  gq_payload :: string
  gq_proxy_host :: string
  gq_proxy_port :: "32 word"
  gq_quic_port :: "32 word"
  gq_key :: bytes
  gq_expires_at :: int

record import_response =
  ir_success :: bool
  ir_peer_id :: string
  ir_proxy_address :: string
  ir_error :: "qr_err option"

record 'f traffic_proto =
  tp_bytes_in :: i64
  tp_bytes_out :: i64
  tp_in_bps :: 'f
  tp_out_bps :: 'f
  tp_active :: i64
  tp_total :: i64
  tp_packets :: i64

record privacy_request =
  pr_doh :: bool
  pr_kill_switch :: bool
  pr_ttl :: bool
  pr_fragmenter :: bool
  pr_ua :: bool
  pr_bandwidth_kbps :: "32 word"

record 't peer_proto =
  pp_id :: string
  pp_public_key :: bytes
  pp_endpoint :: string
  pp_last_seen :: 't

record privacy_response =
  pv_ttl_packets :: i64
  pv_ttl_modified :: i64
  pv_ipv4 :: i64
  pv_ipv6 :: i64
  pv_ttl_histogram :: "32 word \<rightharpoonup> i64"
  pv_frag :: fragment_stats
  pv_ua :: ua_stats

section \<open>Handlers\<close>

text \<open>
  \<open>secs\<close> is the number of whole seconds of a duration, computed through a \<^verbatim>\<open>float64\<close>. Times are
  in nanoseconds.
\<close>

definition rpc_get_status :: "(int \<Rightarrow> int) \<Rightarrow> process \<Rightarrow> int \<Rightarrow> 'f daemon \<Rightarrow> status_response" where
  "rpc_get_status secs pr now d =
     \<lparr>sr_node_id = ns_node_id (status d), sr_tunnel_state = map_tunnel_state (ns_tunnel (status d)),
      sr_role = map_node_role (d_role d), sr_connected_peers = of_nat (ns_connected (status d)),
      sr_started_at_ms = d_started_at d div 1000000, sr_uptime = secs (now - d_started_at d),
      sr_version = dc_version (d_cfg d), sr_platform = goos pr\<rparr>"

text \<open>
  The lock of the daemon is not held between its methods: \<open>after_role\<close>, \<open>after_start\<close> and the like are what
  other goroutines do to the daemon (the server goroutine that finds it cannot bind, other calls) before
  the next method, or the reading of the state for the answer.
\<close>

definition rpc_start_tunnel ::
  "process \<Rightarrow> 'os exec \<Rightarrow> proto_enum \<Rightarrow> ('f daemon \<times> 'os \<Rightarrow> 'f daemon \<times> 'os) \<Rightarrow>
   ('f daemon \<times> 'os \<Rightarrow> 'f daemon \<times> 'os) \<Rightarrow> 'f daemon \<times> 'os \<Rightarrow> start_response \<times> 'f daemon \<times> 'os" where
  "rpc_start_tunnel pr run role after_role after_start s =
     (let (d, os) = s;
          (d1, os1) = after_role (set_role (map_proto_role role) d, os);
          (d2, os2) = after_start (start_tunnel pr run (d1, os1))
      in (\<lparr>str_state = map_tunnel_state (d_tunnel d2), str_proxy_address = dc_proxy_address (d_cfg d2),
           str_quic_port = of_int (dc_quic_port (d_cfg d2))\<rparr>, d2, os2))"

definition rpc_stop_tunnel ::
  "process \<Rightarrow> 'os exec \<Rightarrow> ('f daemon \<times> 'os \<Rightarrow> 'f daemon \<times> 'os) \<Rightarrow> 'f daemon \<times> 'os \<Rightarrow>
   proto_enum \<times> 'f daemon \<times> 'os" where
  "rpc_stop_tunnel pr run after_stop s =
     (let (d2, os2) = after_stop (stop_tunnel pr run s) in (map_tunnel_state (d_tunnel d2), d2, os2))"

definition rpc_set_role ::
  "proto_enum \<Rightarrow> ('f daemon \<Rightarrow> 'f daemon) \<Rightarrow> 'f daemon \<Rightarrow> role_response \<times> 'f daemon" where
  "rpc_set_role role after_role d =
     (let d2 = after_role (set_role (map_proto_role role) d)
      in (\<lparr>rr_role = role, rr_tunnel_state = map_tunnel_state (d_tunnel d2)\<rparr>, d2))"

definition rpc_get_role :: "'f daemon \<Rightarrow> proto_enum" where
  "rpc_get_role d = map_node_role (d_role d)"

text \<open>The error of decoding the key is dropped; \<open>[]\<close> stands for what the decoder leaves then.\<close>

definition rpc_generate_qr ::
  "qr_codec \<Rightarrow> bytes option \<Rightarrow> bytes option \<Rightarrow> interface list option \<Rightarrow> int \<Rightarrow> 'f daemon \<Rightarrow> grpc_err + qr_response" where
  "rpc_generate_qr qc key token ifaces now d =
     (case generate_qr qc key token ifaces now d of
        Inl e \<Rightarrow> Inl Internal
      | Inr c \<Rightarrow>
          (case encode_qr qc c of
             Inl e \<Rightarrow> Inl Internal
           | Inr payload \<Rightarrow>
               Inr \<lparr>gq_payload = payload, gq_proxy_host = qr_proxy_host c, gq_proxy_port = of_int (qr_proxy_port c),
                    gq_quic_port = of_int (qr_quic_port c),
                    gq_key = (case b64_decode qc (qr_key c) of None \<Rightarrow> [] | Some k \<Rightarrow> k),
                    gq_expires_at = qr_expires_at c\<rparr>))"

text \<open>The payload is decoded a second time for the response; were that to fail, zero credentials would be used.\<close>

definition zero_credentials :: qr_credentials where
  "zero_credentials =
     \<lparr>qr_node_id = [], qr_proxy_host = [], qr_proxy_port = 0, qr_quic_port = 0, qr_key = [], qr_expires_at = 0,
      qr_auth_token = []\<rparr>"

definition rpc_import_qr ::
  "qr_codec \<Rightarrow> (string \<Rightarrow> dial_result) \<Rightarrow> int \<Rightarrow> string \<Rightarrow> 'f daemon \<Rightarrow> import_response \<times> 'f daemon" where
  "rpc_import_qr qc net now payload d =
     (case import_qr qc net now payload d of
        (Some e, d2) \<Rightarrow> (\<lparr>ir_success = False, ir_peer_id = [], ir_proxy_address = [], ir_error = Some e\<rparr>, d2)
      | (None, d2) \<Rightarrow>
          (let c = (case decode_qr qc payload of Inl e \<Rightarrow> zero_credentials | Inr c \<Rightarrow> c)
           in (\<lparr>ir_success = True, ir_peer_id = qr_node_id c,
                ir_proxy_address = qr_proxy_host c @ '':'' @ dec_int (qr_proxy_port c), ir_error = None\<rparr>, d2)))"

definition traffic_to_proto :: "'f traffic \<Rightarrow> 'f traffic_proto" where
  "traffic_to_proto s =
     \<lparr>tp_bytes_in = ts_bytes_in s, tp_bytes_out = ts_bytes_out s, tp_in_bps = ts_in_bps s, tp_out_bps = ts_out_bps s,
      tp_active = ts_active s, tp_total = ts_total s, tp_packets = ts_packets s\<rparr>"

definition rpc_get_traffic_stats :: "'f \<Rightarrow> int \<Rightarrow> 'f daemon \<Rightarrow> 'f traffic_proto \<times> 'f traffic_proto list" where
  "rpc_get_traffic_stats zero now d =
     (let (current, history) = get_traffic_stats zero now d
      in (traffic_to_proto current, map traffic_to_proto history))"

text \<open>
  \<^verbatim>\<open>StreamTrafficStats\<close>: at each event of its \<^verbatim>\<open>select\<close> the client is gone, or the ticker fires,
  with the daemon and the two clock readings at that moment, and whether the update can be
  sent. The result is what was sent and, once the call has ended, whether by an error.
\<close>

datatype 'f stream_event = StreamDone | StreamTick "'f daemon" int int bool

definition stream_interval :: "32 word \<Rightarrow> 32 word" where
  "stream_interval ms = (if ms = 0 then 500 else ms)"

fun rpc_stream_traffic ::
  "'f \<Rightarrow> 'f stream_event list \<Rightarrow> ('f traffic_proto \<times> int) list \<times> bool option" where
  "rpc_stream_traffic zero [] = ([], None)"
| "rpc_stream_traffic zero (StreamDone # es) = ([], Some False)"
| "rpc_stream_traffic zero (StreamTick d t now sent # es) =
     (let u = (traffic_to_proto (get_traffic_snapshot zero t d), now div 1000000) in
      if \<not> sent then ([], Some True)
      else let (us, r) = rpc_stream_traffic zero es in (u # us, r))"

definition rpc_get_privacy_stats :: "'f daemon \<Rightarrow> privacy_response" where
  "rpc_get_privacy_stats d =
     (let st = get_privacy_stats d;
          t = (case ps_ttl st of None \<Rightarrow> empty_ttl_stats | Some t \<Rightarrow> t)
      in \<lparr>pv_ttl_packets = packets_processed t, pv_ttl_modified = packets_modified t, pv_ipv4 = ipv4_packets t,
          pv_ipv6 = ipv6_packets t, pv_ttl_histogram = (\<lambda>k. original_ttls t (unat k)),
          pv_frag = (case ps_frag st of None \<Rightarrow> empty_fragment_stats | Some f \<Rightarrow> f),
          pv_ua = (case ps_ua st of
                     None \<Rightarrow> \<lparr>requests_processed = 0, requests_modified = 0, headers_stripped = 0\<rparr> | Some u \<Rightarrow> u)\<rparr>)"

text \<open>The limit comes from 32 bits, so that the product with 1024 fits the 64 bits of the daemon's.\<close>

definition rpc_set_privacy_config :: "privacy_request \<Rightarrow> 'f daemon \<Rightarrow> bool \<times> 'f daemon" where
  "rpc_set_privacy_config r d =
     (True, set_privacy_config
        \<lparr>pc_doh = pr_doh r, pc_kill_switch = pr_kill_switch r, pc_ttl = pr_ttl r, pc_fragmenter = pr_fragmenter r,
         pc_ua = pr_ua r, pc_bandwidth_kbps = uint (pr_bandwidth_kbps r)\<rparr> d)"

definition peer_to_proto :: "('t \<Rightarrow> 'm) \<Rightarrow> 't peer \<Rightarrow> 'm peer_proto" where
  "peer_to_proto unix_milli p =
     \<lparr>pp_id = peer_id p, pp_public_key = peer_public_key p, pp_endpoint = peer_endpoint p,
      pp_last_seen = unix_milli (peer_last_seen p)\<rparr>"

definition rpc_list_peers :: "'t codecs \<Rightarrow> ('t \<Rightarrow> 'm) \<Rightarrow> 'f daemon \<Rightarrow> grpc_err + 'm peer_proto list" where
  "rpc_list_peers cd unix_milli d =
     (case daemon_list_peers cd d of Inl e \<Rightarrow> Inl Internal | Inr ps \<Rightarrow> Inr (map (peer_to_proto unix_milli) ps))"

definition rpc_connect_peer :: "grpc_err + unit" where
  "rpc_connect_peer = Inl Unimplemented"

definition rpc_disconnect_peer :: "grpc_err + unit" where
  "rpc_disconnect_peer = Inl Unimplemented"

section \<open>The rate limiter\<close>

text \<open>\<^verbatim>\<open>ipRateLimiter\<close>: for each key the times of the calls let through. Keys are never removed.\<close>

type_synonym ip_limiter = "string \<rightharpoonup> int list"

definition new_ip_rate_limiter :: ip_limiter where
  "new_ip_rate_limiter = Map.empty"

definition timestamps :: "ip_limiter \<Rightarrow> string \<Rightarrow> int list" where
  "timestamps lim key = (case lim key of None \<Rightarrow> [] | Some ts \<Rightarrow> ts)"

definition allow :: "int \<Rightarrow> string \<Rightarrow> nat \<Rightarrow> int \<Rightarrow> ip_limiter \<Rightarrow> bool \<times> ip_limiter" where
  "allow now key most window lim =
     (let cutoff = now - window;
          fresh = filter (\<lambda>t. t > cutoff) (timestamps lim key)
      in if length fresh \<ge> most then (False, lim(key \<mapsto> fresh)) else (True, lim(key \<mapsto> fresh @ [now])))"

text \<open>A call as the interceptor sees it: when, from which address if known, and the full method name.\<close>

record call =
  call_time :: int
  call_peer :: "string option"
  call_method :: string

definition import_method :: string where
  "import_method = ''/airbridge.control.v1.ControlPlane/ImportQRCredentials''"

definition minute :: int where
  "minute = 60 * 1000000000"

definition client_ip :: "call \<Rightarrow> string" where
  "client_ip c =
     (case call_peer c of
        None \<Rightarrow> ''127.0.0.1''
      | Some addr \<Rightarrow> (case split_host_port addr of Inr (host, port) \<Rightarrow> host | Inl e \<Rightarrow> addr))"

definition general_key :: "string \<Rightarrow> string" where
  "general_key ip = ip @ '':general''"

definition import_key :: "string \<Rightarrow> string" where
  "import_key ip = ip @ '':import''"

text \<open>The interceptor: None means that the handler is called.\<close>

definition intercept :: "call \<Rightarrow> ip_limiter \<Rightarrow> grpc_err option \<times> ip_limiter" where
  "intercept c lim =
     (let (import_ok, lim1) =
        (if call_method c = import_method then allow (call_time c) (import_key (client_ip c)) 10 minute lim
         else (True, lim))
      in if \<not> import_ok then (Some ResourceExhaustedImport, lim1)
         else
           let (ok, lim2) = allow (call_time c) (general_key (client_ip c)) 60 minute lim1
           in if \<not> ok then (Some ResourceExhausted, lim2) else (None, lim2))"

fun serve_calls :: "ip_limiter \<Rightarrow> call list \<Rightarrow> (call \<times> grpc_err option) list" where
  "serve_calls lim [] = []"
| "serve_calls lim (c # cs) = (let (e, lim') = intercept c lim in (c, e) # serve_calls lim' cs)"

subsection \<open>What it promises\<close>

text \<open>
  A decision by the log of all the calls before and what became of them: the calls let past the
  import limit, and those handled, within the minute before.
\<close>

type_synonym call_log = "(call \<times> grpc_err option) list"

definition recent :: "int \<Rightarrow> int list \<Rightarrow> int list" where
  "recent now ts = filter (\<lambda>t. now - minute < t) ts"

definition import_log :: "string \<Rightarrow> call_log \<Rightarrow> int list" where
  "import_log ip log =
     map (call_time \<circ> fst)
       (filter (\<lambda>(c, e). client_ip c = ip \<and> call_method c = import_method \<and> e \<noteq> Some ResourceExhaustedImport) log)"

definition handled_log :: "string \<Rightarrow> call_log \<Rightarrow> int list" where
  "handled_log ip log = map (call_time \<circ> fst) (filter (\<lambda>(c, e). client_ip c = ip \<and> e = None) log)"

definition verdict :: "call_log \<Rightarrow> call \<Rightarrow> grpc_err option" where
  "verdict log c =
     (if call_method c = import_method \<and> 10 \<le> length (recent (call_time c) (import_log (client_ip c) log))
      then Some ResourceExhaustedImport
      else if 60 \<le> length (recent (call_time c) (handled_log (client_ip c) log)) then Some ResourceExhausted
      else None)"

fun judge :: "call_log \<Rightarrow> call list \<Rightarrow> call_log" where
  "judge log [] = log"
| "judge log (c # cs) = judge (log @ [(c, verdict log c)]) cs"

lemma log_simps [simp]:
  "import_log ip [] = []" "handled_log ip [] = []"
  "import_log ip (log @ [(c, e)]) = import_log ip log @
     (if client_ip c = ip \<and> call_method c = import_method \<and> e \<noteq> Some ResourceExhaustedImport
      then [call_time c] else [])"
  "handled_log ip (log @ [(c, e)]) = handled_log ip log @ (if client_ip c = ip \<and> e = None then [call_time c] else [])"
  by (simp_all add: import_log_def handled_log_def)

lemma keys_distinct [simp]:
  "import_key ip \<noteq> general_key ip'" "general_key ip' \<noteq> import_key ip"
  "(import_key ip = import_key ip') = (ip = ip')" "(general_key ip = general_key ip') = (ip = ip')"
proof -
  have "last (import_key ip) \<noteq> last (general_key ip')" by (simp add: import_key_def general_key_def)
  then show "import_key ip \<noteq> general_key ip'" "general_key ip' \<noteq> import_key ip" by fastforce+
qed (simp_all add: import_key_def general_key_def)

text \<open>
  The times stored under a key agree with those logged as far as any later call looks back.
\<close>

definition agrees :: "int \<Rightarrow> int list \<Rightarrow> int list \<Rightarrow> bool" where
  "agrees now ts hs \<longleftrightarrow> (\<forall>t \<ge> now. recent t ts = recent t hs)"

lemma recent_append [simp]: "recent now (xs @ ys) = recent now xs @ recent now ys"
  by (simp add: recent_def)

lemma recent_recent: "now \<le> t \<Longrightarrow> recent t (recent now ts) = recent t ts"
  by (auto simp: recent_def intro!: filter_cong)

lemma agrees_later: "agrees now ts hs \<Longrightarrow> now \<le> now' \<Longrightarrow> agrees now' ts hs"
  by (simp add: agrees_def)

lemma agrees_recent: "agrees now ts hs \<Longrightarrow> agrees now (recent now ts) hs"
  by (simp add: agrees_def recent_recent)

lemma agrees_snoc: "agrees now ts hs \<Longrightarrow> agrees now (ts @ [x]) (hs @ [x])"
  by (simp add: agrees_def)

text \<open>A call of \<open>allow\<close> in these terms.\<close>

lemma allow_spec:
  assumes "agrees now (timestamps lim key) hs"
  shows "fst (allow now key most minute lim) = (length (recent now hs) < most) \<and>
    agrees now (timestamps (snd (allow now key most minute lim)) key)
      (if length (recent now hs) < most then hs @ [now] else hs) \<and>
    (\<forall>k. k \<noteq> key \<longrightarrow> timestamps (snd (allow now key most minute lim)) k = timestamps lim k)"
proof -
  have "recent now (timestamps lim key) = recent now hs"
    using assms by (simp add: agrees_def)
  with agrees_recent[OF assms] show ?thesis
    by (auto simp: allow_def Let_def recent_def[symmetric] timestamps_def agrees_snoc)
qed

definition lim_log :: "int \<Rightarrow> ip_limiter \<Rightarrow> call_log \<Rightarrow> bool" where
  "lim_log now lim log \<longleftrightarrow>
     (\<forall>ip. agrees now (timestamps lim (import_key ip)) (import_log ip log) \<and>
           agrees now (timestamps lim (general_key ip)) (handled_log ip log))"

lemma lim_log_later: "lim_log now lim log \<Longrightarrow> now \<le> now' \<Longrightarrow> lim_log now' lim log"
  by (auto simp: lim_log_def intro: agrees_later)

lemma intercept_spec:
  assumes "lim_log (call_time c) lim log"
  shows "fst (intercept c lim) = verdict log c \<and>
    lim_log (call_time c) (snd (intercept c lim)) (log @ [(c, verdict log c)])"
proof -
  let ?now = "call_time c" and ?ip = "client_ip c"
  let ?lim1 = "if call_method c = import_method then snd (allow ?now (import_key ?ip) 10 minute lim) else lim"
  let ?I = "length (recent ?now (import_log ?ip log)) < 10" and ?G = "length (recent ?now (handled_log ?ip log)) < 60"
  have l: "agrees ?now (timestamps lim (import_key ip)) (import_log ip log)"
    "agrees ?now (timestamps lim (general_key ip)) (handled_log ip log)" for ip
    using assms by (simp_all add: lim_log_def)
  note imp = allow_spec[OF l(1), of ?ip 10]
  have g1: "timestamps ?lim1 (general_key ip) = timestamps lim (general_key ip)" for ip
    using imp by simp
  have i1: "agrees ?now (timestamps ?lim1 (import_key ip))
      (if call_method c = import_method \<and> ip = ?ip \<and> ?I then import_log ip log @ [?now] else import_log ip log)" for ip
    using imp l(1)[of ip] by (cases "ip = ?ip"; cases ?I; cases "call_method c = import_method") simp_all
  have "agrees ?now (timestamps ?lim1 (general_key ?ip)) (handled_log ?ip log)"
    using l(2) g1 by simp
  note gen = allow_spec[OF this, of 60]
  show ?thesis
  proof (cases "call_method c = import_method \<and> \<not> ?I")
    case True
    then have "intercept c lim = (Some ResourceExhaustedImport, ?lim1)" "verdict log c = Some ResourceExhaustedImport"
      using imp by (auto simp: intercept_def verdict_def case_prod_unfold)
    with True i1 g1 l(2) show ?thesis by (auto simp: lim_log_def)
  next
    case False
    let ?lim2 = "snd (allow ?now (general_key ?ip) 60 minute ?lim1)"
    from False have e: "intercept c lim = (if ?G then None else Some ResourceExhausted, ?lim2)"
      "verdict log c = (if ?G then None else Some ResourceExhausted)"
      using imp gen by (auto simp: intercept_def verdict_def case_prod_unfold Let_def)
    have "agrees ?now (timestamps ?lim2 (import_key ip))
        (if call_method c = import_method \<and> ip = ?ip then import_log ip log @ [?now] else import_log ip log)" for ip
      using i1[of ip] gen False by (auto split: if_splits)
    moreover have "agrees ?now (timestamps ?lim2 (general_key ip))
        (if ip = ?ip \<and> ?G then handled_log ip log @ [?now] else handled_log ip log)" for ip
      using gen g1[of ip] l(2)[of ip] by (cases "ip = ?ip") (auto split: if_splits)
    moreover have "import_log ip (log @ [(c, verdict log c)]) =
        (if call_method c = import_method \<and> ip = ?ip then import_log ip log @ [?now] else import_log ip log)"
      "handled_log ip (log @ [(c, verdict log c)]) =
        (if ip = ?ip \<and> ?G then handled_log ip log @ [?now] else handled_log ip log)" for ip
      by (auto simp: e(2))
    ultimately show ?thesis
      unfolding lim_log_def by (simp only: e fst_conv snd_conv simp_thms)
  qed
qed

lemma serve_calls_judge:
  "sorted (now # map call_time cs) \<Longrightarrow> lim_log now lim log \<Longrightarrow> log @ serve_calls lim cs = judge log cs"
proof (induction cs arbitrary: now lim log)
  case Nil
  then show ?case by simp
next
  case (Cons c cs)
  then have "lim_log (call_time c) lim log" by (auto intro: lim_log_later)
  note spec = intercept_spec[OF this]
  from Cons.IH[of "call_time c" "snd (intercept c lim)" "log @ [(c, verdict log c)]"] Cons.prems(1) spec
  show ?case by (simp add: case_prod_unfold)
qed

subsection \<open>The limits\<close>

definition within :: "nat \<Rightarrow> int list \<Rightarrow> bool" where
  "within n hs \<longleftrightarrow> (\<forall>t. length (filter (\<lambda>x. t - minute < x \<and> x \<le> t) hs) \<le> n)"

lemma length_filter_mono:
  assumes "\<And>time. time \<in> set ts \<Longrightarrow> earlier time \<Longrightarrow> later time"
  shows "length (filter earlier ts) \<le> length (filter later ts)"
  using assms by (induction ts) auto

lemma within_snoc:
  assumes "within n hs" and "length (recent now hs) < n"
  shows "within n (hs @ [now])"
  unfolding within_def
proof
  fix t
  have "length (filter (\<lambda>x. t - minute < x \<and> x \<le> t) hs) \<le> n"
    using assms(1) by (simp add: within_def)
  moreover have "length (filter (\<lambda>x. t - minute < x \<and> x \<le> t) hs) \<le> length (recent now hs)" if "now \<le> t"
    unfolding recent_def by (rule length_filter_mono) (use that in auto)
  ultimately show "length (filter (\<lambda>x. t - minute < x \<and> x \<le> t) (hs @ [now])) \<le> n"
    using assms(2) by auto
qed

definition log_bounded :: "call_log \<Rightarrow> bool" where
  "log_bounded log \<longleftrightarrow> (\<forall>ip. within 10 (import_log ip log) \<and> within 60 (handled_log ip log))"

lemma judge_bounded: "log_bounded log \<Longrightarrow> log_bounded (judge log cs)"
proof (induction log cs rule: judge.induct)
  case (2 log c cs)
  have "log_bounded (log @ [(c, verdict log c)])"
    using 2(2) by (auto simp: log_bounded_def verdict_def intro!: within_snoc split: if_splits)
  with 2(1) show ?case by simp
qed simp

definition handled_in :: "int \<Rightarrow> string \<Rightarrow> call_log \<Rightarrow> call list" where
  "handled_in t ip log =
     map fst (filter (\<lambda>(c, e). e = None \<and> client_ip c = ip \<and> t - minute < call_time c \<and> call_time c \<le> t) log)"

lemma handled_in_length:
  "length (handled_in t ip log) = length (filter (\<lambda>x. t - minute < x \<and> x \<le> t) (handled_log ip log))"
  unfolding handled_in_def handled_log_def
  by (simp add: filter_map comp_def case_prod_unfold conj_ac)

lemma imports_in_length:
  "length (filter (\<lambda>c. call_method c = import_method) (handled_in t ip log)) \<le>
   length (filter (\<lambda>x. t - minute < x \<and> x \<le> t) (import_log ip log))"
  unfolding handled_in_def import_log_def
  by (simp add: filter_map comp_def case_prod_unfold) (rule length_filter_mono, auto)

lemma serve_calls_log:
  assumes "sorted (map call_time cs)"
  shows "serve_calls new_ip_rate_limiter cs = judge [] cs"
proof (cases cs)
  case (Cons c cs')
  have "lim_log (call_time c) new_ip_rate_limiter []"
    by (simp add: lim_log_def agrees_def timestamps_def new_ip_rate_limiter_def)
  with assms Cons show ?thesis
    using serve_calls_judge[of "call_time c" cs new_ip_rate_limiter "[]"] by simp
qed simp

section \<open>Properties\<close>

text \<open>
  C17. The interceptor, with its map of time stamps cut back at every call, decides each call
  of every sequence, from any number of addresses, as the full log of what was decided before
  demands: an import is refused if ten imports of its address came through in the minute
  before, any call if sixty calls of its address were handled. A refused import does not count,
  an import refused only by the general limit still counts as an import.
\<close>

theorem interceptor_follows_log:
  assumes "sorted (map call_time cs)"
  shows "serve_calls new_ip_rate_limiter cs = judge [] cs"
  using assms by (rule serve_calls_log)

definition sample_calls :: "call list" where
  "sample_calls =
     [\<lparr>call_time = 1, call_peer = Some ''10.0.0.5:4000'', call_method = import_method\<rparr>,
      \<lparr>call_time = 2, call_peer = None, call_method = ''/m''\<rparr>]"

theorem interceptor_follows_log_witness:
  "serve_calls new_ip_rate_limiter sample_calls = judge [] sample_calls"
  by (rule interceptor_follows_log) (simp add: sample_calls_def)

text \<open>
  C18. Within any minute at most 60 calls of an address reach a handler, and at most 10 of them
  are imports of a QR code, whatever is called when and by whom.
\<close>

theorem calls_per_minute_bounded:
  assumes "sorted (map call_time cs)"
  shows "length (handled_in t ip (serve_calls new_ip_rate_limiter cs)) \<le> 60 \<and>
    length (filter (\<lambda>c. call_method c = import_method) (handled_in t ip (serve_calls new_ip_rate_limiter cs))) \<le> 10"
proof -
  have "log_bounded (judge [] cs)"
    by (rule judge_bounded) (simp add: log_bounded_def within_def)
  then have b: "within 10 (import_log ip (judge [] cs))" "within 60 (handled_log ip (judge [] cs))"
    by (simp_all add: log_bounded_def)
  show ?thesis
    unfolding serve_calls_log[OF assms]
    using b imports_in_length[of t ip "judge [] cs"] by (auto simp: within_def handled_in_length intro: order_trans)
qed

theorem calls_per_minute_bounded_witness:
  "length (handled_in 5 ''127.0.0.1'' (serve_calls new_ip_rate_limiter sample_calls)) \<le> 60"
  using calls_per_minute_bounded[of sample_calls 5 "''127.0.0.1''"] by (simp add: sample_calls_def)

lemma ks_enable_result: "ks_enabled (fst (snd (ks_enable pr run (ks, os)))) = (fst (ks_enable pr run (ks, os)) = None)"
  by (auto simp: ks_enable_def Let_def split: option.splits prod.splits)

lemma ks_disable_result:
  "ks_enabled (fst (snd (ks_disable pr run (ks, os)))) =
   (ks_enabled ks \<and> goos pr \<notin> {''windows'', ''linux'', ''darwin''})"
  by (auto simp: ks_disable_def Let_def)

text \<open>
  What the two calls for the tunnel come to where no other goroutine comes between their parts (the
  server goroutine of theory Tunnel can). \<^verbatim>\<open>StartTunnel\<close> then answers that the tunnel runs; the node has the role asked for, or none if there is no such role. The proxy serves
  exactly if it did so before or the master role was asked for while the tunnel did not run: a
  node that runs as a client and is told to be a master answers so, and does not serve. The
  kill switch is on exactly if enabling it gave no error; an error is not reported.
  \<^verbatim>\<open>StopTunnel\<close> answers that the tunnel is stopped, the proxy does not serve, and the kill
  switch is off on the three platforms that have one.
\<close>

theorem tunnel_calls_outcome:
  "(let (r, d', os') = rpc_start_tunnel pr run role id id (d, os) in
      str_state r = map_tunnel_state TunnelRunning \<and> rpc_get_role d' = (if role = 1 \<or> role = 2 then role else 0) \<and>
      map_option ph_serving (d_proxy d') =
        map_option (\<lambda>p. ph_serving p \<or> (role = 1 \<and> d_tunnel d \<noteq> TunnelRunning)) (d_proxy d) \<and>
      map_option ks_enabled (d_kill_switch d') =
        map_option (\<lambda>ks. if d_tunnel d = TunnelRunning then ks_enabled ks else fst (ks_enable pr run (ks, os)) = None)
          (d_kill_switch d)) \<and>
   (let (r, d', os') = rpc_stop_tunnel pr run id (d, os) in
      r = map_tunnel_state TunnelStopped \<and> map_option ph_serving (d_proxy d') = map_option (\<lambda>p. False) (d_proxy d) \<and>
      map_option ks_enabled (d_kill_switch d') =
        map_option (\<lambda>ks. ks_enabled ks \<and> goos pr \<notin> {''windows'', ''linux'', ''darwin''}) (d_kill_switch d))"
proof (rule conjI)
  show "let (r, d', os') = rpc_start_tunnel pr run role id id (d, os) in
      str_state r = map_tunnel_state TunnelRunning \<and> rpc_get_role d' = (if role = 1 \<or> role = 2 then role else 0) \<and>
      map_option ph_serving (d_proxy d') =
        map_option (\<lambda>p. ph_serving p \<or> (role = 1 \<and> d_tunnel d \<noteq> TunnelRunning)) (d_proxy d) \<and>
      map_option ks_enabled (d_kill_switch d') =
        map_option (\<lambda>ks. if d_tunnel d = TunnelRunning then ks_enabled ks else fst (ks_enable pr run (ks, os)) = None)
          (d_kill_switch d)"
    by (auto simp: rpc_start_tunnel_def start_tunnel_def set_role_def map_proto_role_def rpc_get_role_def
        map_node_role_def ks_enable_result Let_def case_prod_unfold option.map_comp comp_def option.map_ident
        split: option.split)
  show "let (r, d', os') = rpc_stop_tunnel pr run id (d, os) in
      r = map_tunnel_state TunnelStopped \<and> map_option ph_serving (d_proxy d') = map_option (\<lambda>p. False) (d_proxy d) \<and>
      map_option ks_enabled (d_kill_switch d') =
        map_option (\<lambda>ks. ks_enabled ks \<and> goos pr \<notin> {''windows'', ''linux'', ''darwin''}) (d_kill_switch d)"
    by (auto simp: rpc_stop_tunnel_def stop_tunnel_def shutdown_proxy_def ks_disable_result Let_def
        case_prod_unfold option.map_comp comp_def split: option.split)
qed

end
