(* ===== verification/Bootstrap.thy ===== *)
theory Bootstrap
  imports Grpc Negotiation
begin

text \<open>
  \<^verbatim>\<open>cmd/securemesh-node/main.go\<close> and \<^verbatim>\<open>observability/tracing.go\<close>: how the node is put together
  from the components, what makes it exit before it runs, the reload on SIGHUP and the deferred
  calls at the end. The world (environment, files, random key, sockets, OpenTelemetry) is a record
  of parameters; the steps that only print are left out.
\<close>

section \<open>Tracing\<close>

datatype exporter = StdoutExporter | OtlpExporter string bool

definition new_exporter :: "'f tracing_config \<Rightarrow> exporter" where
  "new_exporter cfg =
     (if otlp_endpoint cfg = [] then StdoutExporter else OtlpExporter (otlp_endpoint cfg) (otlp_insecure cfg))"

text \<open>\<^verbatim>\<open>Setup\<close>: the exporter and the sampling ratio in use. \<open>out_of_range r\<close> is \<^verbatim>\<open>r <= 0 || r > 1\<close>.\<close>

definition setup_tracing ::
  "(exporter \<Rightarrow> bool) \<Rightarrow> bool \<Rightarrow> ('f \<Rightarrow> bool) \<Rightarrow> 'f \<Rightarrow> 'f tracing_config \<Rightarrow> (exporter \<times> 'f) option" where
  "setup_tracing exporter_ok resource_ok out_of_range one cfg =
     (if service_name cfg = [] then None
      else if \<not> exporter_ok (new_exporter cfg) then None
      else
        let r = (if out_of_range (sample_ratio cfg) then one else sample_ratio cfg)
        in if \<not> resource_ok then None else Some (new_exporter cfg, r))"

section \<open>Start of the node\<close>

record 'f world =
  getenv :: "string \<Rightarrow> string"
  strconv_parse_float :: "string \<Rightarrow> 'f option"
  float_one :: 'f
  ratio_out_of_range :: "'f \<Rightarrow> bool"
  exporter_ok :: "exporter \<Rightarrow> bool"
  resource_ok :: bool
  sqlite_open_ok :: bool
  sqlite_migrate_ok :: bool
  disk :: "string \<Rightarrow> peers_table"
  ed_public :: "bytes \<Rightarrow> bytes"
  fresh_key :: "bytes option"
  clock :: int
  can_listen :: "string \<Rightarrow> bool"

datatype boot_err =
  TracingFailed | StoreFailed store_err | NegotiationFailed negotiation_err | FragmenterFailed frag_err
| MeshFailed mesh_err | GrpcListenFailed

definition node_version :: string where
  "node_version = ''1.0.0-alpha''"

definition client_capabilities :: capabilities where
  "client_capabilities =
     \<lparr>aead_suites = [''ChaCha20-Poly1305'', ''AES-256-GCM''],
      transports = [''QUIC'', ''SOCKS5-TLS''],
      handshake_modes = [''Noise_IK'', ''Noise_XX''],
      protocol_version = ''securemesh/1''\<rparr>"

definition grpc_listen_address :: "string \<Rightarrow> string" where
  "grpc_listen_address addr = (if addr = [] then ''127.0.0.1:50051'' else addr)"

definition load_config :: "'f world \<Rightarrow> 'f node_config" where
  "load_config w = load_from_env (strconv_parse_float w) (float_one w) (getenv w)"

definition daemon_cfg :: "'f world \<Rightarrow> daemon_config" where
  "daemon_cfg w = default_daemon_config\<lparr>dc_node_id := node_config.node_id (load_config w), dc_version := node_version\<rparr>"

definition boot :: "'f world \<Rightarrow> boot_err + 'g daemon" where
  "boot w =
     (let cfg = load_config w in
      case setup_tracing (exporter_ok w) (resource_ok w) (ratio_out_of_range w) (float_one w) (tracing cfg) of
        None \<Rightarrow> Inl TracingFailed
      | Some tr \<Rightarrow>
      (case open_store (sqlite_open_ok w) (sqlite_migrate_ok w) (disk w) (storage cfg) of
        Inl e \<Rightarrow> Inl (StoreFailed e)
      | Inr (file, db) \<Rightarrow>
      (case negotiate_capabilities default_capabilities client_capabilities of
        Inl e \<Rightarrow> Inl (NegotiationFailed e)
      | Inr profile \<Rightarrow>
      (case new_fragmenter default_fragmenter_config of
        Inl e \<Rightarrow> Inl (FragmenterFailed e)
      | Inr fr \<Rightarrow>
      (case new_libp2p_service (ed_public w) (fresh_key w) [''/ip4/0.0.0.0/tcp/0''] [] [] of
        Inl e \<Rightarrow> Inl (MeshFailed e)
      | Inr m \<Rightarrow>
        (let d = daemon_start (clock w) (wired_daemon (node_config.node_id cfg) node_version m fr db)
         in if can_listen w (grpc_listen_address (dc_grpc_address (daemon_cfg w))) then Inr d
            else Inl GrpcListenFailed))))))"

text \<open>SIGHUP: the identifier from the configuration read again, two addresses straight from the environment.\<close>

definition sighup :: "process \<Rightarrow> 'os exec \<Rightarrow> 'f world \<Rightarrow> 'g daemon \<times> 'os \<Rightarrow> 'g daemon \<times> 'os" where
  "sighup pr run w s =
     update_daemon_config pr run
       \<lparr>dc_node_id = node_config.node_id (load_config w), dc_grpc_address = getenv w ''SECUREMESH_GRPC_ADDR'',
        dc_proxy_address = getenv w ''SECUREMESH_PROXY_ADDR'', dc_quic_port = 0, dc_version = []\<rparr> s"

text \<open>
  The deferred calls at the end of \<^verbatim>\<open>main\<close>, last in first out: the daemon is stopped, then the
  kill switch, the one it was given, is disabled.
\<close>

definition shutdown_node :: "process \<Rightarrow> 'os exec \<Rightarrow> bool \<Rightarrow> 'g daemon \<times> 'os \<Rightarrow> 'g daemon \<times> 'os" where
  "shutdown_node pr run late s =
     (let (d, os) = s;
          d1 = daemon_stop late d
      in case d_kill_switch d1 of
           None \<Rightarrow> (d1, os)
         | Some ks \<Rightarrow>
             (let (e, ks', os') = ks_disable pr run (ks, os) in (d1\<lparr>d_kill_switch := Some ks'\<rparr>, os')))"

section \<open>Properties\<close>

lemma default_negotiation: "\<exists>p. negotiate_capabilities default_capabilities client_capabilities = Inr p"
proof -
  have "(case negotiate_capabilities default_capabilities client_capabilities of Inl e \<Rightarrow> False | Inr p \<Rightarrow> True)"
    by code_simp
  then show ?thesis by (simp split: sum.splits)
qed

lemma default_fragmenter: "\<exists>f. new_fragmenter default_fragmenter_config = Inr f"
  by (simp add: new_fragmenter_def default_fragmenter_config_def)

lemma env_not_empty: "fallback \<noteq> [] \<Longrightarrow> env g name fallback \<noteq> []"
  by (simp add: env_def Let_def)

lemma service_name_set: "service_name (tracing (load_config w)) \<noteq> []"
  by (simp add: load_config_def load_from_env_def env_not_empty)

lemma setup_tracing_fails:
  "setup_tracing (exporter_ok w) (resource_ok w) oor one (tracing (load_config w)) = None \<longleftrightarrow>
   \<not> exporter_ok w (new_exporter (tracing (load_config w))) \<or> \<not> resource_ok w"
  by (simp add: setup_tracing_def service_name_set Let_def)

lemma open_store_fails:
  "(\<exists>e. open_store open_ok migrate_ok dsk cfg = Inl e) \<longleftrightarrow>
   str_lower (trim_space (driver cfg)) \<notin> {[], ''sqlite''} \<or> \<not> open_ok \<or> \<not> migrate_ok"
  by (auto simp: open_store_def open_sqlite_def Let_def)

lemma new_mesh_fails:
  "(\<exists>e. new_libp2p_service ed key listen peers0 [] = Inl e) \<longleftrightarrow> key = None"
  by (auto simp: new_libp2p_service_def Let_def split: option.splits)

lemma boot_fails:
  "(\<exists>e. (boot w :: boot_err + 'g daemon) = Inl e) \<longleftrightarrow>
     \<not> exporter_ok w (new_exporter (tracing (load_config w))) \<or> \<not> resource_ok w \<or>
     str_lower (trim_space (driver (storage (load_config w)))) \<notin> {[], ''sqlite''} \<or>
     \<not> sqlite_open_ok w \<or> \<not> sqlite_migrate_ok w \<or> fresh_key w = None \<or> \<not> can_listen w ''127.0.0.1:50051''"
proof -
  obtain p f where pf: "negotiate_capabilities default_capabilities client_capabilities = Inr p"
    "new_fragmenter default_fragmenter_config = Inr f"
    using default_negotiation default_fragmenter by blast
  have g: "grpc_listen_address (dc_grpc_address (daemon_cfg w)) = ''127.0.0.1:50051''"
    by (simp add: grpc_listen_address_def daemon_cfg_def default_daemon_config_def)
  note t = setup_tracing_fails[of w "ratio_out_of_range w" "float_one w"]
  note st = open_store_fails[of "sqlite_open_ok w" "sqlite_migrate_ok w" "disk w" "storage (load_config w)"]
  note m = new_mesh_fails[of "ed_public w" "fresh_key w" "[''/ip4/0.0.0.0/tcp/0'']" "[]"]
  from t st m show ?thesis
    unfolding boot_def Let_def pf g by (auto split: option.splits sum.splits)
qed

lemma boot_wired:
  assumes "boot w = Inr d"
  obtains m fr db where "fresh_mesh m"
    and "d = daemon_start (clock w) (wired_daemon (node_config.node_id (load_config w)) node_version m fr db)"
proof -
  from assms obtain m fr db where
    "new_libp2p_service (ed_public w) (fresh_key w) [''/ip4/0.0.0.0/tcp/0''] [] [] = Inr m"
    "d = daemon_start (clock w) (wired_daemon (node_config.node_id (load_config w)) node_version m fr db)"
    by (auto simp: boot_def Let_def split: option.splits sum.splits if_splits)
  then show thesis
    using that unfolding fresh_mesh_def by blast
qed

lemma booted_inv:
  assumes "boot w = Inr d0" and "(daemon_step pr run)\<^sup>*\<^sup>* (d0, os0) s"
  shows "daemon_inv s"
proof -
  from boot_wired[OF assms(1)] obtain m fr db where m: "fresh_mesh m"
    and d0: "d0 = daemon_start (clock w) (wired_daemon (node_config.node_id (load_config w)) node_version m fr db)"
    by blast
  let ?s = "(wired_daemon (node_config.node_id (load_config w)) node_version m fr db, os0)"
  have "daemon_step pr run ?s (d0, os0)"
    unfolding d0 by (rule ds_start)
  from this assms(2) have "(daemon_step pr run)\<^sup>*\<^sup>* ?s s"
    by (rule converse_rtranclp_into_rtranclp)
  with m show ?thesis
    by (intro daemon_ts.inv_reachable[of ?s]) blast
qed

lemma sighup_step: "daemon_step pr run s (sighup pr run w s)"
  unfolding sighup_def by (rule ds_update)

text \<open>
  What keeps the node from starting: an exporter or resource for traces that cannot be made,
  a state driver other than SQLite, a database that cannot be opened or migrated, no random
  bytes for the key of the mesh, or an address of the control plane that is taken. Neither the
  negotiation of the default capabilities nor the default engines ever do, nor does an empty
  service name, for every environment.
\<close>

theorem boot_fails_iff:
  "(\<exists>e. (boot w :: boot_err + 'g daemon) = Inl e) \<longleftrightarrow>
     \<not> exporter_ok w (new_exporter (tracing (load_config w))) \<or> \<not> resource_ok w \<or>
     str_lower (trim_space (driver (storage (load_config w)))) \<notin> {[], ''sqlite''} \<or>
     \<not> sqlite_open_ok w \<or> \<not> sqlite_migrate_ok w \<or> fresh_key w = None \<or> \<not> can_listen w ''127.0.0.1:50051''"
  by (rule boot_fails)

text \<open>
  C6. From the start to the end: whatever is done to the node that \<^verbatim>\<open>main\<close> has put together,
  reloads included, after the deferred calls the tunnel is stopped, no proxy serves, the kill
  switch is off on the three platforms that have one, the mesh has not panicked, and a proxy
  that asks for a token accepted none.
\<close>

theorem node_lifecycle:
  assumes "boot w = Inr d0" and "(daemon_step pr run)\<^sup>*\<^sup>* (d0, os0) (d, os)"
    and "goos pr \<in> {''windows'', ''linux'', ''darwin''}"
  shows "let (d', os') = shutdown_node pr run late (d, os) in
    d_tunnel d' = TunnelStopped \<and> map_option ks_enabled (d_kill_switch d') = map_option (\<lambda>ks. False) (d_kill_switch d) \<and>
    (d_mesh d' = Some m \<longrightarrow> \<not> panicked m) \<and>
    (d_proxy d' = Some p \<longrightarrow> \<not> ph_serving p \<and>
       (auth (srv_cfg (ph_server p)) = None \<or>
        (\<exists>a. auth (srv_cfg (ph_server p)) = Some a \<and> \<not> ta_validate a user password)))"
proof -
  let ?d1 = "daemon_stop late d" and ?r = "shutdown_node pr run late (d, os)"
  have "(daemon_step pr run)\<^sup>*\<^sup>* (d0, os0) (?d1, os)"
    by (rule rtranclp.rtrancl_into_rtrancl, rule assms(2), rule ds_stop)
  then have inv: "daemon_inv (?d1, os)" by (rule booted_inv[OF assms(1)])
  have f: "d_tunnel (fst ?r) = d_tunnel ?d1" "d_mesh (fst ?r) = d_mesh ?d1" "d_proxy (fst ?r) = d_proxy ?d1"
    "map_option ks_enabled (d_kill_switch (fst ?r)) = map_option (\<lambda>ks. False) (d_kill_switch d)"
    using assms(3) by (auto simp: shutdown_node_def daemon_stop_def ks_disable_result Let_def case_prod_unfold
        split: option.split)
  have "d_tunnel ?d1 = TunnelStopped" "\<And>p. d_proxy ?d1 = Some p \<Longrightarrow> \<not> ph_serving p"
    by (auto simp: daemon_stop_def shutdown_proxy_def)
  with inv f show ?thesis
    by (auto simp: case_prod_unfold daemon_inv_def proxy_ok_def mesh_inv_def events_ok_def new_token_authenticator_def
        ta_validate_def)
qed

definition sample_world :: "unit world" where
  "sample_world =
     \<lparr>getenv = (\<lambda>_. []), strconv_parse_float = (\<lambda>_. None), float_one = (), ratio_out_of_range = (\<lambda>_. False),
      exporter_ok = (\<lambda>_. True), resource_ok = True, sqlite_open_ok = True, sqlite_migrate_ok = True,
      disk = (\<lambda>_. []), ed_public = id, fresh_key = Some (replicate 32 7), clock = 0, can_listen = (\<lambda>_. True)\<rparr>"

theorem node_lifecycle_witness:
  "\<exists>d0. boot sample_world = Inr (d0 :: unit daemon) \<and>
     d_tunnel (fst (shutdown_node linux_process no_exec False (start_tunnel linux_process no_exec (d0, ())))) = TunnelStopped"
proof -
  have "str_lower (trim_space (driver (storage (load_config sample_world)))) = ''sqlite''"
    by code_simp
  then have "\<not> (\<exists>e. (boot sample_world :: boot_err + unit daemon) = Inl e)"
    unfolding boot_fails by (simp add: sample_world_def)
  then obtain d0 where d0: "boot sample_world = Inr (d0 :: unit daemon)"
    by (cases "boot sample_world :: boot_err + unit daemon") auto
  let ?s = "start_tunnel linux_process no_exec (d0, ())"
  have "(daemon_step linux_process no_exec)\<^sup>*\<^sup>* (d0, ()) (fst ?s, snd ?s)"
    unfolding prod.collapse by (rule r_into_rtranclp, rule ds_start_tunnel)
  moreover have "goos linux_process \<in> {''windows'', ''linux'', ''darwin''}"
    by (simp add: linux_process_def)
  ultimately have "d_tunnel (fst (shutdown_node linux_process no_exec False ?s)) = TunnelStopped"
    using node_lifecycle[OF d0, of linux_process no_exec "()" "fst ?s" "snd ?s" False]
    unfolding prod.collapse Let_def case_prod_unfold by blast
  with d0 show ?thesis by blast
qed

end
